(* ===== verification/Fgtw_Prelude.thy ===== *)
theory Fgtw_Prelude
  imports Main "HOL-Library.Word" "HOL-Library.AList" "HOL-Library.List_Lexorder"
    "HOL-Library.Product_Lexorder"
begin

text \<open>
  Shared ground of the development: bytes and fixed-width integers, the little-endian and
  big-endian encodings the Rust sources obtain from \<open>to_le_bytes\<close> / \<open>to_be_bytes\<close>,
  length framing, the left fold that stops at the first error (the shape of every
  \<open>for\<close> loop with early \<open>return Err(..)\<close>), and the bitmask lemmas. A Rust \<open>[u8; 32]\<close>
  is a byte list of length 32; the length is a typing fact, stated by the well-formedness
  predicates of the components.
\<close>

unbundle bit_operations_syntax

named_theorems codec_simps
named_theorems len_simps

section \<open>Bytes and machine integers\<close>

type_synonym byte = "8 word"
type_synonym bytes = "byte list"
type_synonym u16 = "16 word"
type_synonym u32 = "32 word"
type_synonym u64 = "64 word"
type_synonym i64 = "64 word"

definition zero32 :: bytes where
  "zero32 = replicate 32 0"

lemma length_zero32 [simp, len_simps]: "length zero32 = 32"
  by (simp add: zero32_def)

text \<open>A Rust byte-string literal \<open>b"..."\<close>.\<close>

definition ascii :: "string \<Rightarrow> bytes" where
  "ascii s = map of_char s"

lemma length_ascii [simp, len_simps]: "length (ascii s) = length s"
  by (simp add: ascii_def)

text \<open>Rust's \<open>i64::abs_diff\<close>: the distance as an unsigned number, never an overflow.\<close>

definition abs_diff_i64 :: "i64 \<Rightarrow> i64 \<Rightarrow> nat" where
  "abs_diff_i64 a b = nat \<bar>sint a - sint b\<bar>"

lemma abs_diff_i64_commute: "abs_diff_i64 a b = abs_diff_i64 b a"
  by (simp add: abs_diff_i64_def abs_minus_commute)

lemma abs_diff_i64_self [simp]: "abs_diff_i64 a a = 0"
  by (simp add: abs_diff_i64_def)

section \<open>Little-endian and big-endian encodings\<close>

fun le_enc :: "nat \<Rightarrow> nat \<Rightarrow> bytes" where
  "le_enc 0 k = []"
| "le_enc (Suc n) k = of_nat k # le_enc n (k div 256)"

fun le_dec :: "bytes \<Rightarrow> nat" where
  "le_dec [] = 0"
| "le_dec (b # bs) = unat b + 256 * le_dec bs"

definition be_enc :: "nat \<Rightarrow> nat \<Rightarrow> bytes" where
  "be_enc n k = rev (le_enc n k)"

definition be_dec :: "bytes \<Rightarrow> nat" where
  "be_dec bs = le_dec (rev bs)"

lemma length_le_enc [simp, len_simps]: "length (le_enc n k) = n"
  by (induction n arbitrary: k) auto

lemma length_be_enc [simp, len_simps]: "length (be_enc n k) = n"
  by (simp add: be_enc_def)

lemma le_dec_bound: "le_dec bs < 256 ^ length bs"
proof (induction bs)
  case (Cons b bs)
  have "unat b < 256" using unsigned_less [of b] by simp
  with Cons show ?case by simp
qed simp

lemma le_dec_enc: "le_dec (le_enc n k) = k mod 256 ^ n"
proof (induction n arbitrary: k)
  case (Suc n)
  have "unat (of_nat k :: byte) = k mod 256"
    by (simp add: unat_of_nat)
  then show ?case
    using Suc [of "k div 256"] mod_mult2_eq [of k 256 "256 ^ n"] by simp
qed simp

lemma le_enc_dec: "length bs = n \<Longrightarrow> le_enc n (le_dec bs) = bs"
proof (induction n arbitrary: bs)
  case (Suc n)
  then obtain b cs where bs: "bs = b # cs" "length cs = n"
    by (cases bs) auto
  have "unat b < 256" using unsigned_less [of b] by simp
  then have "(unat b + 256 * le_dec cs) div 256 = le_dec cs"
    by simp
  moreover have "(of_nat (unat b + 256 * le_dec cs) :: byte) = b"
  proof -
    have "unat (of_nat (unat b + 256 * le_dec cs) :: byte) = (unat b + 256 * le_dec cs) mod 256"
      by (simp only: unat_of_nat) simp
    also have "\<dots> = unat b" using \<open>unat b < 256\<close> by simp
    finally show ?thesis by (rule word_unat_eq_iff [THEN iffD2])
  qed
  ultimately show ?case using Suc.IH bs by simp
qed simp

lemma le_dec_enc_id: "k < 256 ^ n \<Longrightarrow> le_dec (le_enc n k) = k"
  by (simp add: le_dec_enc)

lemma be_dec_enc_id: "k < 256 ^ n \<Longrightarrow> be_dec (be_enc n k) = k"
  by (simp add: be_dec_def be_enc_def le_dec_enc_id)

lemma be_enc_dec: "length bs = n \<Longrightarrow> be_enc n (be_dec bs) = bs"
  by (simp add: be_dec_def be_enc_def le_enc_dec)

lemma le_enc_inj: "k < 256 ^ n \<Longrightarrow> l < 256 ^ n \<Longrightarrow> le_enc n k = le_enc n l \<longleftrightarrow> k = l"
  by (metis le_dec_enc_id)

definition u16_le :: "u16 \<Rightarrow> bytes" where "u16_le w = le_enc 2 (unat w)"
definition u32_le :: "u32 \<Rightarrow> bytes" where "u32_le w = le_enc 4 (unat w)"
definition u64_le :: "u64 \<Rightarrow> bytes" where "u64_le w = le_enc 8 (unat w)"
definition u16_be :: "u16 \<Rightarrow> bytes" where "u16_be w = be_enc 2 (unat w)"
definition u32_be :: "u32 \<Rightarrow> bytes" where "u32_be w = be_enc 4 (unat w)"
definition u64_be :: "u64 \<Rightarrow> bytes" where "u64_be w = be_enc 8 (unat w)"

definition u16_of_le :: "bytes \<Rightarrow> u16" where "u16_of_le bs = of_nat (le_dec bs)"
definition u32_of_le :: "bytes \<Rightarrow> u32" where "u32_of_le bs = of_nat (le_dec bs)"
definition u64_of_le :: "bytes \<Rightarrow> u64" where "u64_of_le bs = of_nat (le_dec bs)"
definition u16_of_be :: "bytes \<Rightarrow> u16" where "u16_of_be bs = of_nat (be_dec bs)"
definition u32_of_be :: "bytes \<Rightarrow> u32" where "u32_of_be bs = of_nat (be_dec bs)"
definition u64_of_be :: "bytes \<Rightarrow> u64" where "u64_of_be bs = of_nat (be_dec bs)"

lemmas int_codec_defs = u16_le_def u32_le_def u64_le_def u16_be_def u32_be_def u64_be_def
  u16_of_le_def u32_of_le_def u64_of_le_def u16_of_be_def u32_of_be_def u64_of_be_def

lemma length_int_codec [simp, len_simps]:
  "length (u16_le a) = 2" "length (u32_le b) = 4" "length (u64_le c) = 8"
  "length (u16_be a) = 2" "length (u32_be b) = 4" "length (u64_be c) = 8"
  by (simp_all add: int_codec_defs)

lemma unat_bound16: "unat (w :: u16) < 256 ^ 2" using unsigned_less [of w] by simp
lemma unat_bound32: "unat (w :: u32) < 256 ^ 4" using unsigned_less [of w] by simp
lemma unat_bound64: "unat (w :: u64) < 256 ^ 8" using unsigned_less [of w] by simp

lemma of_nat_unat_id: "of_nat (unat w) = (w :: 'a::len word)"
  by simp

lemma int_codec_roundtrip [simp, codec_simps]:
  "u16_of_le (u16_le a) = a" "u32_of_le (u32_le b) = b" "u64_of_le (u64_le c) = c"
  "u16_of_be (u16_be a) = a" "u32_of_be (u32_be b) = b" "u64_of_be (u64_be c) = c"
  unfolding int_codec_defs
  using unat_bound16 [of a] unat_bound32 [of b] unat_bound64 [of c]
  by (simp_all only: le_dec_enc_id be_dec_enc_id of_nat_unat_id)

lemma int_codec_inj [simp]:
  "u16_le a = u16_le a' \<longleftrightarrow> a = a'" "u32_le b = u32_le b' \<longleftrightarrow> b = b'"
  "u64_le c = u64_le c' \<longleftrightarrow> c = c'" "u16_be a = u16_be a' \<longleftrightarrow> a = a'"
  "u32_be b = u32_be b' \<longleftrightarrow> b = b'" "u64_be c = u64_be c' \<longleftrightarrow> c = c'"
  by (metis int_codec_roundtrip)+

lemma unat_u32_of_le_bound: "length bs = 4 \<Longrightarrow> unat (u32_of_le bs) = le_dec bs"
  using le_dec_bound [of bs] by (simp add: u32_of_le_def unat_of_nat)

section \<open>Eagle time values\<close>

text \<open>The \<open>EtType\<close> of the vsf crate, and \<open>et_to_osc\<close> of fleet.rs. The casts of the narrower and wider
  forms to \<open>i64\<close> keep the value modulo \<open>2 ^ 64\<close>.\<close>

datatype et_type = E5 int | E6 i64 | E7 int | EFloat

fun et_to_osc :: "et_type \<Rightarrow> i64" where
  "et_to_osc (E5 o') = word_of_int o'"
| "et_to_osc (E6 o') = o'"
| "et_to_osc (E7 o') = word_of_int o'"
| "et_to_osc EFloat = 0"

section \<open>Length framing\<close>

text \<open>\<open>frame_into\<close> / \<open>frame_hash\<close> of fleet.rs: \<open>u32 LE length \<parallel> bytes\<close>, the length cast with
  \<open>as u32\<close> (truncating).\<close>

definition frame :: "bytes \<Rightarrow> bytes" where
  "frame bs = u32_le (of_nat (length bs)) @ bs"

lemma length_frame [simp, len_simps]: "length (frame bs) = 4 + length bs"
  by (simp add: frame_def)

text \<open>Framing makes concatenation uniquely decodable.\<close>

lemma frame_append_inj:
  assumes "length a < 2 ^ 32" "length b < 2 ^ 32" "frame a @ r = frame b @ s"
  shows "a = b \<and> r = s"
proof -
  have "u32_le (of_nat (length a)) = u32_le (of_nat (length b))" and ab: "a @ r = b @ s"
    using assms(3) unfolding frame_def by (auto simp: append_eq_append_conv)
  then have "(of_nat (length a) :: u32) = of_nat (length b)" by simp
  then have "unat (of_nat (length a) :: u32) = unat (of_nat (length b) :: u32)" by simp
  then have "length a = length b" using assms(1,2) by (simp add: unat_of_nat)
  with ab show ?thesis by (simp add: append_eq_append_conv)
qed

lemma append_inj_len: "length a = length b \<Longrightarrow> a @ r = b @ s \<longleftrightarrow> a = b \<and> r = s"
  by (simp add: append_eq_append_conv)

section \<open>The loop that stops at the first error\<close>

fun fold_steps :: "(nat \<Rightarrow> 'a \<Rightarrow> 's \<Rightarrow> 'e + 's) \<Rightarrow> nat \<Rightarrow> 's \<Rightarrow> 'a list \<Rightarrow> 'e + 's" where
  "fold_steps step i s [] = Inr s"
| "fold_steps step i s (x # xs) =
     (case step i x s of Inl e \<Rightarrow> Inl e | Inr s' \<Rightarrow> fold_steps step (Suc i) s' xs)"

lemma fold_steps_append:
  "fold_steps step i s (xs @ ys) =
     (case fold_steps step i s xs of Inl e \<Rightarrow> Inl e
      | Inr s' \<Rightarrow> fold_steps step (i + length xs) s' ys)"
  by (induction xs arbitrary: i s) (auto split: sum.splits)

lemma fold_steps_snoc:
  "fold_steps step i s (xs @ [x]) =
     (case fold_steps step i s xs of Inl e \<Rightarrow> Inl e | Inr s' \<Rightarrow> step (i + length xs) x s')"
  by (auto simp: fold_steps_append split: sum.splits)

text \<open>The contract between a loop body and its invariant, and what follows for the loop.\<close>

locale step_invariant =
  fixes step :: "nat \<Rightarrow> 'a \<Rightarrow> 's \<Rightarrow> 'e + 's"
    and inv :: "'s \<Rightarrow> bool"
  assumes step_keeps: "inv s \<Longrightarrow> step i x s = Inr s' \<Longrightarrow> inv s'"
begin

lemma run_keeps: "inv s \<Longrightarrow> fold_steps step i s xs = Inr s' \<Longrightarrow> inv s'"
  by (induction xs arbitrary: i s) (auto split: sum.splits dest: step_keeps)

end

text \<open>The same for a relation between the state before and the state after that is reflexive and
  transitive (a quantity that only grows, a record that is only appended to).\<close>

locale step_monotone =
  fixes step :: "nat \<Rightarrow> 'a \<Rightarrow> 's \<Rightarrow> 'e + 's"
    and le :: "'s \<Rightarrow> 's \<Rightarrow> bool"
  assumes le_refl: "le s s"
    and le_trans: "le s t \<Longrightarrow> le t u \<Longrightarrow> le s u"
    and step_grows: "step i x s = Inr s' \<Longrightarrow> le s s'"
begin

lemma run_grows: "fold_steps step i s xs = Inr s' \<Longrightarrow> le s s'"
  by (induction xs arbitrary: i s) (auto split: sum.splits intro: le_refl le_trans dest: step_grows)

end

section \<open>Decoders that return what they leave\<close>

text \<open>A counted run of elements, the loop \<open>for _ in 0..count\<close> over a cursor.\<close>

fun read_run :: "(bytes \<Rightarrow> 'e + 'a \<times> bytes) \<Rightarrow> nat \<Rightarrow> bytes \<Rightarrow> 'e + 'a list \<times> bytes" where
  "read_run dec 0 bs = Inr ([], bs)"
| "read_run dec (Suc n) bs =
     (case dec bs of Inl e \<Rightarrow> Inl e
      | Inr (x, rest) \<Rightarrow>
          (case read_run dec n rest of Inl e \<Rightarrow> Inl e
           | Inr (xs, rest') \<Rightarrow> Inr (x # xs, rest')))"

locale codec =
  fixes enc :: "'a \<Rightarrow> bytes"
    and dec :: "bytes \<Rightarrow> 'e + 'a \<times> bytes"
    and ok :: "'a \<Rightarrow> bool"
  assumes dec_enc: "ok x \<Longrightarrow> dec (enc x @ r) = Inr (x, r)"
begin

lemma read_run_enc:
  "list_all ok xs \<Longrightarrow> read_run dec (length xs) (concat (map enc xs) @ r) = Inr (xs, r)"
  by (induction xs) (auto simp: dec_enc)

lemma enc_append_inj: "ok x \<Longrightarrow> ok y \<Longrightarrow> enc x @ r = enc y @ s \<Longrightarrow> x = y \<and> r = s"
  by (metis dec_enc prod.inject sum.inject(2))

lemma run_append_inj:
  assumes "list_all ok xs" "list_all ok ys" "length xs = length ys"
    and "concat (map enc xs) @ r = concat (map enc ys) @ s"
  shows "xs = ys \<and> r = s"
proof -
  have "(Inr (xs, r) :: 'e + _) = Inr (ys, s)"
    unfolding read_run_enc [OF assms(1), of r, symmetric] read_run_enc [OF assms(2), of s, symmetric]
    by (simp only: assms(3,4))
  then show ?thesis by simp
qed

end

section \<open>Bitmasks\<close>

definition covers :: "u16 \<Rightarrow> u16 \<Rightarrow> bool" where
  "covers m required \<longleftrightarrow> m AND required = required"

lemma covers_bits: "covers m r \<longleftrightarrow> (\<forall>n. bit r n \<longrightarrow> bit m n)"
proof -
  have "bit r n \<Longrightarrow> n < 16" for n
    using bit_imp_le_length [of r n] by simp
  then show ?thesis
    unfolding covers_def by (simp add: bit_eq_iff bit_and_iff) blast
qed

lemma covers_refl [simp, intro]: "covers m m"
  by (simp add: covers_bits)

lemma covers_trans [trans]: "covers a b \<Longrightarrow> covers b c \<Longrightarrow> covers a c"
  by (auto simp: covers_bits)

lemma covers_antisym: "covers a b \<Longrightarrow> covers b a \<Longrightarrow> a = b"
  by (auto simp: covers_bits bit_eq_iff)

lemma covers_or [simp]: "covers (a OR b) r \<longleftrightarrow> (\<forall>n. bit r n \<longrightarrow> bit a n \<or> bit b n)"
  by (simp add: covers_bits bit_or_iff)

lemma covers_or_left [intro]: "covers a r \<Longrightarrow> covers (a OR b) r"
  by (auto simp: covers_bits bit_or_iff)

lemma covers_of_or: "covers m (a OR b) \<longleftrightarrow> covers m a \<and> covers m b"
  by (auto simp: covers_bits bit_or_iff)

lemma covers_and: "covers (a AND b) r \<longleftrightarrow> covers a r \<and> covers b r"
  by (auto simp: covers_bits bit_and_iff)

section \<open>Small list facts\<close>

lemma map_of_append_first:
  "map_of xs k = Some v \<Longrightarrow> map_of (xs @ ys) k = Some v"
  by (simp add: map_add_def)

lemma map_of_snoc:
  "map_of (xs @ [(k, v)]) l = (case map_of xs l of None \<Rightarrow> if l = k then Some v else None | Some w \<Rightarrow> Some w)"
  by (auto simp: map_add_def split: option.splits)

lemma filter_neq_id: "k \<notin> set xs \<Longrightarrow> filter (\<lambda>x. x \<noteq> k) xs = xs"
  by (induction xs) auto

lemma filter_neq_length_eq: "length (filter (\<lambda>x. x \<noteq> k) xs) = length xs \<longleftrightarrow> k \<notin> set xs"
proof
  assume "length (filter (\<lambda>x. x \<noteq> k) xs) = length xs"
  then show "k \<notin> set xs"
    by (metis (mono_tags, lifting) length_filter_less less_irrefl)
qed (simp add: filter_neq_id)

end
