(* ===== verification/Pq.thy ===== *)
theory Pq
  imports Fgtw_Prelude "HOL-Library.Multiset"
begin

text \<open>
  src/src/pq.rs and src/src/keys.rs: the external primitives the crate calls, key bundles with
  their wire form, egg lists and the two verification rules (strict and declared), the egg slots
  of an envelope, and the signers. Scheme tags, key and signature sizes, the signature schemes,
  BLAKE3 and the egg-list codec belong to other crates: they are the fields of \<open>ext\<close>, the first
  argument of every definition that uses them, and \<open>ext_ok\<close> / \<open>ext_sign_ok\<close> state what the code
  relies on.
\<close>

section \<open>What the crate takes from elsewhere\<close>

text \<open>\<open>vsf::eggs::Egg\<close>.\<close>

record egg =
  egg_scheme :: byte
  egg_sig :: bytes

record ext =
  ED25519 :: byte
  FALCON512 :: byte
  SPHINCS_PLUS :: byte
  falcon_pk_len :: nat
  falcon_sig_len :: nat
  sphincs_pk_len :: nat
  sphincs_sig_len :: nat
  ed_verify :: "bytes \<Rightarrow> bytes \<Rightarrow> bytes \<Rightarrow> bool"
  falcon_verify :: "bytes \<Rightarrow> bytes \<Rightarrow> bytes \<Rightarrow> bool"
  sphincs_verify :: "bytes \<Rightarrow> bytes \<Rightarrow> bytes \<Rightarrow> bool"
  ed_public :: "bytes \<Rightarrow> bytes"
  ed_sign :: "bytes \<Rightarrow> bytes \<Rightarrow> bytes"
  falcon_keygen :: "bytes \<Rightarrow> bytes \<times> bytes"
  falcon_sign :: "bytes \<Rightarrow> bytes \<Rightarrow> bytes \<Rightarrow> bytes"
  sphincs_keygen :: "bytes \<Rightarrow> bytes \<times> bytes"
  sphincs_sign :: "bytes \<Rightarrow> bytes \<Rightarrow> bytes \<Rightarrow> bytes"
  blake3 :: "bytes \<Rightarrow> bytes"
  blake3_derive :: "string \<Rightarrow> bytes \<Rightarrow> bytes"
  blake3_keyed :: "bytes \<Rightarrow> bytes \<Rightarrow> bytes"
  eggs_to_bytes :: "egg list \<Rightarrow> bytes"
  eggs_from_bytes :: "bytes \<Rightarrow> egg list option"
  osc_per_sec :: nat

definition wf_eggs :: "egg list \<Rightarrow> bool" where
  "wf_eggs es \<longleftrightarrow> length es < 256 \<and> (\<forall>e \<in> set es. length (egg_sig e) < 65536)"

definition ext_ok :: "ext \<Rightarrow> bool" where
  "ext_ok W \<longleftrightarrow>
     distinct [ED25519 W, FALCON512 W, SPHINCS_PLUS W] \<and>
     unat (ED25519 W) < 16 \<and> unat (FALCON512 W) < 16 \<and> unat (SPHINCS_PLUS W) < 16 \<and>
     falcon_pk_len W < 65536 \<and> sphincs_pk_len W < 65536 \<and>
     (\<forall>x. length (blake3 W x) = 32) \<and>
     (\<forall>d x. length (blake3_derive W d x) = 32) \<and>
     (\<forall>k x. length (blake3_keyed W k x) = 32) \<and>
     (\<forall>es. wf_eggs es \<longrightarrow> eggs_from_bytes W (eggs_to_bytes W es) = Some es) \<and>
     (\<forall>es. wf_eggs es \<longrightarrow> length (eggs_to_bytes W es) < 2 ^ 32)"

definition ext_sign_ok :: "ext \<Rightarrow> bool" where
  "ext_sign_ok W \<longleftrightarrow>
     (\<forall>s. length (ed_public W s) = 32) \<and>
     (\<forall>s m. length (ed_sign W s m) = 64) \<and>
     (\<forall>s m. ed_verify W (ed_public W s) m (ed_sign W s m)) \<and>
     (\<forall>r. length (snd (falcon_keygen W r)) = falcon_pk_len W) \<and>
     (\<forall>r n m. falcon_verify W (snd (falcon_keygen W r)) m (falcon_sign W n (fst (falcon_keygen W r)) m)) \<and>
     (\<forall>r. length (snd (sphincs_keygen W r)) = sphincs_pk_len W) \<and> sphincs_pk_len W = 32 \<and>
     (\<forall>r n m. length (sphincs_sign W n (fst (sphincs_keygen W r)) m) = sphincs_sig_len W) \<and>
     (\<forall>r n m. sphincs_verify W (snd (sphincs_keygen W r)) m (sphincs_sign W n (fst (sphincs_keygen W r)) m))"

section \<open>Schemes and masks (fleet.rs, \<open>mod scheme\<close>)\<close>

definition scheme_bit :: "byte \<Rightarrow> u16" where
  "scheme_bit s = push_bit (unat s) 1"

definition MASK_BASE :: "ext \<Rightarrow> u16" where
  "MASK_BASE W = scheme_bit (ED25519 W)"

definition MASK_ALL :: "ext \<Rightarrow> u16" where
  "MASK_ALL W = scheme_bit (ED25519 W) OR scheme_bit (FALCON512 W) OR scheme_bit (SPHINCS_PLUS W)"

definition MASK_KNOWN :: "ext \<Rightarrow> u16" where
  "MASK_KNOWN W = MASK_ALL W"

lemma bit_scheme_bit: "bit (scheme_bit s) n \<longleftrightarrow> n = unat s \<and> n < 16"
  unfolding scheme_bit_def push_bit_of_1 bit_exp_iff by auto

lemma covers_all_base [simp]: "covers (MASK_ALL W) (MASK_BASE W)"
  by (auto simp: covers_bits MASK_ALL_def MASK_BASE_def bit_or_iff)

lemma covers_scheme_bit: "unat s < 16 \<Longrightarrow> covers m (scheme_bit s) \<longleftrightarrow> bit m (unat s)"
  by (auto simp: covers_bits bit_scheme_bit)

section \<open>Key bundles\<close>

text \<open>The \<open>&'static str\<close> errors of \<open>KeyBundle::new\<close> and \<open>KeyBundle::from_bytes\<close>.\<close>

datatype bundle_error =
    DuplicateScheme | WrongKeyLength | UnknownScheme | MissingEd25519
  | BundleEmpty | TruncatedEntry | TruncatedKey | TrailingBytes

record key_bundle =
  bundle_keys :: "(byte \<times> bytes) list"

definition pubkey_len :: "ext \<Rightarrow> byte \<Rightarrow> nat option" where
  "pubkey_len W s =
     (if s = ED25519 W then Some 32
      else if s = FALCON512 W then Some (falcon_pk_len W)
      else if s = SPHINCS_PLUS W then Some (sphincs_pk_len W)
      else None)"

fun adjacent_dup :: "(byte \<times> bytes) list \<Rightarrow> bool" where
  "adjacent_dup ((s, k) # (t, l) # xs) \<longleftrightarrow> s = t \<or> adjacent_dup ((t, l) # xs)"
| "adjacent_dup _ \<longleftrightarrow> False"

fun check_keys :: "ext \<Rightarrow> (byte \<times> bytes) list \<Rightarrow> bundle_error option" where
  "check_keys W [] = None"
| "check_keys W ((s, k) # xs) =
     (case pubkey_len W s of
        Some n \<Rightarrow> if n = length k then check_keys W xs else Some WrongKeyLength
      | None \<Rightarrow> Some UnknownScheme)"

definition bundle_new :: "ext \<Rightarrow> (byte \<times> bytes) list \<Rightarrow> bundle_error + key_bundle" where
  "bundle_new W ks =
     (let keys = sort_key fst ks in
      if adjacent_dup keys then Inl DuplicateScheme
      else case check_keys W keys of Some e \<Rightarrow> Inl e
      | None \<Rightarrow>
          if \<not> list_ex (\<lambda>(s, k). s = ED25519 W) keys then Inl MissingEd25519
          else Inr \<lparr>bundle_keys = keys\<rparr>)"

definition ed25519_only :: "ext \<Rightarrow> bytes \<Rightarrow> key_bundle" where
  "ed25519_only W device = \<lparr>bundle_keys = [(ED25519 W, device)]\<rparr>"

definition pubkey :: "key_bundle \<Rightarrow> byte \<Rightarrow> bytes option" where
  "pubkey b s = map_of (bundle_keys b) s"

definition bundle_mask :: "key_bundle \<Rightarrow> u16" where
  "bundle_mask b = foldl (\<lambda>m (s, k). m OR scheme_bit s) 0 (bundle_keys b)"

definition bundle_ed25519 :: "ext \<Rightarrow> key_bundle \<Rightarrow> bytes" where
  "bundle_ed25519 W b = (case pubkey b (ED25519 W) of Some k \<Rightarrow> k | None \<Rightarrow> zero32)"

definition key_to_bytes :: "byte \<times> bytes \<Rightarrow> bytes" where
  "key_to_bytes p = (case p of (s, k) \<Rightarrow> s # u16_le (of_nat (length k)) @ k)"

definition bundle_to_bytes :: "key_bundle \<Rightarrow> bytes" where
  "bundle_to_bytes b = of_nat (length (bundle_keys b)) # concat (map key_to_bytes (bundle_keys b))"

definition bundle_commit :: "ext \<Rightarrow> key_bundle \<Rightarrow> bytes" where
  "bundle_commit W b = blake3_derive W ''PHOTON_KEY_BUNDLE_v1'' (bundle_to_bytes b)"

text \<open>One iteration of the loop of \<open>KeyBundle::from_bytes\<close>.\<close>

definition read_key :: "bytes \<Rightarrow> bundle_error + (byte \<times> bytes) \<times> bytes" where
  "read_key rest =
     (if length rest < 3 then Inl TruncatedEntry
      else let s = rest ! 0; n = unat (u16_of_le [rest ! 1, rest ! 2]); rest' = drop 3 rest in
        if length rest' < n then Inl TruncatedKey
        else Inr ((s, take n rest'), drop n rest'))"

definition bundle_from_bytes :: "ext \<Rightarrow> bytes \<Rightarrow> bundle_error + key_bundle" where
  "bundle_from_bytes W bs =
     (case bs of [] \<Rightarrow> Inl BundleEmpty
      | cnt # rest \<Rightarrow>
          (case read_run read_key (unat cnt) rest of Inl e \<Rightarrow> Inl e
           | Inr (keys, rest') \<Rightarrow> if rest' \<noteq> [] then Inl TrailingBytes else bundle_new W keys))"

text \<open>The texts of the bundle errors.\<close>

fun bundle_error_text :: "bundle_error \<Rightarrow> string" where
  "bundle_error_text DuplicateScheme = ''key bundle: duplicate scheme''"
| "bundle_error_text WrongKeyLength = ''key bundle: wrong key length for scheme''"
| "bundle_error_text UnknownScheme = ''key bundle: unknown scheme''"
| "bundle_error_text MissingEd25519 =
     ''key bundle: missing Ed25519 '' @ [CHR 0xE2, CHR 0x80, CHR 0x94] @ '' every device holds one''"
| "bundle_error_text BundleEmpty = ''key bundle: empty''"
| "bundle_error_text TruncatedEntry = ''key bundle: truncated entry''"
| "bundle_error_text TruncatedKey = ''key bundle: truncated key''"
| "bundle_error_text TrailingBytes = ''key bundle: trailing bytes''"

text \<open>What \<open>new\<close> guarantees of every bundle it returns.\<close>

definition wf_bundle :: "ext \<Rightarrow> key_bundle \<Rightarrow> bool" where
  "wf_bundle W b \<longleftrightarrow>
     sorted (map fst (bundle_keys b)) \<and> distinct (map fst (bundle_keys b)) \<and>
     (\<forall>(s, k) \<in> set (bundle_keys b). pubkey_len W s = Some (length k)) \<and>
     ED25519 W \<in> fst ` set (bundle_keys b)"

lemma check_keys_None:
  "check_keys W ks = None \<longleftrightarrow> (\<forall>(s, k) \<in> set ks. pubkey_len W s = Some (length k))"
  by (induction W ks rule: check_keys.induct) (auto split: option.splits if_splits)

lemma adjacent_dup_sorted:
  "sorted (map fst ks) \<Longrightarrow> \<not> adjacent_dup ks \<Longrightarrow> distinct (map fst ks)"
proof (induction ks rule: adjacent_dup.induct)
  case (1 s k t l xs)
  then have d: "distinct (map fst ((t, l) # xs))" and "s \<noteq> t" "s \<le> t" by auto
  moreover have "\<forall>u \<in> fst ` set xs. t \<le> u" using "1.prems" by auto
  ultimately show ?case by (auto dest: antisym)
qed auto

lemma distinct_not_adjacent_dup: "distinct (map fst ks) \<Longrightarrow> \<not> adjacent_dup ks"
  by (induction ks rule: adjacent_dup.induct) auto

lemma bundle_new_wf: "bundle_new W ks = Inr b \<Longrightarrow> wf_bundle W b"
  unfolding bundle_new_def wf_bundle_def Let_def
  by (auto simp: check_keys_None list_ex_iff image_iff split: if_splits option.splits
      intro: adjacent_dup_sorted)
    (force simp: list_ex_iff)?

lemma bundle_new_of_wf: "wf_bundle W b \<Longrightarrow> bundle_new W (bundle_keys b) = Inr b"
proof -
  assume wf: "wf_bundle W b"
  then have "sort_key fst (bundle_keys b) = bundle_keys b"
    unfolding wf_bundle_def by (intro sort_key_id_if_sorted) blast
  moreover have "check_keys W (bundle_keys b) = None"
    using wf by (simp add: wf_bundle_def check_keys_None)
  moreover have "list_ex (\<lambda>(s, k). s = ED25519 W) (bundle_keys b)"
    using wf by (force simp: wf_bundle_def list_ex_iff)
  ultimately show ?thesis
    using wf by (simp add: bundle_new_def wf_bundle_def distinct_not_adjacent_dup)
qed

subsection \<open>The wire form of a bundle\<close>

definition key_ok :: "byte \<times> bytes \<Rightarrow> bool" where
  "key_ok p \<longleftrightarrow> length (snd p) < 65536"

interpretation key_codec: codec key_to_bytes read_key key_ok
proof
  fix x :: "byte \<times> bytes" and r
  assume ok: "key_ok x"
  obtain s k where x: "x = (s, k)" by (cases x)
  have len: "length (u16_le (of_nat (length k))) = 2" by simp
  then obtain a b where ab: "u16_le (of_nat (length k)) = [a, b]"
    by (cases "u16_le (of_nat (length k))" rule: list.exhaust)
      (auto simp: length_Suc_conv numeral_2_eq_2)
  have "u16_of_le [a, b] = of_nat (length k)" unfolding ab [symmetric] by simp
  then have n: "unat (u16_of_le [a, b]) = length k"
    using ok x by (simp add: key_ok_def unat_of_nat)
  show "read_key (key_to_bytes x @ r) = Inr (x, r)"
    by (simp add: x key_to_bytes_def read_key_def ab n)
qed

lemma wf_bundle_keys_ok:
  assumes "ext_ok W" "wf_bundle W b"
  shows "list_all key_ok (bundle_keys b)"
proof -
  have "length k < 65536" if "(s, k) \<in> set (bundle_keys b)" for s k
  proof -
    from that assms(2) have "pubkey_len W s = Some (length k)" by (auto simp: wf_bundle_def)
    with assms(1) show ?thesis by (auto simp: pubkey_len_def ext_ok_def split: if_splits)
  qed
  then show ?thesis by (auto simp: list_all_iff key_ok_def)
qed

lemma wf_bundle_tags:
  assumes "wf_bundle W b" "(s, k) \<in> set (bundle_keys b)"
  shows "s \<in> {ED25519 W, FALCON512 W, SPHINCS_PLUS W}"
  using assms by (force simp: wf_bundle_def pubkey_len_def split: if_splits)

lemma wf_bundle_length: "wf_bundle W b \<Longrightarrow> length (bundle_keys b) \<le> 3"
proof -
  assume wf: "wf_bundle W b"
  then have "set (map fst (bundle_keys b)) \<subseteq> {ED25519 W, FALCON512 W, SPHINCS_PLUS W}"
    using wf_bundle_tags [OF wf] by fastforce
  then have "card (set (map fst (bundle_keys b))) \<le> card {ED25519 W, FALCON512 W, SPHINCS_PLUS W}"
    by (intro card_mono) auto
  also have "\<dots> \<le> 3" by (simp add: card_insert_if)
  finally show ?thesis using wf distinct_card [of "map fst (bundle_keys b)"]
    by (simp add: wf_bundle_def)
qed

lemma unat_of_nat_byte: "n < 256 \<Longrightarrow> unat (of_nat n :: byte) = n"
  by (simp add: unat_of_nat)

lemma bundle_roundtrip:
  assumes "ext_ok W" "wf_bundle W b"
  shows "bundle_from_bytes W (bundle_to_bytes b) = Inr b"
proof -
  have "unat (of_nat (length (bundle_keys b)) :: byte) = length (bundle_keys b)"
    using wf_bundle_length [OF assms(2)] by (intro unat_of_nat_byte) simp
  then show ?thesis
    using key_codec.read_run_enc [OF wf_bundle_keys_ok [OF assms], of "[]"]
    by (simp add: bundle_from_bytes_def bundle_to_bytes_def bundle_new_of_wf [OF assms(2)])
qed

lemma bundle_from_bytes_wf: "bundle_from_bytes W bs = Inr b \<Longrightarrow> wf_bundle W b"
  by (auto simp: bundle_from_bytes_def bundle_new_wf split: list.splits sum.splits if_splits)

lemma bundle_to_bytes_inj:
  "ext_ok W \<Longrightarrow> wf_bundle W a \<Longrightarrow> wf_bundle W b \<Longrightarrow> bundle_to_bytes a = bundle_to_bytes b \<Longrightarrow> a = b"
  by (metis bundle_roundtrip sum.inject(2))

lemma bundle_to_bytes_nonempty [simp]: "bundle_to_bytes b \<noteq> []" "[] \<noteq> bundle_to_bytes b"
  by (simp_all add: bundle_to_bytes_def)

text \<open>Sorting makes the order of the constructor's argument irrelevant.\<close>

lemma sort_key_distinct_unique:
  fixes xs ys :: "('k::linorder \<times> 'v) list"
  assumes "mset xs = mset ys" "distinct (map fst xs)"
  shows "sort_key fst xs = sort_key fst ys"
proof (rule sort_key_inj_key_eq)
  show "mset xs = mset (sort_key fst ys)" using assms(1) by simp
  show "inj_on fst (set xs)" using assms(2) by (simp add: distinct_map)
qed simp

lemma mset_distinct_fst: "mset xs = mset ys \<Longrightarrow> distinct (map fst xs) \<longleftrightarrow> distinct (map fst ys)"
  by (rule mset_eq_imp_distinct_iff) simp

lemma adjacent_dup_sort_iff:
  "adjacent_dup (sort_key fst ks) \<longleftrightarrow> \<not> distinct (map fst ks)"
proof -
  have "distinct (map fst (sort_key fst ks)) \<longleftrightarrow> distinct (map fst ks)"
    by (intro mset_distinct_fst) simp
  then show ?thesis
    using adjacent_dup_sorted [of "sort_key fst ks"] distinct_not_adjacent_dup [of "sort_key fst ks"]
    by auto
qed

lemma bundle_new_perm: "mset xs = mset ys \<Longrightarrow> bundle_new W xs = bundle_new W ys"
proof (cases "distinct (map fst xs)")
  case True
  assume "mset xs = mset ys"
  from sort_key_distinct_unique [OF this True] show ?thesis by (simp add: bundle_new_def)
next
  case False
  assume p: "mset xs = mset ys"
  with False have "\<not> distinct (map fst ys)" by (simp add: mset_distinct_fst [OF p])
  with False show ?thesis by (simp add: bundle_new_def Let_def adjacent_dup_sort_iff)
qed

subsection \<open>Masks of bundles\<close>

lemma bit_foldl_scheme:
  "bit (foldl (\<lambda>m (s, k). m OR scheme_bit s) m0 ks) n \<longleftrightarrow>
     bit m0 n \<or> (\<exists>(s, k) \<in> set ks. bit (scheme_bit s) n)"
  by (induction ks arbitrary: m0) (auto simp: bit_or_iff)

lemma bit_bundle_mask:
  "bit (bundle_mask b) n \<longleftrightarrow> n < 16 \<and> (\<exists>s \<in> fst ` set (bundle_keys b). unat s = n)"
  by (force simp: bundle_mask_def bit_foldl_scheme bit_scheme_bit)

lemma bundle_mask_base: "wf_bundle W b \<Longrightarrow> covers (bundle_mask b) (MASK_BASE W)"
  by (auto simp only: covers_bits MASK_BASE_def bit_scheme_bit bit_bundle_mask wf_bundle_def)

lemma bundle_mask_known: "wf_bundle W b \<Longrightarrow> covers (MASK_ALL W) (bundle_mask b)"
  using wf_bundle_tags [of W b]
  by (fastforce simp: covers_bits MASK_ALL_def bit_or_iff bit_scheme_bit bit_bundle_mask)

lemma wf_ed25519_only: "length d = 32 \<Longrightarrow> wf_bundle W (ed25519_only W d)"
  by (simp add: wf_bundle_def ed25519_only_def pubkey_len_def)

lemma bundle_mask_ed25519_only [simp]: "bundle_mask (ed25519_only W d) = MASK_BASE W"
  by (simp add: bundle_mask_def ed25519_only_def MASK_BASE_def)

lemma bundle_ed25519_only [simp]: "bundle_ed25519 W (ed25519_only W d) = d"
  by (simp add: bundle_ed25519_def pubkey_def ed25519_only_def)

section \<open>Egg lists\<close>

definition verify_ed25519 :: "ext \<Rightarrow> bytes \<Rightarrow> bytes \<Rightarrow> bytes \<Rightarrow> bool" where
  "verify_ed25519 W pk msg sig \<longleftrightarrow> length pk = 32 \<and> length sig = 64 \<and> ed_verify W pk msg sig"

definition verify_egg :: "ext \<Rightarrow> byte \<Rightarrow> bytes \<Rightarrow> bytes \<Rightarrow> bytes \<Rightarrow> bool" where
  "verify_egg W s pk msg sig =
     (if s = ED25519 W then verify_ed25519 W pk msg sig
      else if s = FALCON512 W then falcon_verify W pk msg sig
      else if s = SPHINCS_PLUS W then
        length pk = 32 \<and> length sig = sphincs_sig_len W \<and> sphincs_verify W pk msg sig
      else False)"

definition egg_mask :: "egg list \<Rightarrow> u16" where
  "egg_mask es = foldl (\<lambda>m e. if unat (egg_scheme e) < 16 then m OR scheme_bit (egg_scheme e) else m) 0 es"

definition verify_eggs :: "ext \<Rightarrow> egg list \<Rightarrow> key_bundle \<Rightarrow> bytes \<Rightarrow> u16 \<Rightarrow> bool" where
  "verify_eggs W es b msg required \<longleftrightarrow>
     es \<noteq> [] \<and>
     list_all (\<lambda>e. case pubkey b (egg_scheme e) of None \<Rightarrow> False
                    | Some pk \<Rightarrow> verify_egg W (egg_scheme e) pk msg (egg_sig e)) es \<and>
     covers (egg_mask es) required"

text \<open>The loop of \<open>verify_eggs_declared\<close>: an egg the bundle has no key for is skipped.\<close>

fun declared_loop :: "ext \<Rightarrow> key_bundle \<Rightarrow> bytes \<Rightarrow> u16 \<Rightarrow> egg list \<Rightarrow> u16 option" where
  "declared_loop W b msg verified [] = Some verified"
| "declared_loop W b msg verified (e # es) =
     (case pubkey b (egg_scheme e) of
        None \<Rightarrow> declared_loop W b msg verified es
      | Some pk \<Rightarrow>
          if \<not> verify_egg W (egg_scheme e) pk msg (egg_sig e) then None
          else declared_loop W b msg (verified OR scheme_bit (egg_scheme e)) es)"

definition verify_eggs_declared :: "ext \<Rightarrow> egg list \<Rightarrow> key_bundle \<Rightarrow> bytes \<Rightarrow> u16 \<Rightarrow> bool" where
  "verify_eggs_declared W es b msg required =
     (case declared_loop W b msg 0 es of None \<Rightarrow> False
      | Some verified \<Rightarrow> verified \<noteq> 0 \<and> covers verified required)"

lemma bit_foldl_egg:
  "bit (foldl (\<lambda>m e. if unat (egg_scheme e) < 16 then m OR scheme_bit (egg_scheme e) else m) m0 es) n
     \<longleftrightarrow> bit m0 n \<or> (n < 16 \<and> (\<exists>e \<in> set es. unat (egg_scheme e) = n))"
  by (induction es arbitrary: m0) (auto simp: bit_or_iff bit_scheme_bit)

lemma bit_egg_mask: "bit (egg_mask es) n \<longleftrightarrow> n < 16 \<and> (\<exists>e \<in> set es. unat (egg_scheme e) = n)"
  by (simp add: egg_mask_def bit_foldl_egg)

lemma egg_mask_Nil [simp]: "egg_mask [] = 0"
  by (simp add: egg_mask_def)

lemma verify_eggs_nonempty: "verify_eggs W es b msg r \<Longrightarrow> es \<noteq> []"
  by (simp add: verify_eggs_def)

lemma verify_eggs_each:
  "verify_eggs W es b msg r \<Longrightarrow> e \<in> set es \<Longrightarrow>
     \<exists>pk. pubkey b (egg_scheme e) = Some pk \<and> verify_egg W (egg_scheme e) pk msg (egg_sig e)"
  by (auto simp: verify_eggs_def list_all_iff split: option.splits)

lemma verify_eggs_required:
  assumes "verify_eggs W es b msg r" "bit r n"
  shows "\<exists>e pk. e \<in> set es \<and> unat (egg_scheme e) = n \<and> pubkey b (egg_scheme e) = Some pk
           \<and> verify_egg W (egg_scheme e) pk msg (egg_sig e)"
proof -
  have "bit (egg_mask es) n" using assms by (auto simp: verify_eggs_def covers_bits)
  then obtain e where "e \<in> set es" "unat (egg_scheme e) = n" by (auto simp: bit_egg_mask)
  with verify_eggs_each [OF assms(1)] show ?thesis by blast
qed

lemma verify_eggs_mono: "verify_eggs W es b msg r \<Longrightarrow> covers r r' \<Longrightarrow> verify_eggs W es b msg r'"
  by (auto simp: verify_eggs_def dest: covers_trans)

lemma verify_eggs_covers: "verify_eggs W es b msg r \<Longrightarrow> covers (egg_mask es) r"
  by (simp add: verify_eggs_def)

lemma declared_loop_bits:
  "declared_loop W b msg v es = Some v' \<Longrightarrow>
     bit v' n \<longleftrightarrow> bit v n \<or> (n < 16 \<and> (\<exists>e \<in> set es. unat (egg_scheme e) = n \<and>
        (\<exists>pk. pubkey b (egg_scheme e) = Some pk \<and> verify_egg W (egg_scheme e) pk msg (egg_sig e))))"
  by (induction W b msg v es rule: declared_loop.induct)
    (auto simp: bit_or_iff bit_scheme_bit split: option.splits if_splits)

lemma declared_loop_filter:
  "declared_loop W b msg v (filter (\<lambda>e. pubkey b (egg_scheme e) \<noteq> None) es) = declared_loop W b msg v es"
  by (induction W b msg v es rule: declared_loop.induct) (auto split: option.splits)

lemma declared_loop_all:
  "list_all (\<lambda>e. case pubkey b (egg_scheme e) of None \<Rightarrow> False
                    | Some pk \<Rightarrow> verify_egg W (egg_scheme e) pk msg (egg_sig e)) es \<Longrightarrow>
   \<exists>v'. declared_loop W b msg v es = Some v' \<and> (\<forall>n. bit v n \<or> bit (egg_mask es) n \<longleftrightarrow> bit v' n)"
proof -
  assume all: "list_all (\<lambda>e. case pubkey b (egg_scheme e) of None \<Rightarrow> False
                    | Some pk \<Rightarrow> verify_egg W (egg_scheme e) pk msg (egg_sig e)) es"
  then have "\<exists>v'. declared_loop W b msg v es = Some v'"
    by (induction es arbitrary: v) (auto split: option.splits)
  then obtain v' where v': "declared_loop W b msg v es = Some v'" by blast
  have "bit v n \<or> bit (egg_mask es) n \<longleftrightarrow> bit v' n" for n
    using all unfolding declared_loop_bits [OF v'] bit_egg_mask
    by (fastforce simp: list_all_iff split: option.splits)
  with v' show ?thesis by blast
qed

section \<open>Envelopes\<close>

definition ENVELOPE_TIER :: "ext \<Rightarrow> u16" where
  "ENVELOPE_TIER W = MASK_BASE W OR scheme_bit (FALCON512 W)"

definition sig_len :: "ext \<Rightarrow> byte \<Rightarrow> nat option" where
  "sig_len W s =
     (if s = ED25519 W then Some 64
      else if s = FALCON512 W then Some (falcon_sig_len W)
      else if s = SPHINCS_PLUS W then Some (sphincs_sig_len W)
      else None)"

definition reserve_eggs :: "ext \<Rightarrow> u16 \<Rightarrow> (byte \<times> nat) list" where
  "reserve_eggs W m =
     List.map_filter (\<lambda>s. case sig_len W s of None \<Rightarrow> None | Some n \<Rightarrow> Some (s, n))
       (filter (\<lambda>s. m AND scheme_bit s \<noteq> 0) (map of_nat [0..<16]))"

section \<open>Signers (trait \<open>FleetSigner\<close>)\<close>

text \<open>The trait's three methods: the Ed25519 public key of \<open>keypair()\<close>, \<open>eggs\<close> and \<open>bundle\<close>.\<close>

record signer =
  sg_public :: bytes
  sg_eggs :: "bytes \<Rightarrow> u16 \<Rightarrow> egg list"
  sg_bundle :: "key_bundle option"

definition envelope_mask :: "ext \<Rightarrow> signer \<Rightarrow> u16" where
  "envelope_mask W s =
     (case sg_bundle s of Some b \<Rightarrow> bundle_mask b | None \<Rightarrow> MASK_BASE W) AND ENVELOPE_TIER W"

text \<open>keys.rs: \<open>Keypair::from_seed\<close> and \<open>derive_device_keypair\<close>. A key pair is its 32-byte seed.\<close>

definition derive_device_keypair :: "ext \<Rightarrow> bytes \<Rightarrow> bytes" where
  "derive_device_keypair W fingerprint = blake3 W fingerprint"

definition keypair_signer :: "ext \<Rightarrow> bytes \<Rightarrow> signer" where
  "keypair_signer W seed = \<lparr>
     sg_public = ed_public W seed,
     sg_eggs = (\<lambda>msg schemes. [\<lparr>egg_scheme = ED25519 W, egg_sig = ed_sign W seed msg\<rparr>]),
     sg_bundle = None\<rparr>"

record signing_bundle =
  sb_ed :: bytes
  sb_falcon_sk :: bytes
  sb_falcon_vk :: bytes
  sb_sphincs_sk :: bytes
  sb_sphincs_pk :: bytes

definition signing_derive :: "ext \<Rightarrow> bytes \<Rightarrow> signing_bundle" where
  "signing_derive W fingerprint =
     (let f = falcon_keygen W (blake3_derive W ''PHOTON_DEVICE_FALCON512_v1'' fingerprint);
          h = sphincs_keygen W (blake3_derive W ''PHOTON_DEVICE_SPHINCS_PLUS_v1'' fingerprint)
      in \<lparr>sb_ed = derive_device_keypair W fingerprint,
          sb_falcon_sk = fst f, sb_falcon_vk = snd f,
          sb_sphincs_sk = fst h, sb_sphincs_pk = snd h\<rparr>)"

text \<open>\<open>public()\<close> ends in \<open>expect\<close>: the model keeps the constructor's result, and
  \<open>signing_public_ok\<close> below shows the panic is never reached.\<close>

definition signing_public :: "ext \<Rightarrow> signing_bundle \<Rightarrow> bundle_error + key_bundle" where
  "signing_public W k = bundle_new W
     [(ED25519 W, ed_public W (sb_ed k)), (FALCON512 W, sb_falcon_vk k), (SPHINCS_PLUS W, sb_sphincs_pk k)]"

definition signing_eggs :: "ext \<Rightarrow> signing_bundle \<Rightarrow> bytes \<Rightarrow> u16 \<Rightarrow> egg list" where
  "signing_eggs W k msg schemes =
     [\<lparr>egg_scheme = ED25519 W, egg_sig = ed_sign W (sb_ed k) msg\<rparr>]
     @ (if covers schemes (scheme_bit (FALCON512 W))
        then [\<lparr>egg_scheme = FALCON512 W,
               egg_sig = falcon_sign W (blake3_derive W ''PHOTON_FALCON512_SIGN_NONCE_v1'' (sb_falcon_sk k @ msg))
                           (sb_falcon_sk k) msg\<rparr>] else [])
     @ (if covers schemes (scheme_bit (SPHINCS_PLUS W))
        then [\<lparr>egg_scheme = SPHINCS_PLUS W,
               egg_sig = sphincs_sign W (blake3_derive W ''PHOTON_SPHINCS_PLUS_SIGN_NONCE_v1'' (sb_sphincs_sk k @ msg))
                           (sb_sphincs_sk k) msg\<rparr>] else [])"

definition signing_signer :: "ext \<Rightarrow> signing_bundle \<Rightarrow> signer" where
  "signing_signer W k = \<lparr>
     sg_public = ed_public W (sb_ed k),
     sg_eggs = signing_eggs W k,
     sg_bundle = (case signing_public W k of Inr b \<Rightarrow> Some b | Inl _ \<Rightarrow> None)\<rparr>"

definition epoch_bundle :: "ext \<Rightarrow> bytes \<Rightarrow> signing_bundle" where
  "epoch_bundle W fleet_key = signing_derive W (blake3_derive W ''PHOTON_FLEET_EPOCH_SIGNING_v1'' fleet_key)"

subsection \<open>A derived signer is well formed and verifies\<close>

lemma signing_public_ok:
  assumes "ext_ok W" "ext_sign_ok W"
  shows "\<exists>b. signing_public W (signing_derive W fp) = Inr b
    \<and> mset (bundle_keys b) = mset [(ED25519 W, ed_public W (sb_ed (signing_derive W fp))),
        (FALCON512 W, sb_falcon_vk (signing_derive W fp)), (SPHINCS_PLUS W, sb_sphincs_pk (signing_derive W fp))]"
proof -
  let ?k = "signing_derive W fp"
  let ?ks = "[(ED25519 W, ed_public W (sb_ed ?k)), (FALCON512 W, sb_falcon_vk ?k), (SPHINCS_PLUS W, sb_sphincs_pk ?k)]"
  have d: "distinct (map fst ?ks)" using assms(1) by (simp add: ext_ok_def)
  have len: "\<forall>(s, k) \<in> set ?ks. pubkey_len W s = Some (length k)"
    using assms by (auto simp: pubkey_len_def ext_ok_def ext_sign_ok_def signing_derive_def Let_def)
  have "check_keys W (sort_key fst ?ks) = None"
    using len unfolding check_keys_None set_sort .
  moreover have "\<not> adjacent_dup (sort_key fst ?ks)"
    using d by (simp add: adjacent_dup_sort_iff del: sort_key_simps)
  moreover have "list_ex (\<lambda>(s, k). s = ED25519 W) (sort_key fst ?ks)"
    unfolding list_ex_iff set_sort by simp
  ultimately have "signing_public W ?k = Inr \<lparr>bundle_keys = sort_key fst ?ks\<rparr>"
    by (simp add: signing_public_def bundle_new_def Let_def del: sort_key_simps)
  then show ?thesis by (simp del: sort_key_simps)
qed

text \<open>What a builder needs of a signer when the chain knows it by bundle \<open>b\<close> and mask \<open>m\<close>.\<close>

definition signer_ok :: "ext \<Rightarrow> signer \<Rightarrow> key_bundle \<Rightarrow> u16 \<Rightarrow> bool" where
  "signer_ok W s b m \<longleftrightarrow>
     wf_bundle W b \<and> bundle_ed25519 W b = sg_public s \<and> length (sg_public s) = 32 \<and>
     (\<forall>msg. verify_eggs W (sg_eggs s msg m) b msg m)"

lemma keypair_signer_ok:
  assumes "ext_sign_ok W"
  shows "signer_ok W (keypair_signer W seed) (ed25519_only W (ed_public W seed)) (MASK_BASE W)"
  using assms
  by (auto simp: signer_ok_def keypair_signer_def ext_sign_ok_def verify_eggs_def pubkey_def
      ed25519_only_def verify_egg_def verify_ed25519_def wf_ed25519_only [unfolded ed25519_only_def]
      bundle_ed25519_only [unfolded ed25519_only_def] covers_bits MASK_BASE_def bit_scheme_bit bit_egg_mask)

lemma wf_bundle_pubkey:
  "wf_bundle W b \<Longrightarrow> (s, k) \<in> set (bundle_keys b) \<Longrightarrow> pubkey b s = Some k"
  by (simp add: wf_bundle_def pubkey_def)

lemma signing_eggs_verify:
  assumes ok: "ext_ok W" "ext_sign_ok W"
    and b: "signing_public W (signing_derive W fp) = Inr b"
    and e: "e \<in> set (signing_eggs W (signing_derive W fp) msg m)"
  shows "\<exists>pk. pubkey b (egg_scheme e) = Some pk \<and> verify_egg W (egg_scheme e) pk msg (egg_sig e)"
proof -
  let ?k = "signing_derive W fp"
  have wf: "wf_bundle W b" using b by (auto simp: signing_public_def intro: bundle_new_wf)
  have ms: "mset (bundle_keys b) = mset [(ED25519 W, ed_public W (sb_ed ?k)),
      (FALCON512 W, sb_falcon_vk ?k), (SPHINCS_PLUS W, sb_sphincs_pk ?k)]"
    using signing_public_ok [OF ok, of fp] b by auto
  have "set (bundle_keys b) = {(ED25519 W, ed_public W (sb_ed ?k)),
      (FALCON512 W, sb_falcon_vk ?k), (SPHINCS_PLUS W, sb_sphincs_pk ?k)}"
    using mset_eq_setD [OF ms] by simp
  then have pk: "pubkey b (ED25519 W) = Some (ed_public W (sb_ed ?k))"
      "pubkey b (FALCON512 W) = Some (sb_falcon_vk ?k)"
      "pubkey b (SPHINCS_PLUS W) = Some (sb_sphincs_pk ?k)"
    by (auto intro: wf_bundle_pubkey [OF wf])
  have ne: "FALCON512 W \<noteq> ED25519 W" "SPHINCS_PLUS W \<noteq> ED25519 W" "SPHINCS_PLUS W \<noteq> FALCON512 W"
    using ok(1) by (auto simp: ext_ok_def)
  from e ne pk ok(2) show ?thesis
    by (auto simp: signing_eggs_def verify_egg_def verify_ed25519_def ext_sign_ok_def
        signing_derive_def Let_def split: if_splits)
qed

lemma signing_eggs_mask:
  assumes "ext_ok W"
  shows "bit (egg_mask (signing_eggs W k msg m)) n \<longleftrightarrow>
     n = unat (ED25519 W) \<or> (bit m n \<and> (n = unat (FALCON512 W) \<or> n = unat (SPHINCS_PLUS W)))"
  using assms
  by (auto simp: bit_egg_mask signing_eggs_def covers_scheme_bit ext_ok_def split: if_splits)

lemma signing_signer_ok:
  assumes ok: "ext_ok W" "ext_sign_ok W" and m: "covers (MASK_ALL W) m"
    and b: "signing_public W (signing_derive W fp) = Inr b"
  shows "signer_ok W (signing_signer W (signing_derive W fp)) b m"
proof -
  let ?k = "signing_derive W fp"
  have wf: "wf_bundle W b" using b by (auto simp: signing_public_def intro: bundle_new_wf)
  have ms: "mset (bundle_keys b) = mset [(ED25519 W, ed_public W (sb_ed ?k)),
      (FALCON512 W, sb_falcon_vk ?k), (SPHINCS_PLUS W, sb_sphincs_pk ?k)]"
    using signing_public_ok [OF ok, of fp] b by auto
  have "(ED25519 W, ed_public W (sb_ed ?k)) \<in> set (bundle_keys b)"
    using mset_eq_setD [OF ms] by simp
  then have ed: "bundle_ed25519 W b = ed_public W (sb_ed ?k)"
    by (simp add: bundle_ed25519_def wf_bundle_pubkey [OF wf])
  have "verify_eggs W (signing_eggs W ?k msg m) b msg m" for msg
  proof -
    have "signing_eggs W ?k msg m \<noteq> []" by (simp add: signing_eggs_def)
    moreover have "list_all (\<lambda>e. case pubkey b (egg_scheme e) of None \<Rightarrow> False
        | Some pk \<Rightarrow> verify_egg W (egg_scheme e) pk msg (egg_sig e)) (signing_eggs W ?k msg m)"
      using signing_eggs_verify [OF ok b, of _ msg m] by (fastforce simp: list_all_iff)
    moreover have "covers (egg_mask (signing_eggs W ?k msg m)) m"
    proof -
      have "bit m n \<Longrightarrow> n = unat (ED25519 W) \<or> n = unat (FALCON512 W) \<or> n = unat (SPHINCS_PLUS W)" for n
        using m by (auto simp: covers_bits MASK_ALL_def bit_or_iff bit_scheme_bit)
      then show ?thesis unfolding covers_bits signing_eggs_mask [OF ok(1)] by blast
    qed
    ultimately show ?thesis by (simp add: verify_eggs_def)
  qed
  then show ?thesis
    using wf ed ok(2) by (simp add: signer_ok_def signing_signer_def ext_sign_ok_def)
qed

section \<open>Properties\<close>

text \<open>A key bundle that passed the constructor survives its wire form: parsing its bytes
  gives the same bundle back, and only well-formed bundles (schemes sorted and distinct, key
  lengths right, Ed25519 present) ever come out of the parser.\<close>

theorem bundle_wire_roundtrip:
  assumes "ext_ok W" "bundle_from_bytes W bs = Inr b"
  shows "bundle_from_bytes W (bundle_to_bytes b) = Inr b \<and> wf_bundle W b"
  using bundle_roundtrip [OF assms(1)] bundle_from_bytes_wf [OF assms(2)] by blast

text \<open>The commitment names the key set, not its order: two argument lists with the same keys
  give the same bundle or the same error, hence the same commitment.\<close>

theorem bundle_commit_order_free:
  assumes "mset ks = mset ks'"
  shows "bundle_new W ks = bundle_new W ks'
    \<and> map_sum id (bundle_commit W) (bundle_new W ks) = map_sum id (bundle_commit W) (bundle_new W ks')"
  using bundle_new_perm [OF assms] by simp

text \<open>The strict rule proves possession: if \<open>verify_eggs\<close> accepts, every scheme in the required
  mask is backed by an egg of the list that verifies under the bundle's own key for that scheme,
  and no egg of the list is unverified.\<close>

theorem verify_eggs_proves_required:
  assumes "verify_eggs W es b msg required" "bit required n"
  shows "(\<exists>e pk. e \<in> set es \<and> unat (egg_scheme e) = n \<and> pubkey b (egg_scheme e) = Some pk
           \<and> verify_egg W (egg_scheme e) pk msg (egg_sig e))
    \<and> (\<forall>e \<in> set es. \<exists>pk. pubkey b (egg_scheme e) = Some pk \<and> verify_egg W (egg_scheme e) pk msg (egg_sig e))"
  using verify_eggs_required [OF assms] verify_eggs_each [OF assms(1)] by blast

text \<open>The envelope rule is the strict rule with undeclared eggs dropped: accepting a list is
  accepting its sublist of declared schemes, and every required scheme is still backed by an egg
  that verifies under the key the bundle declares.\<close>

theorem declared_rule_sound:
  "verify_eggs_declared W es b msg required =
     verify_eggs_declared W (filter (\<lambda>e. pubkey b (egg_scheme e) \<noteq> None) es) b msg required
   \<and> (verify_eggs_declared W es b msg required \<longrightarrow>
       (\<forall>n. bit required n \<longrightarrow> (\<exists>e \<in> set es. unat (egg_scheme e) = n \<and>
          (\<exists>pk. pubkey b (egg_scheme e) = Some pk \<and> verify_egg W (egg_scheme e) pk msg (egg_sig e)))))"
proof -
  have "\<exists>e \<in> set es. unat (egg_scheme e) = n \<and>
          (\<exists>pk. pubkey b (egg_scheme e) = Some pk \<and> verify_egg W (egg_scheme e) pk msg (egg_sig e))"
    if v: "declared_loop W b msg 0 es = Some v" and c: "covers v required" and r: "bit required n" for v n
    using declared_loop_bits [OF v, of n] c r by (auto simp: covers_bits)
  then show ?thesis
    unfolding verify_eggs_declared_def declared_loop_filter
    by (auto split: option.splits)
qed

text \<open>A signer derived from a fingerprint is never refused by the verifier: its public bundle
  is well formed, so the \<open>expect\<close> in \<open>public\<close> cannot fire, and for every message and every mask of
  known schemes its eggs verify under that bundle and cover the mask.\<close>

theorem derived_signer_verifies:
  assumes "ext_ok W" "ext_sign_ok W" "covers (MASK_ALL W) m"
  shows "\<exists>b. signing_public W (signing_derive W fp) = Inr b \<and> wf_bundle W b \<and> bundle_mask b = MASK_ALL W
    \<and> (\<forall>msg. verify_eggs W (signing_eggs W (signing_derive W fp) msg m) b msg m)"
proof -
  let ?k = "signing_derive W fp"
  obtain b where b: "signing_public W ?k = Inr b"
    and ms: "mset (bundle_keys b) = mset [(ED25519 W, ed_public W (sb_ed ?k)),
        (FALCON512 W, sb_falcon_vk ?k), (SPHINCS_PLUS W, sb_sphincs_pk ?k)]"
    using signing_public_ok [OF assms(1,2)] by blast
  have "bundle_mask b = MASK_ALL W"
    using mset_eq_setD [OF ms]
    by (auto intro!: covers_antisym simp: covers_bits bit_bundle_mask MASK_ALL_def bit_or_iff bit_scheme_bit)
  moreover have "signer_ok W (signing_signer W ?k) b m"
    using assms b by (rule signing_signer_ok)
  ultimately show ?thesis
    using b by (auto simp: signer_ok_def signing_signer_def)
qed

end
