(* ===== verification/Fleet_Op.thy ===== *)
theory Fleet_Op
  imports Pq
begin

text \<open>
  src/src/fleet.rs, the data of the membership chain: op kinds and versions, plates, the op record,
  the exact bytes that are signed (\<open>signing_bytes\<close>, the binding and departure requests, the
  succession statement), the chain hash, and the signature checks of a single op. The section on
  injectivity shows that for the framed versions the signed bytes and the chain-hash preimage
  determine the op they were made from.
\<close>

section \<open>Kinds, versions, plates\<close>

datatype op_kind = Genesis | Add | Remove | Checkpoint | Declare | Lock | Unlock

fun op_kind_byte :: "op_kind \<Rightarrow> byte" where
  "op_kind_byte Genesis = 0"
| "op_kind_byte Add = 1"
| "op_kind_byte Remove = 2"
| "op_kind_byte Checkpoint = 3"
| "op_kind_byte Declare = 4"
| "op_kind_byte Lock = 5"
| "op_kind_byte Unlock = 6"

definition op_kind_from_u8 :: "byte \<Rightarrow> op_kind option" where
  "op_kind_from_u8 v =
     (if v = 0 then Some Genesis else if v = 1 then Some Add else if v = 2 then Some Remove
      else if v = 3 then Some Checkpoint else if v = 4 then Some Declare
      else if v = 5 then Some Lock else if v = 6 then Some Unlock else None)"

datatype op_version = V1 | V2 | V3 | V4

fun op_version_byte :: "op_version \<Rightarrow> byte" where
  "op_version_byte V1 = 1"
| "op_version_byte V2 = 2"
| "op_version_byte V3 = 3"
| "op_version_byte V4 = 4"

definition op_version_from_byte :: "byte \<Rightarrow> op_version option" where
  "op_version_from_byte b =
     (if b = 1 then Some V1 else if b = 2 then Some V2 else if b = 3 then Some V3
      else if b = 4 then Some V4 else None)"

fun op_domain :: "op_version \<Rightarrow> bytes" where
  "op_domain V1 = ascii ''PHOTON_FLEET_OP_v1''"
| "op_domain V2 = ascii ''PHOTON_FLEET_OP_v2''"
| "op_domain V3 = ascii ''PHOTON_FLEET_OP_v3''"
| "op_domain V4 = ascii ''PHOTON_FLEET_OP_v4''"

definition plated :: "op_version \<Rightarrow> bool" where
  "plated v \<longleftrightarrow> v = V3 \<or> v = V4"

definition framed :: "op_version \<Rightarrow> bool" where
  "framed v \<longleftrightarrow> v \<noteq> V1"

text \<open>The versions in order: framing came with v2 and the plate with v3, and neither went away.\<close>

instantiation op_version :: linorder
begin

definition less_eq_op_version :: "op_version \<Rightarrow> op_version \<Rightarrow> bool" where
  "less_eq_op_version a b \<longleftrightarrow> unat (op_version_byte a) \<le> unat (op_version_byte b)"

definition less_op_version :: "op_version \<Rightarrow> op_version \<Rightarrow> bool" where
  "less_op_version a b \<longleftrightarrow> unat (op_version_byte a) < unat (op_version_byte b)"

instance
proof
  show "x = y" if "x \<le> y" "y \<le> x" for x y :: op_version
    using that by (cases x; cases y) (simp_all add: less_eq_op_version_def)
qed (auto simp: less_eq_op_version_def less_op_version_def)

end

lemma later_versions: "framed v \<longleftrightarrow> V2 \<le> v" "plated v \<longleftrightarrow> V3 \<le> v" "plated v \<Longrightarrow> framed v"
  by (cases v; simp add: framed_def plated_def less_eq_op_version_def)+

definition plate_kind_op :: "op_kind \<Rightarrow> bool" where
  "plate_kind_op k \<longleftrightarrow> k = Genesis \<or> k = Add \<or> k = Declare"

lemma op_kind_roundtrip [simp]: "op_kind_from_u8 (op_kind_byte k) = Some k"
  by (cases k) (simp_all add: op_kind_from_u8_def)

lemma op_kind_byte_inj [simp]: "op_kind_byte k = op_kind_byte l \<longleftrightarrow> k = l"
  by (metis op_kind_roundtrip option.inject)

lemma op_version_roundtrip [simp]: "op_version_from_byte (op_version_byte v) = Some v"
  by (cases v) (simp_all add: op_version_from_byte_def)

lemma length_op_domain [simp, len_simps]: "length (op_domain v) = 18"
  by (cases v) simp_all

lemma op_domain_inj [simp]: "op_domain v = op_domain w \<longleftrightarrow> v = w"
  by (cases v; cases w) (simp_all add: ascii_def)

text \<open>\<open>mod plate\<close>.\<close>

definition UNSTATED :: byte where "UNSTATED = 0"
definition FILE :: byte where "FILE = 1"
definition FIRMWARE :: byte where "FIRMWARE = 2"
definition WIDEVINE :: byte where "WIDEVINE = 3"
definition TPM_EK :: byte where "TPM_EK = 4"
definition PIPE :: byte where "PIPE = 5"

definition plate_level :: "byte \<Rightarrow> nat option" where
  "plate_level k =
     (if k = FILE then Some 0 else if k = FIRMWARE then Some 1 else if k = WIDEVINE then Some 2
      else if k = TPM_EK then Some 3 else if k = PIPE then Some 4 else None)"

definition plate_known :: "byte \<Rightarrow> bool" where
  "plate_known k \<longleftrightarrow> k \<le> PIPE"

section \<open>The op\<close>

record fleet_op =
  op_handle_proof :: bytes
  op_prev_hash :: bytes
  op_kind :: op_kind
  op_device :: bytes
  op_time :: i64
  op_signer :: bytes
  op_identity_pubkey :: bytes
  op_identity_sig :: bytes
  op_consent_t :: i64
  op_consent :: "egg list"
  op_ckpt_k :: u64
  op_ckpt_commit :: bytes
  op_ckpt_fanout_epoch :: u64
  op_sigs :: "egg list"
  op_version :: op_version
  op_bundle :: "key_bundle option"
  op_plate :: "bytes option"
  op_plate_kind :: byte

text \<open>What the Rust types fix: array lengths, egg lists and bundles that were built or parsed.\<close>

definition wf_op :: "ext \<Rightarrow> fleet_op \<Rightarrow> bool" where
  "wf_op W p \<longleftrightarrow>
     length (op_handle_proof p) = 32 \<and> length (op_prev_hash p) = 32 \<and> length (op_device p) = 32 \<and>
     length (op_signer p) = 32 \<and> length (op_identity_pubkey p) = 32 \<and> length (op_ckpt_commit p) = 32 \<and>
     length (op_identity_sig p) < 2 ^ 32 \<and> wf_eggs (op_consent p) \<and> wf_eggs (op_sigs p) \<and>
     (\<forall>b. op_bundle p = Some b \<longrightarrow> wf_bundle W b) \<and> (\<forall>q. op_plate p = Some q \<longrightarrow> length q = 32)"

section \<open>The bytes that are signed\<close>

definition bindreq_signing_bytes :: "bytes \<Rightarrow> bytes \<Rightarrow> i64 \<Rightarrow> bytes" where
  "bindreq_signing_bytes hp device t = ascii ''PHOTON_BINDREQ_v1'' @ hp @ device @ u64_le t"

definition bindreq_signing_bytes_plated :: "bytes \<Rightarrow> bytes \<Rightarrow> i64 \<Rightarrow> bytes option \<Rightarrow> byte \<Rightarrow> bytes" where
  "bindreq_signing_bytes_plated hp device t plate kind =
     (if plate = None \<and> kind = UNSTATED then bindreq_signing_bytes hp device t
      else ascii ''PHOTON_BINDREQ_v2'' @ hp @ device @ u64_le t @ [kind]
           @ (case plate of Some q \<Rightarrow> q | None \<Rightarrow> []))"

definition departreq_signing_bytes :: "bytes \<Rightarrow> bytes \<Rightarrow> i64 \<Rightarrow> bytes" where
  "departreq_signing_bytes hp device t = ascii ''PHOTON_DEPARTREQ_v1'' @ hp @ device @ u64_le t"

text \<open>\<open>CONSENT_WINDOW_OSC\<close> and \<open>BINDREQ_FRESH_OSC\<close> in oscillations, \<open>OP_TIME_MAX_OSC = 1 << 62\<close>.\<close>

definition CONSENT_WINDOW_OSC :: "ext \<Rightarrow> nat" where
  "CONSENT_WINDOW_OSC W = 3600 * osc_per_sec W"

definition BINDREQ_FRESH_OSC :: "ext \<Rightarrow> nat" where
  "BINDREQ_FRESH_OSC W = 300 * osc_per_sec W"

definition OP_TIME_MAX_OSC :: int where
  "OP_TIME_MAX_OSC = 2 ^ 62"

definition consent_part :: "ext \<Rightarrow> fleet_op \<Rightarrow> bytes" where
  "consent_part W p =
     (if framed (op_version p) then frame (eggs_to_bytes W (op_consent p))
      else (case op_consent p of [] \<Rightarrow> [] | e # _ \<Rightarrow> egg_sig e))"

definition ckpt_part :: "fleet_op \<Rightarrow> bytes" where
  "ckpt_part p =
     (if op_kind p = Checkpoint
      then u64_le (op_ckpt_k p) @ op_ckpt_commit p @ u64_le (op_ckpt_fanout_epoch p) else [])"

definition bundle_part :: "fleet_op \<Rightarrow> bytes" where
  "bundle_part p =
     (if framed (op_version p) \<and> (op_kind p = Add \<or> op_kind p = Declare)
      then frame (case op_bundle p of Some b \<Rightarrow> bundle_to_bytes b | None \<Rightarrow> []) else [])"

definition plate_part :: "fleet_op \<Rightarrow> bytes" where
  "plate_part p =
     (if plated (op_version p) \<and> plate_kind_op (op_kind p)
      then frame (case op_plate p of Some q \<Rightarrow> q | None \<Rightarrow> [])
           @ (if op_version p = V4 then [op_plate_kind p] else [])
      else [])"

definition signing_bytes :: "ext \<Rightarrow> fleet_op \<Rightarrow> bytes" where
  "signing_bytes W p =
     op_domain (op_version p) @ op_handle_proof p @ op_prev_hash p @ [op_kind_byte (op_kind p)]
     @ op_device p @ u64_le (op_time p) @ op_signer p @ op_identity_pubkey p @ u64_le (op_consent_t p)
     @ consent_part W p @ ckpt_part p @ bundle_part p @ plate_part p"

definition egg_hash_bytes :: "op_version \<Rightarrow> egg \<Rightarrow> bytes" where
  "egg_hash_bytes v e = (if framed v then egg_scheme e # frame (egg_sig e) else egg_scheme e # egg_sig e)"

text \<open>Everything \<open>chain_hash\<close> feeds to the hasher, in order.\<close>

definition chain_preimage :: "ext \<Rightarrow> fleet_op \<Rightarrow> bytes" where
  "chain_preimage W p =
     signing_bytes W p
     @ (if framed (op_version p)
        then u32_le (of_nat (length (op_sigs p))) @ concat (map (egg_hash_bytes (op_version p)) (op_sigs p))
             @ frame (op_identity_sig p)
        else concat (map (egg_hash_bytes (op_version p)) (op_sigs p)) @ op_identity_sig p)"

definition chain_hash :: "ext \<Rightarrow> fleet_op \<Rightarrow> bytes" where
  "chain_hash W p = blake3 W (chain_preimage W p)"

definition succession_signing_bytes :: "bytes \<Rightarrow> bytes \<Rightarrow> bytes \<Rightarrow> bytes" where
  "succession_signing_bytes hp old_gh new_gh = ascii ''PHOTON_SUCCESSION_v1'' @ hp @ old_gh @ new_gh"

section \<open>Signature checks of one op\<close>

definition verify_identity_binding :: "ext \<Rightarrow> fleet_op \<Rightarrow> bool" where
  "verify_identity_binding W p \<longleftrightarrow>
     op_identity_pubkey p \<noteq> zero32 \<and> length (op_identity_sig p) = 64 \<and>
     verify_ed25519 W (op_identity_pubkey p) (signing_bytes W p) (op_identity_sig p)"

definition verify_consent :: "ext \<Rightarrow> fleet_op \<Rightarrow> key_bundle \<Rightarrow> u16 \<Rightarrow> bool" where
  "verify_consent W p subject required =
     verify_eggs W (op_consent p) subject
       (bindreq_signing_bytes_plated (op_handle_proof p) (op_device p) (op_consent_t p) (op_plate p) (op_plate_kind p))
       required"

definition verify_depart_consent :: "ext \<Rightarrow> fleet_op \<Rightarrow> key_bundle \<Rightarrow> u16 \<Rightarrow> bool" where
  "verify_depart_consent W p subject required =
     verify_eggs W (op_consent p) subject
       (departreq_signing_bytes (op_handle_proof p) (op_device p) (op_consent_t p)) required"

definition verify_sig_egg :: "ext \<Rightarrow> fleet_op \<Rightarrow> key_bundle \<Rightarrow> egg \<Rightarrow> bool" where
  "verify_sig_egg W p b e =
     (if egg_scheme e = ED25519 W then verify_ed25519 W (op_signer p) (signing_bytes W p) (egg_sig e)
      else (case pubkey b (egg_scheme e) of
              Some pk \<Rightarrow> verify_egg W (egg_scheme e) pk (signing_bytes W p) (egg_sig e)
            | None \<Rightarrow> False))"

definition verify_sigs :: "ext \<Rightarrow> fleet_op \<Rightarrow> key_bundle \<Rightarrow> bool" where
  "verify_sigs W p b \<longleftrightarrow> op_sigs p \<noteq> [] \<and> list_all (verify_sig_egg W p b) (op_sigs p)"

text \<open>\<open>BindRequest\<close> and its \<open>verify\<close>.\<close>

record bind_request =
  br_device :: bytes
  br_t :: i64
  br_device_sig :: "egg list"
  br_bundle :: "key_bundle option"
  br_identity_sig :: bytes
  br_plate :: "bytes option"
  br_plate_kind :: byte
  br_nfc_hash :: bytes

definition bind_request_verify :: "ext \<Rightarrow> bind_request \<Rightarrow> bytes \<Rightarrow> bytes \<Rightarrow> bool" where
  "bind_request_verify W r hp identity_pubkey =
     (let msg = bindreq_signing_bytes_plated hp (br_device r) (br_t r) (br_plate r) (br_plate_kind r);
          subject = (case br_bundle r of Some b \<Rightarrow> b | None \<Rightarrow> ed25519_only W (br_device r))
      in bundle_ed25519 W subject = br_device r \<and>
         verify_eggs W (br_device_sig r) subject msg (bundle_mask subject) \<and>
         verify_ed25519 W identity_pubkey msg (br_identity_sig r))"

section \<open>The framed preimages determine the op\<close>

text \<open>What an op's signature covers, with the kind- and version-gated groups reduced to what the
  gates let thru.\<close>

definition gated_ckpt :: "fleet_op \<Rightarrow> (u64 \<times> bytes \<times> u64) option" where
  "gated_ckpt p = (if op_kind p = Checkpoint
     then Some (op_ckpt_k p, op_ckpt_commit p, op_ckpt_fanout_epoch p) else None)"

definition gated_bundle :: "fleet_op \<Rightarrow> key_bundle option" where
  "gated_bundle p = (if framed (op_version p) \<and> (op_kind p = Add \<or> op_kind p = Declare) then op_bundle p else None)"

definition gated_plate :: "fleet_op \<Rightarrow> bytes option \<times> byte" where
  "gated_plate p = (if plated (op_version p) \<and> plate_kind_op (op_kind p)
     then (op_plate p, if op_version p = V4 then op_plate_kind p else 0) else (None, 0))"

definition signed_head :: "fleet_op \<Rightarrow> op_version \<times> op_kind \<times> bytes \<times> bytes \<times> bytes \<times> i64 \<times> bytes \<times> bytes \<times> i64" where
  "signed_head p = (op_version p, op_kind p, op_handle_proof p, op_prev_hash p, op_device p, op_time p,
     op_signer p, op_identity_pubkey p, op_consent_t p)"

lemma eggs_frame_inj:
  assumes W: "ext_ok W" and wf: "wf_eggs a" "wf_eggs b"
    and eq: "frame (eggs_to_bytes W a) @ r = frame (eggs_to_bytes W b) @ s"
  shows "a = b \<and> r = s"
proof -
  have "length (eggs_to_bytes W a) < 2 ^ 32" "length (eggs_to_bytes W b) < 2 ^ 32"
    using W wf by (auto simp: ext_ok_def)
  from frame_append_inj [OF this eq] have e: "eggs_to_bytes W a = eggs_to_bytes W b" and "r = s" by auto
  moreover have "Some a = Some b"
    using W wf e unfolding ext_ok_def by metis
  ultimately show ?thesis by simp
qed

lemma length_bundle_to_bytes:
  assumes "ext_ok W" "wf_bundle W b"
  shows "length (bundle_to_bytes b) < 2 ^ 32"
proof -
  have "length (concat (map key_to_bytes ks)) \<le> 65538 * length ks" if "list_all key_ok ks" for ks
    using that by (induction ks) (auto simp: key_to_bytes_def key_ok_def)
  from this [OF wf_bundle_keys_ok [OF assms]] wf_bundle_length [OF assms(2)]
  show ?thesis by (simp add: bundle_to_bytes_def)
qed

lemma bundle_part_inj:
  assumes W: "ext_ok W" and wf: "wf_op W p" "wf_op W q"
    and same: "op_version p = op_version q" "op_kind p = op_kind q"
    and eq: "bundle_part p @ r = bundle_part q @ s"
  shows "gated_bundle p = gated_bundle q \<and> r = s"
proof (cases "framed (op_version p) \<and> (op_kind p = Add \<or> op_kind p = Declare)")
  case True
  let ?bb = "\<lambda>x. case op_bundle x of Some b \<Rightarrow> bundle_to_bytes b | None \<Rightarrow> []"
  have len: "length (?bb x) < 2 ^ 32" if "wf_op W x" for x
    using that W length_bundle_to_bytes by (auto simp: wf_op_def split: option.splits)
  have "frame (?bb p) @ r = frame (?bb q) @ s"
    using eq True same by (simp add: bundle_part_def)
  from frame_append_inj [OF len [OF wf(1)] len [OF wf(2)] this]
  have e: "?bb p = ?bb q" and "r = s" by auto
  moreover have "op_bundle p = op_bundle q"
    using e wf bundle_to_bytes_inj [OF W]
    by (auto simp: wf_op_def split: option.splits)
  ultimately show ?thesis using True same by (simp add: gated_bundle_def)
next
  case False
  then show ?thesis using eq same by (auto simp: bundle_part_def gated_bundle_def)
qed

lemma plate_part_inj:
  assumes wf: "wf_op W p" "wf_op W q"
    and same: "op_version p = op_version q" "op_kind p = op_kind q"
    and eq: "plate_part p @ r = plate_part q @ s"
  shows "gated_plate p = gated_plate q \<and> r = s"
proof (cases "plated (op_version p) \<and> plate_kind_op (op_kind p)")
  case True
  let ?pb = "\<lambda>x. case op_plate x of Some b \<Rightarrow> b | None \<Rightarrow> []"
  let ?k = "\<lambda>x. if op_version p = V4 then [op_plate_kind x] else []"
  have len: "length (?pb x) < 2 ^ 32" if "wf_op W x" for x
    using that by (auto simp: wf_op_def split: option.splits)
  have "frame (?pb p) @ (?k p @ r) = frame (?pb q) @ (?k q @ s)"
    using eq True same by (simp add: plate_part_def)
  from frame_append_inj [OF len [OF wf(1)] len [OF wf(2)] this]
  have e: "?pb p = ?pb q" and k: "?k p @ r = ?k q @ s" by auto
  have "op_plate p = op_plate q"
    using e wf by (auto simp: wf_op_def split: option.splits)
  with k True same show ?thesis by (auto simp: gated_plate_def split: if_splits)
next
  case False
  then show ?thesis using eq same by (auto simp: plate_part_def gated_plate_def)
qed

lemma ckpt_part_inj:
  assumes wf: "wf_op W p" "wf_op W q" and same: "op_kind p = op_kind q"
    and eq: "ckpt_part p @ r = ckpt_part q @ s"
  shows "gated_ckpt p = gated_ckpt q \<and> r = s"
  using wf same eq
  by (auto simp: ckpt_part_def gated_ckpt_def wf_op_def append_inj_len split: if_splits)

lemma signing_head_inj:
  assumes wf: "wf_op W p" "wf_op W q"
    and eq: "signing_bytes W p @ r = signing_bytes W q @ s"
  shows "signed_head p = signed_head q \<and>
    (consent_part W p @ ckpt_part p @ bundle_part p @ plate_part p) @ r =
    (consent_part W q @ ckpt_part q @ bundle_part q @ plate_part q) @ s"
  using wf eq unfolding signing_bytes_def wf_op_def signed_head_def
  by (simp add: append_inj_len)

lemma signing_bytes_append_inj:
  assumes W: "ext_ok W" and wf: "wf_op W p" "wf_op W q"
    and fr: "framed (op_version p)" "framed (op_version q)"
    and eq: "signing_bytes W p @ r = signing_bytes W q @ s"
  shows "signed_head p = signed_head q \<and> op_consent p = op_consent q \<and> gated_ckpt p = gated_ckpt q
    \<and> gated_bundle p = gated_bundle q \<and> gated_plate p = gated_plate q \<and> r = s"
proof -
  from signing_head_inj [OF wf eq] have h: "signed_head p = signed_head q"
    and t: "consent_part W p @ (ckpt_part p @ bundle_part p @ plate_part p @ r) =
            consent_part W q @ (ckpt_part q @ bundle_part q @ plate_part q @ s)" by auto
  from h have v: "op_version p = op_version q" and k: "op_kind p = op_kind q"
    by (auto simp: signed_head_def)
  have "op_consent p = op_consent q \<and>
      ckpt_part p @ bundle_part p @ plate_part p @ r = ckpt_part q @ bundle_part q @ plate_part q @ s"
    using t fr wf by (intro eggs_frame_inj [OF W]) (auto simp: consent_part_def wf_op_def)
  then have c: "op_consent p = op_consent q"
    and t1: "ckpt_part p @ bundle_part p @ plate_part p @ r = ckpt_part q @ bundle_part q @ plate_part q @ s"
    by auto
  from ckpt_part_inj [OF wf k t1] have g: "gated_ckpt p = gated_ckpt q"
    and t2: "bundle_part p @ plate_part p @ r = bundle_part q @ plate_part q @ s" by auto
  from bundle_part_inj [OF W wf v k t2] have b: "gated_bundle p = gated_bundle q"
    and t3: "plate_part p @ r = plate_part q @ s" by auto
  from plate_part_inj [OF wf v k t3] h c g b show ?thesis by simp
qed

lemma egg_hash_run_inj:
  assumes "framed v" "\<forall>e \<in> set a. length (egg_sig e) < 2 ^ 32" "\<forall>e \<in> set b. length (egg_sig e) < 2 ^ 32"
    and "length a = length b"
    and "concat (map (egg_hash_bytes v) a) @ r = concat (map (egg_hash_bytes v) b) @ s"
  shows "a = b \<and> r = s"
  using assms(4,2,3,5)
proof (induction a b rule: list_induct2)
  case (Cons x xs y ys)
  have "frame (egg_sig x) @ (concat (map (egg_hash_bytes v) xs) @ r) =
        frame (egg_sig y) @ (concat (map (egg_hash_bytes v) ys) @ s)" and sc: "egg_scheme x = egg_scheme y"
    using Cons.prems(3) assms(1) by (simp_all add: egg_hash_bytes_def [abs_def])
  from frame_append_inj [OF _ _ this(1)] Cons.prems(1,2)
  have sg: "egg_sig x = egg_sig y"
    and rest: "concat (map (egg_hash_bytes v) xs) @ r = concat (map (egg_hash_bytes v) ys) @ s" by auto
  from Cons.IH [OF _ _ rest] Cons.prems(1,2) sc sg show ?case by (auto intro: egg.equality)
qed simp

lemma chain_preimage_inj:
  assumes W: "ext_ok W" and wf: "wf_op W p" "wf_op W q"
    and fr: "framed (op_version p)" "framed (op_version q)"
    and eq: "chain_preimage W p = chain_preimage W q"
  shows "signed_head p = signed_head q \<and> op_consent p = op_consent q \<and> gated_ckpt p = gated_ckpt q
    \<and> gated_bundle p = gated_bundle q \<and> gated_plate p = gated_plate q
    \<and> op_sigs p = op_sigs q \<and> op_identity_sig p = op_identity_sig q"
proof -
  let ?tail = "\<lambda>x. u32_le (of_nat (length (op_sigs x)))
      @ (concat (map (egg_hash_bytes (op_version x)) (op_sigs x)) @ frame (op_identity_sig x))"
  have "signing_bytes W p @ ?tail p = signing_bytes W q @ ?tail q"
    using eq fr by (simp add: chain_preimage_def)
  from signing_bytes_append_inj [OF W wf fr this]
  have h: "signed_head p = signed_head q" "op_consent p = op_consent q" "gated_ckpt p = gated_ckpt q"
      "gated_bundle p = gated_bundle q" "gated_plate p = gated_plate q" and t: "?tail p = ?tail q" by auto
  from h(1) have v: "op_version p = op_version q" by (simp add: signed_head_def)
  from t have n: "(of_nat (length (op_sigs p)) :: u32) = of_nat (length (op_sigs q))"
    and t1: "concat (map (egg_hash_bytes (op_version p)) (op_sigs p)) @ frame (op_identity_sig p) @ [] =
             concat (map (egg_hash_bytes (op_version p)) (op_sigs q)) @ frame (op_identity_sig q) @ []"
    by (simp_all add: append_inj_len v)
  have "unat (of_nat (length (op_sigs p)) :: u32) = unat (of_nat (length (op_sigs q)) :: u32)"
    using n by simp
  then have len: "length (op_sigs p) = length (op_sigs q)"
    using wf by (simp add: unat_of_nat wf_op_def wf_eggs_def)
  have short: "\<forall>e \<in> set (op_sigs x). length (egg_sig e) < 2 ^ 32" if "wf_op W x" for x
    using that by (force simp: wf_op_def wf_eggs_def)
  from egg_hash_run_inj [OF fr(1) short [OF wf(1)] short [OF wf(2)] len t1]
  have sg: "op_sigs p = op_sigs q" and t2: "frame (op_identity_sig p) @ [] = frame (op_identity_sig q) @ []"
    by auto
  from frame_append_inj [OF _ _ t2] wf have "op_identity_sig p = op_identity_sig q"
    by (auto simp: wf_op_def)
  with h sg show ?thesis by simp
qed

end
