(* ===== verification/Fleet_Fold.thy ===== *)
theory Fleet_Fold
  imports Fleet_Op
begin

text \<open>
  src/src/fleet.rs, \<open>MembershipBlob::fold_inner\<close> and the accessors that read its answer. The walk
  state is the group of local variables of the Rust loop; one iteration is \<open>fleet_step\<close>, cut at the
  comments of the source into the structural checks, the plate tables, the authority checks, the
  effect of the op's kind and the floor ratchet. The checks run in the order of the source, so the
  error returned is the one the code returns.
\<close>

section \<open>Errors and state\<close>

datatype fold_error =
    EmptyChain
  | NotGenesisFirst
  | GenesisNotSelfSigned
  | BadIdentityBinding
  | StrayIdentityBinding nat
  | BadConsent nat
  | ConsentStale nat
  | ImpossibleTime nat
  | StrayConsent nat
  | StrayCheckpoint nat
  | CheckpointMalformed nat
  | CheckpointOutOfSequence nat
  | StrayBundle nat
  | StrayPlate nat
  | StrayPlateKind nat
  | BadBundle nat
  | DeclareNotSelfSigned nat
  | CapabilityRegression nat
  | BelowFloor nat
  | DeclareUnproven nat
  | InsufficientEggs nat
  | BundleMismatch nat
  | RemoveNotSelfSigned nat
  | RemoveApproverIsLeaver nat
  | InconsistentHandleProof nat
  | BrokenChain nat
  | BadSignature nat
  | SignerNotMember nat
  | SignerLocked nat
  | LockMalformed nat
  | AddExistingMember nat
  | RemoveNonMember nat

record walk =
  w_members :: "bytes list"
  w_locked :: "bytes list"
  w_bundles :: "(bytes \<times> key_bundle) list"
  w_plates :: "(bytes \<times> bytes) list"
  w_kinds :: "(bytes \<times> byte) list"
  w_floor :: u16
  w_prev :: bytes
  w_last_k :: u64

definition walk_init :: "ext \<Rightarrow> walk" where
  "walk_init W = \<lparr>w_members = [], w_locked = [], w_bundles = [], w_plates = [], w_kinds = [],
     w_floor = MASK_BASE W, w_prev = zero32, w_last_k = 0\<rparr>"

text \<open>The bundle a device is known by: the first table entry for it, or Ed25519 alone.\<close>

definition known_bundle :: "ext \<Rightarrow> (bytes \<times> key_bundle) list \<Rightarrow> bytes \<Rightarrow> key_bundle" where
  "known_bundle W bs d = (case map_of bs d of Some b \<Rightarrow> b | None \<Rightarrow> ed25519_only W d)"

section \<open>One op of the walk\<close>

definition check_shape :: "bytes \<Rightarrow> nat \<Rightarrow> fleet_op \<Rightarrow> walk \<Rightarrow> fold_error option" where
  "check_shape identity i p w =
     (if op_handle_proof p \<noteq> identity then Some (InconsistentHandleProof i)
      else if op_prev_hash p \<noteq> w_prev w then Some (BrokenChain i)
      else if sint (op_time p) < 0 \<or> sint (op_time p) \<ge> OP_TIME_MAX_OSC then Some (ImpossibleTime i)
      else if op_kind p \<noteq> Genesis \<and> (op_identity_pubkey p \<noteq> zero32 \<or> op_identity_sig p \<noteq> [])
        then Some (StrayIdentityBinding i)
      else if \<not> (op_kind p = Add \<or> op_kind p = Remove) \<and> (op_consent_t p \<noteq> 0 \<or> op_consent p \<noteq> [])
        then Some (StrayConsent i)
      else if op_kind p = Remove \<and> (op_consent_t p \<noteq> 0) \<noteq> (op_consent p \<noteq> []) then Some (StrayConsent i)
      else if op_kind p \<noteq> Checkpoint \<and>
          (op_ckpt_k p \<noteq> 0 \<or> op_ckpt_commit p \<noteq> zero32 \<or> op_ckpt_fanout_epoch p \<noteq> 0)
        then Some (StrayCheckpoint i)
      else if \<not> (op_kind p = Add \<or> op_kind p = Declare) \<and> op_bundle p \<noteq> None then Some (StrayBundle i)
      else if op_plate p \<noteq> None \<and> (\<not> plate_kind_op (op_kind p) \<or> \<not> plated (op_version p))
        then Some (StrayPlate i)
      else if op_plate_kind p \<noteq> UNSTATED \<and>
          (\<not> plate_kind_op (op_kind p) \<or> op_version p \<noteq> V4 \<or> \<not> plate_known (op_plate_kind p))
        then Some (StrayPlateKind i)
      else None)"

definition note_plate :: "fleet_op \<Rightarrow> walk \<Rightarrow> walk" where
  "note_plate p w = w\<lparr>
     w_plates := (case op_plate p of Some q \<Rightarrow> AList.update (op_device p) q (w_plates w) | None \<Rightarrow> w_plates w),
     w_kinds := (if op_plate_kind p \<noteq> UNSTATED
                 then AList.update (op_device p) (op_plate_kind p) (w_kinds w) else w_kinds w)\<rparr>"

definition verify_with :: "ext \<Rightarrow> fleet_op \<Rightarrow> walk \<Rightarrow> key_bundle" where
  "verify_with W p w =
     (case (op_kind p, op_bundle p) of
        (Declare, Some b) \<Rightarrow> b
      | _ \<Rightarrow> known_bundle W (w_bundles w) (op_signer p))"

definition check_authority :: "ext \<Rightarrow> nat \<Rightarrow> fleet_op \<Rightarrow> walk \<Rightarrow> fold_error option" where
  "check_authority W i p w =
     (if (case op_bundle p of Some b \<Rightarrow> bundle_ed25519 W b \<noteq> op_device p | None \<Rightarrow> False)
        then Some (BundleMismatch i)
      else if op_signer p \<in> set (w_locked w) then Some (SignerLocked i)
      else if \<not> covers (egg_mask (op_sigs p)) (w_floor w) then Some (InsufficientEggs i)
      else if \<not> verify_sigs W p (verify_with W p w) then Some (BadSignature i)
      else None)"

definition apply_genesis :: "ext \<Rightarrow> nat \<Rightarrow> fleet_op \<Rightarrow> walk \<Rightarrow> fold_error + walk" where
  "apply_genesis W i p w =
     (if i \<noteq> 0 \<or> w_members w \<noteq> [] then Inl NotGenesisFirst
      else if op_signer p \<noteq> op_device p then Inl GenesisNotSelfSigned
      else if op_identity_pubkey p = zero32 then Inl BadIdentityBinding
      else if op_identity_sig p \<noteq> [] \<and> \<not> verify_identity_binding W p then Inl BadIdentityBinding
      else Inr (w\<lparr>w_members := w_members w @ [op_device p]\<rparr>))"

definition apply_declare :: "nat \<Rightarrow> fleet_op \<Rightarrow> walk \<Rightarrow> fold_error + walk" where
  "apply_declare i p w =
     (if op_signer p \<noteq> op_device p then Inl (DeclareNotSelfSigned i)
      else if op_device p \<notin> set (w_members w) then Inl (SignerNotMember i)
      else case op_bundle p of
        None \<Rightarrow> Inl (BadBundle i)
      | Some b \<Rightarrow>
          if \<not> covers (egg_mask (op_sigs p)) (bundle_mask b) then Inl (DeclareUnproven i)
          else if (case map_of (w_bundles w) (op_device p) of
                     Some old \<Rightarrow> \<not> covers (bundle_mask b) (bundle_mask old) | None \<Rightarrow> False)
            then Inl (CapabilityRegression i)
          else Inr (w\<lparr>w_bundles := AList.update (op_device p) b (w_bundles w)\<rparr>))"

definition joined_bundle :: "ext \<Rightarrow> fleet_op \<Rightarrow> key_bundle" where
  "joined_bundle W p = (case op_bundle p of Some b \<Rightarrow> b | None \<Rightarrow> ed25519_only W (op_device p))"

definition apply_add :: "ext \<Rightarrow> nat \<Rightarrow> fleet_op \<Rightarrow> walk \<Rightarrow> fold_error + walk" where
  "apply_add W i p w =
     (if op_signer p \<notin> set (w_members w) then Inl (SignerNotMember i)
      else if op_device p \<in> set (w_members w) then Inl (AddExistingMember i)
      else let joined = joined_bundle W p in
        if \<not> covers (bundle_mask joined) (w_floor w) then Inl (BelowFloor i)
        else if \<not> verify_consent W p joined (bundle_mask joined OR w_floor w) then Inl (BadConsent i)
        else if abs_diff_i64 (op_time p) (op_consent_t p) > CONSENT_WINDOW_OSC W then Inl (ConsentStale i)
        else Inr (w\<lparr>w_members := w_members w @ [op_device p],
                    w_bundles := w_bundles w @ [(op_device p, joined)]\<rparr>))"

definition check_removal :: "ext \<Rightarrow> nat \<Rightarrow> fleet_op \<Rightarrow> walk \<Rightarrow> fold_error option" where
  "check_removal W i p w =
     (if op_consent p = [] then
        (if op_signer p \<noteq> op_device p then Some (RemoveNotSelfSigned i) else None)
      else if op_signer p = op_device p then Some (RemoveApproverIsLeaver i)
      else if \<not> verify_depart_consent W p (known_bundle W (w_bundles w) (op_device p)) (w_floor w)
        then Some (BadConsent i)
      else if abs_diff_i64 (op_time p) (op_consent_t p) > CONSENT_WINDOW_OSC W then Some (ConsentStale i)
      else None)"

definition apply_remove :: "ext \<Rightarrow> nat \<Rightarrow> fleet_op \<Rightarrow> walk \<Rightarrow> fold_error + walk" where
  "apply_remove W i p w =
     (if op_signer p \<notin> set (w_members w) then Inl (SignerNotMember i)
      else case check_removal W i p w of Some e \<Rightarrow> Inl e
      | None \<Rightarrow>
        let members = filter (\<lambda>m. m \<noteq> op_device p) (w_members w) in
        if length members = length (w_members w) then Inl (RemoveNonMember i)
        else Inr (w\<lparr>w_members := members, w_locked := filter (\<lambda>m. m \<noteq> op_device p) (w_locked w)\<rparr>))"

definition apply_lock :: "nat \<Rightarrow> fleet_op \<Rightarrow> walk \<Rightarrow> fold_error + walk" where
  "apply_lock i p w =
     (if op_signer p \<notin> set (w_members w) then Inl (SignerNotMember i)
      else if op_device p \<notin> set (w_members w) \<or> op_device p = op_signer p \<or> op_device p \<in> set (w_locked w)
        then Inl (LockMalformed i)
      else Inr (w\<lparr>w_locked := w_locked w @ [op_device p]\<rparr>))"

definition apply_unlock :: "nat \<Rightarrow> fleet_op \<Rightarrow> walk \<Rightarrow> fold_error + walk" where
  "apply_unlock i p w =
     (if op_signer p \<notin> set (w_members w) then Inl (SignerNotMember i)
      else let locked = filter (\<lambda>m. m \<noteq> op_device p) (w_locked w) in
        if length locked = length (w_locked w) then Inl (LockMalformed i)
        else Inr (w\<lparr>w_locked := locked\<rparr>))"

definition apply_checkpoint :: "nat \<Rightarrow> fleet_op \<Rightarrow> walk \<Rightarrow> fold_error + walk" where
  "apply_checkpoint i p w =
     (if op_signer p \<notin> set (w_members w) then Inl (SignerNotMember i)
      else if op_ckpt_k p = 0 \<or> op_ckpt_commit p = zero32 \<or> op_device p \<noteq> op_signer p
        then Inl (CheckpointMalformed i)
      else if op_ckpt_k p \<noteq> w_last_k w + 1 then Inl (CheckpointOutOfSequence i)
      else Inr (w\<lparr>w_last_k := op_ckpt_k p\<rparr>))"

fun apply_kind :: "ext \<Rightarrow> op_kind \<Rightarrow> nat \<Rightarrow> fleet_op \<Rightarrow> walk \<Rightarrow> fold_error + walk" where
  "apply_kind W Genesis i p w = apply_genesis W i p w"
| "apply_kind W Declare i p w = apply_declare i p w"
| "apply_kind W Add i p w = apply_add W i p w"
| "apply_kind W Remove i p w = apply_remove W i p w"
| "apply_kind W Lock i p w = apply_lock i p w"
| "apply_kind W Unlock i p w = apply_unlock i p w"
| "apply_kind W Checkpoint i p w = apply_checkpoint i p w"

text \<open>The AND over the unlocked members, each by the mask of its first table entry.\<close>

definition live_mask :: "ext \<Rightarrow> walk \<Rightarrow> u16" where
  "live_mask W w =
     foldl (\<lambda>a b. a AND b) (MASK_ALL W)
       (map (\<lambda>m. bundle_mask (known_bundle W (w_bundles w) m))
          (filter (\<lambda>m. m \<notin> set (w_locked w)) (w_members w)))"

definition ratchet :: "ext \<Rightarrow> fleet_op \<Rightarrow> walk \<Rightarrow> walk" where
  "ratchet W p w = w\<lparr>w_floor := w_floor w OR live_mask W w, w_prev := chain_hash W p\<rparr>"

definition fleet_step :: "ext \<Rightarrow> bytes \<Rightarrow> nat \<Rightarrow> fleet_op \<Rightarrow> walk \<Rightarrow> fold_error + walk" where
  "fleet_step W identity i p w =
     (case check_shape identity i p w of Some e \<Rightarrow> Inl e
      | None \<Rightarrow>
        let w1 = note_plate p w in
        case check_authority W i p w1 of Some e \<Rightarrow> Inl e
        | None \<Rightarrow>
          (case apply_kind W (op_kind p) i p w1 of Inl e \<Rightarrow> Inl e
           | Inr w2 \<Rightarrow> Inr (ratchet W p w2)))"

section \<open>The walk and its accessors\<close>

type_synonym blob = "fleet_op list"

definition fold_inner :: "ext \<Rightarrow> blob \<Rightarrow> fold_error + walk" where
  "fold_inner W ops =
     (case ops of [] \<Rightarrow> Inl EmptyChain
      | p # _ \<Rightarrow> fold_steps (fleet_step W (op_handle_proof p)) 0 (walk_init W) ops)"

definition fleet_fold :: "ext \<Rightarrow> blob \<Rightarrow> fold_error + bytes list" where
  "fleet_fold W ops = map_sum id w_members (fold_inner W ops)"

definition locked_out :: "ext \<Rightarrow> blob \<Rightarrow> fold_error + bytes list" where
  "locked_out W ops = map_sum id w_locked (fold_inner W ops)"

definition fleet_plates :: "ext \<Rightarrow> blob \<Rightarrow> fold_error + (bytes \<times> bytes) list" where
  "fleet_plates W ops = map_sum id w_plates (fold_inner W ops)"

definition declared_plate :: "ext \<Rightarrow> blob \<Rightarrow> bytes \<Rightarrow> bytes option" where
  "declared_plate W ops d =
     (case fold_inner W ops of Inl _ \<Rightarrow> None | Inr f \<Rightarrow> map_of (w_plates f) d)"

definition locked_plates :: "ext \<Rightarrow> blob \<Rightarrow> fold_error + bytes list" where
  "locked_plates W ops =
     map_sum id (\<lambda>f. map snd (filter (\<lambda>(d, q). d \<in> set (w_locked f)) (w_plates f))) (fold_inner W ops)"

definition declared_plate_kind :: "ext \<Rightarrow> blob \<Rightarrow> bytes \<Rightarrow> byte" where
  "declared_plate_kind W ops d =
     (case fold_inner W ops of Inl _ \<Rightarrow> UNSTATED
      | Inr f \<Rightarrow> (case map_of (w_kinds f) d of Some k \<Rightarrow> k | None \<Rightarrow> UNSTATED))"

definition declared_bundle :: "ext \<Rightarrow> blob \<Rightarrow> bytes \<Rightarrow> key_bundle option" where
  "declared_bundle W ops d =
     (case fold_inner W ops of Inl _ \<Rightarrow> None | Inr f \<Rightarrow> map_of (w_bundles f) d)"

definition declared_mask :: "ext \<Rightarrow> blob \<Rightarrow> bytes \<Rightarrow> u16" where
  "declared_mask W ops d =
     (case fold_inner W ops of Inl _ \<Rightarrow> MASK_BASE W
      | Inr f \<Rightarrow> (case map_of (w_bundles f) d of Some b \<Rightarrow> bundle_mask b | None \<Rightarrow> MASK_BASE W))"

definition fold_full :: "ext \<Rightarrow> blob \<Rightarrow> fold_error + bytes list \<times> u16" where
  "fold_full W ops = map_sum id (\<lambda>f. (w_members f, w_floor f)) (fold_inner W ops)"

definition scheme_floor :: "ext \<Rightarrow> blob \<Rightarrow> fold_error + u16" where
  "scheme_floor W ops = map_sum id snd (fold_full W ops)"

definition fold_with_ts :: "ext \<Rightarrow> blob \<Rightarrow> fold_error + bytes list \<times> i64" where
  "fold_with_ts W ops =
     map_sum id (\<lambda>members. (members, if ops = [] then 0 else op_time (last ops))) (fleet_fold W ops)"

definition is_member :: "ext \<Rightarrow> blob \<Rightarrow> bytes \<Rightarrow> bool" where
  "is_member W ops d = (case fleet_fold W ops of Inl _ \<Rightarrow> False | Inr m \<Rightarrow> d \<in> set m)"

definition was_member_at :: "ext \<Rightarrow> blob \<Rightarrow> bytes \<Rightarrow> i64 \<Rightarrow> bool" where
  "was_member_at W ops d t =
     (if (case locked_out W ops of Inl _ \<Rightarrow> True | Inr l \<Rightarrow> d \<in> set l) then False
      else let upto = length (takeWhile (\<lambda>p. sint (op_time p) \<le> sint t) ops) in
        if upto = 0 then False
        else (case fleet_fold W (take upto ops) of Inl _ \<Rightarrow> False | Inr m \<Rightarrow> d \<in> set m))"

definition head :: "ext \<Rightarrow> blob \<Rightarrow> bytes" where
  "head W ops = (if ops = [] then zero32 else chain_hash W (last ops))"

definition genesis_hash :: "ext \<Rightarrow> blob \<Rightarrow> bytes option" where
  "genesis_hash W ops = (case ops of [] \<Rightarrow> None | p # _ \<Rightarrow> Some (chain_hash W p))"

definition genesis_handle_proof :: "blob \<Rightarrow> bytes option" where
  "genesis_handle_proof ops = (case ops of [] \<Rightarrow> None | p # _ \<Rightarrow> Some (op_handle_proof p))"

definition genesis_identity_pubkey :: "blob \<Rightarrow> bytes option" where
  "genesis_identity_pubkey ops = (case ops of [] \<Rightarrow> None | p # _ \<Rightarrow> Some (op_identity_pubkey p))"

definition genesis_identity_matches :: "ext \<Rightarrow> blob \<Rightarrow> bytes \<Rightarrow> bool" where
  "genesis_identity_matches W ops seed =
     (case ops of [] \<Rightarrow> False | p # _ \<Rightarrow> op_identity_pubkey p = ed_public W seed)"

definition latest_checkpoint :: "blob \<Rightarrow> (u64 \<times> bytes \<times> u64) option" where
  "latest_checkpoint ops =
     (case filter (\<lambda>p. op_kind p = Checkpoint) (rev ops) of [] \<Rightarrow> None
      | p # _ \<Rightarrow> Some (op_ckpt_k p, op_ckpt_commit p, op_ckpt_fanout_epoch p))"

end
