(* ===== verification/Fleet_Safety.thy ===== *)
theory Fleet_Safety
  imports Fleet_Fold
begin

text \<open>
  What the fold of src/src/fleet.rs guarantees about every chain it accepts: the walk state is
  well formed, the floor only rises, membership changes only with the device's own signature,
  every op is signed by an unlocked member at the floor, the epoch spine counts from one, a fleet
  with nobody left unlocked is final, and the head determines the chain.
\<close>

section \<open>Reading one accepted step\<close>

lemma note_plate_sel [simp]:
  "w_members (note_plate p w) = w_members w" "w_locked (note_plate p w) = w_locked w"
  "w_bundles (note_plate p w) = w_bundles w" "w_floor (note_plate p w) = w_floor w"
  "w_prev (note_plate p w) = w_prev w" "w_last_k (note_plate p w) = w_last_k w"
  by (simp_all add: note_plate_def)

lemma live_mask_note_plate [simp]: "live_mask W (note_plate p w) = live_mask W w"
  by (simp add: live_mask_def)

lemma ratchet_sel [simp]:
  "w_members (ratchet W p w) = w_members w" "w_locked (ratchet W p w) = w_locked w"
  "w_bundles (ratchet W p w) = w_bundles w" "w_plates (ratchet W p w) = w_plates w"
  "w_kinds (ratchet W p w) = w_kinds w" "w_last_k (ratchet W p w) = w_last_k w"
  "w_prev (ratchet W p w) = chain_hash W p" "w_floor (ratchet W p w) = w_floor w OR live_mask W w"
  by (simp_all add: ratchet_def)

lemma known_bundle_note_plate [simp]: "verify_with W p (note_plate q w) = verify_with W p w"
  by (simp only: verify_with_def note_plate_sel)

lemma fleet_step_Inr:
  "fleet_step W hp i p w = Inr w' \<longleftrightarrow>
     check_shape hp i p w = None \<and> check_authority W i p (note_plate p w) = None \<and>
     (\<exists>w2. apply_kind W (op_kind p) i p (note_plate p w) = Inr w2 \<and> w' = ratchet W p w2)"
  by (auto simp: fleet_step_def Let_def split: option.splits sum.splits)

lemma apply_kind_Inr:
  "apply_kind W k i p w = Inr w' \<longleftrightarrow>
     (case k of
        Genesis \<Rightarrow> apply_genesis W i p w = Inr w' | Declare \<Rightarrow> apply_declare i p w = Inr w'
      | Add \<Rightarrow> apply_add W i p w = Inr w' | Remove \<Rightarrow> apply_remove W i p w = Inr w'
      | Lock \<Rightarrow> apply_lock i p w = Inr w' | Unlock \<Rightarrow> apply_unlock i p w = Inr w'
      | Checkpoint \<Rightarrow> apply_checkpoint i p w = Inr w')"
  by (cases k) simp_all

text \<open>The effect of each kind on the walk, its guards read off.\<close>

lemma apply_genesis_Inr:
  "apply_genesis W i p w = Inr w' \<longleftrightarrow>
     i = 0 \<and> w_members w = [] \<and> op_signer p = op_device p \<and> op_identity_pubkey p \<noteq> zero32 \<and>
     (op_identity_sig p = [] \<or> verify_identity_binding W p) \<and> w' = w\<lparr>w_members := [op_device p]\<rparr>"
  by (auto simp: apply_genesis_def)

lemma apply_declare_Inr:
  "apply_declare i p w = Inr w' \<longleftrightarrow>
     op_signer p = op_device p \<and> op_device p \<in> set (w_members w) \<and>
     (\<exists>b. op_bundle p = Some b \<and> covers (egg_mask (op_sigs p)) (bundle_mask b) \<and>
        (\<forall>old. map_of (w_bundles w) (op_device p) = Some old \<longrightarrow> covers (bundle_mask b) (bundle_mask old)) \<and>
        w' = w\<lparr>w_bundles := AList.update (op_device p) b (w_bundles w)\<rparr>)"
  by (auto simp: apply_declare_def split: option.splits)

lemma apply_add_Inr:
  "apply_add W i p w = Inr w' \<longleftrightarrow>
     op_signer p \<in> set (w_members w) \<and> op_device p \<notin> set (w_members w) \<and>
     covers (bundle_mask (joined_bundle W p)) (w_floor w) \<and>
     verify_consent W p (joined_bundle W p) (bundle_mask (joined_bundle W p) OR w_floor w) \<and>
     abs_diff_i64 (op_time p) (op_consent_t p) \<le> CONSENT_WINDOW_OSC W \<and>
     w' = w\<lparr>w_members := w_members w @ [op_device p],
            w_bundles := w_bundles w @ [(op_device p, joined_bundle W p)]\<rparr>"
  by (auto simp: apply_add_def Let_def)

lemma check_removal_None:
  "check_removal W i p w = None \<longleftrightarrow>
     (if op_consent p = [] then op_signer p = op_device p
      else op_signer p \<noteq> op_device p \<and>
        verify_depart_consent W p (known_bundle W (w_bundles w) (op_device p)) (w_floor w) \<and>
        abs_diff_i64 (op_time p) (op_consent_t p) \<le> CONSENT_WINDOW_OSC W)"
  by (auto simp: check_removal_def)

lemma apply_remove_Inr:
  "apply_remove W i p w = Inr w' \<longleftrightarrow>
     op_signer p \<in> set (w_members w) \<and> check_removal W i p w = None \<and> op_device p \<in> set (w_members w) \<and>
     w' = w\<lparr>w_members := filter (\<lambda>m. m \<noteq> op_device p) (w_members w),
            w_locked := filter (\<lambda>m. m \<noteq> op_device p) (w_locked w)\<rparr>"
  by (auto simp: apply_remove_def Let_def filter_neq_length_eq split: option.splits)

lemma apply_lock_Inr:
  "apply_lock i p w = Inr w' \<longleftrightarrow>
     op_signer p \<in> set (w_members w) \<and> op_device p \<in> set (w_members w) \<and> op_device p \<noteq> op_signer p \<and>
     op_device p \<notin> set (w_locked w) \<and> w' = w\<lparr>w_locked := w_locked w @ [op_device p]\<rparr>"
  by (auto simp: apply_lock_def)

lemma apply_unlock_Inr:
  "apply_unlock i p w = Inr w' \<longleftrightarrow>
     op_signer p \<in> set (w_members w) \<and> op_device p \<in> set (w_locked w) \<and>
     w' = w\<lparr>w_locked := filter (\<lambda>m. m \<noteq> op_device p) (w_locked w)\<rparr>"
  by (auto simp: apply_unlock_def Let_def filter_neq_length_eq)

lemma apply_checkpoint_Inr:
  "apply_checkpoint i p w = Inr w' \<longleftrightarrow>
     op_signer p \<in> set (w_members w) \<and> op_ckpt_k p \<noteq> 0 \<and> op_ckpt_commit p \<noteq> zero32 \<and>
     op_device p = op_signer p \<and> op_ckpt_k p = w_last_k w + 1 \<and> w' = w\<lparr>w_last_k := op_ckpt_k p\<rparr>"
  by (auto simp: apply_checkpoint_def)

lemmas apply_Inr = apply_genesis_Inr apply_declare_Inr apply_add_Inr apply_remove_Inr apply_lock_Inr
  apply_unlock_Inr apply_checkpoint_Inr

lemma check_authority_None:
  "check_authority W i p w = None \<longleftrightarrow>
     (\<forall>b. op_bundle p = Some b \<longrightarrow> bundle_ed25519 W b = op_device p) \<and>
     op_signer p \<notin> set (w_locked w) \<and> covers (egg_mask (op_sigs p)) (w_floor w) \<and>
     verify_sigs W p (verify_with W p w)"
  by (auto simp: check_authority_def split: option.splits)

lemma fleet_step_apply:
  "fleet_step W hp i p w = Inr w' \<Longrightarrow>
     \<exists>w2. apply_kind W (op_kind p) i p (note_plate p w) = Inr w2 \<and> w' = ratchet W p w2"
  by (simp add: fleet_step_Inr)

section \<open>The walk invariant\<close>

definition wf_walk :: "ext \<Rightarrow> walk \<Rightarrow> bool" where
  "wf_walk W w \<longleftrightarrow>
     distinct (w_members w) \<and> distinct (w_locked w) \<and> set (w_locked w) \<subseteq> set (w_members w) \<and>
     covers (w_floor w) (MASK_BASE W) \<and> covers (MASK_ALL W) (w_floor w) \<and>
     (\<forall>(d, b) \<in> set (w_bundles w). bundle_ed25519 W b = d)"

lemma live_mask_bounded: "covers (MASK_ALL W) (live_mask W w)"
proof -
  have "covers m (foldl (\<lambda>a b. a AND b) m xs)" for m :: u16 and xs
    by (induction xs rule: rev_induct) (auto simp: covers_bits bit_and_iff)
  then show ?thesis by (simp add: live_mask_def)
qed

lemma joined_bundle_ed25519:
  "check_authority W i p w = None \<Longrightarrow> bundle_ed25519 W (joined_bundle W p) = op_device p"
  by (auto simp: check_authority_None joined_bundle_def split: option.splits)

lemma set_update_subset: "x \<in> set (AList.update d b bs) \<Longrightarrow> x \<in> set bs \<or> x = (d, b)"
  by (induction bs) (auto split: if_splits)

lemma apply_kind_wf:
  assumes wf: "wf_walk W w" and a: "check_authority W i p w = None"
    and s: "apply_kind W (op_kind p) i p w = Inr w'"
  shows "wf_walk W w'"
  using wf s joined_bundle_ed25519 [OF a] a
  by (cases "op_kind p")
     (auto simp: apply_Inr wf_walk_def check_authority_None dest!: set_update_subset)

lemma wf_walk_note_plate [simp]: "wf_walk W (note_plate p w) \<longleftrightarrow> wf_walk W w"
  by (simp add: wf_walk_def)

lemma wf_walk_ratchet: "wf_walk W w \<Longrightarrow> wf_walk W (ratchet W p w)"
  using live_mask_bounded [of W w] by (auto simp: wf_walk_def covers_of_or covers_bits bit_or_iff)

lemma fleet_step_wf: "wf_walk W w \<Longrightarrow> fleet_step W hp i p w = Inr w' \<Longrightarrow> wf_walk W w'"
  using apply_kind_wf [of W "note_plate p w" i p] wf_walk_ratchet
  by (auto simp: fleet_step_Inr)

interpretation walk_wf: step_invariant "fleet_step W hp" "wf_walk W" for W hp
  by unfold_locales (rule fleet_step_wf)

lemma wf_walk_init: "wf_walk W (walk_init W)"
  by (simp add: wf_walk_def walk_init_def)

lemma fold_inner_hd:
  "ops \<noteq> [] \<Longrightarrow> fold_inner W ops = fold_steps (fleet_step W (op_handle_proof (hd ops))) 0 (walk_init W) ops"
  by (cases ops) (simp_all only: fold_inner_def list.case list.sel simp_thms)

lemma fold_inner_Nil [simp]: "fold_inner W [] = Inl EmptyChain"
  by (simp add: fold_inner_def)

lemma fold_inner_wf: "fold_inner W ops = Inr w \<Longrightarrow> wf_walk W w"
  using walk_wf.run_keeps [OF wf_walk_init] by (cases "ops = []") (auto simp: fold_inner_hd)

section \<open>Prefixes\<close>

lemma fold_inner_append:
  "ops \<noteq> [] \<Longrightarrow> fold_inner W (ops @ rest) =
    (case fold_inner W ops of Inl e \<Rightarrow> Inl e
     | Inr w \<Rightarrow> fold_steps (fleet_step W (op_handle_proof (hd ops))) (length ops) w rest)"
  by (simp add: fold_inner_hd fold_steps_append split: sum.split)

lemma fold_inner_snoc:
  "ops \<noteq> [] \<Longrightarrow> fold_inner W (ops @ [p]) =
    (case fold_inner W ops of Inl e \<Rightarrow> Inl e
     | Inr w \<Rightarrow> fleet_step W (op_handle_proof (hd ops)) (length ops) p w)"
  by (simp add: fold_inner_hd fold_steps_snoc split: sum.split)

text \<open>The walk before any op of an accepted chain, the genesis included.\<close>

definition walk_before :: "ext \<Rightarrow> bytes \<Rightarrow> blob \<Rightarrow> fold_error + walk" where
  "walk_before W hp pre = fold_steps (fleet_step W hp) 0 (walk_init W) pre"

lemma fold_inner_split:
  assumes "fold_inner W (pre @ p # post) = Inr w"
  obtains v v' where "walk_before W (op_handle_proof (hd (pre @ [p]))) pre = Inr v"
    and "fleet_step W (op_handle_proof (hd (pre @ [p]))) (length pre) p v = Inr v'"
    and "pre \<noteq> [] \<Longrightarrow> fold_inner W pre = Inr v"
    and "fold_inner W (pre @ [p]) = Inr v'"
    and "fold_steps (fleet_step W (op_handle_proof (hd (pre @ [p])))) (Suc (length pre)) v' post = Inr w"
proof -
  let ?hp = "op_handle_proof (hd (pre @ [p]))"
  have fi: "fold_inner W (pre @ p # qs) = fold_steps (fleet_step W ?hp) 0 (walk_init W) (pre @ p # qs)" for qs
    by (simp add: fold_inner_hd hd_append)
  obtain v where v: "fold_steps (fleet_step W ?hp) 0 (walk_init W) pre = Inr v"
    using assms unfolding fi fold_steps_append by (auto split: sum.splits)
  then obtain v' where v': "fleet_step W ?hp (length pre) p v = Inr v'"
      and r: "fold_steps (fleet_step W ?hp) (Suc (length pre)) v' post = Inr w"
    using assms unfolding fi fold_steps_append by (auto split: sum.splits)
  have "fold_inner W (pre @ [p]) = Inr v'"
    using fi [of "[]"] v v' by (simp add: fold_steps_snoc)
  moreover have "pre \<noteq> [] \<Longrightarrow> fold_inner W pre = Inr v"
    using v by (simp add: fold_inner_hd hd_append)
  ultimately show ?thesis using that v v' r by (simp add: walk_before_def)
qed

lemma fold_inner_prefix:
  "fold_inner W (pre @ post) = Inr w \<Longrightarrow> pre \<noteq> [] \<Longrightarrow> \<exists>v. fold_inner W pre = Inr v"
  by (auto simp: fold_inner_append split: sum.splits)

lemma walk_before_wf: "walk_before W hp pre = Inr v \<Longrightarrow> wf_walk W v"
  unfolding walk_before_def by (rule walk_wf.run_keeps [OF wf_walk_init])

lemma fold_inner_prev: "fold_inner W ops = Inr w \<Longrightarrow> w_prev w = head W ops"
proof (induction ops rule: rev_induct)
  case (snoc p ops)
  then obtain v v' where "fleet_step W (op_handle_proof (hd (ops @ [p]))) (length ops) p v = Inr v'"
    and "fold_inner W (ops @ [p]) = Inr v'" by (metis fold_inner_split)
  with snoc.prems show ?case by (auto simp: fleet_step_Inr head_def)
qed (simp add: fold_inner_def)

lemma walk_before_prev: "walk_before W hp pre = Inr v \<Longrightarrow> w_prev v = head W pre"
proof (induction pre arbitrary: v rule: rev_induct)
  case (snoc p ops)
  then show ?case
    by (auto simp: walk_before_def fold_steps_snoc head_def fleet_step_Inr split: sum.splits)
qed (simp add: walk_before_def walk_init_def head_def)

section \<open>The floor\<close>

lemma apply_kind_floor: "apply_kind W k i p w = Inr w' \<Longrightarrow> w_floor w' = w_floor w"
  by (cases k) (auto simp: apply_Inr)

interpretation floor_rises: step_monotone "fleet_step W hp" "\<lambda>v w. covers (w_floor w) (w_floor v)" for W hp
proof unfold_locales
  show "covers (w_floor s) (w_floor s)" for s by simp
  show "covers (w_floor u) (w_floor s)" if "covers (w_floor t) (w_floor s)" "covers (w_floor u) (w_floor t)"
    for s t u using covers_trans [OF that(2,1)] .
  show "covers (w_floor s') (w_floor s)" if "fleet_step W hp i x s = Inr s'" for i x s s'
    using that by (auto simp: fleet_step_Inr dest: apply_kind_floor intro: covers_or_left)
qed

section \<open>Membership changes\<close>

text \<open>\<open>own_signature W d p\<close>: the chain holds, inside the op \<open>p\<close>, an Ed25519 signature by \<open>d\<close>'s own
  key over the statement that admits \<open>d\<close> (its genesis op, or its join request).\<close>

definition joined_by_own_key :: "ext \<Rightarrow> bytes \<Rightarrow> fleet_op \<Rightarrow> bool" where
  "joined_by_own_key W d p \<longleftrightarrow> op_device p = d \<and>
     (op_kind p = Genesis \<and> (\<exists>e \<in> set (op_sigs p). verify_ed25519 W d (signing_bytes W p) (egg_sig e))
      \<or> op_kind p = Add \<and> (\<exists>e \<in> set (op_consent p).
           verify_ed25519 W d
             (bindreq_signing_bytes_plated (op_handle_proof p) d (op_consent_t p) (op_plate p) (op_plate_kind p))
             (egg_sig e)))"

definition left_by_own_key :: "ext \<Rightarrow> bytes \<Rightarrow> fleet_op \<Rightarrow> bool" where
  "left_by_own_key W d p \<longleftrightarrow> op_device p = d \<and> op_kind p = Remove \<and>
     (op_signer p = d \<and> (\<exists>e \<in> set (op_sigs p). verify_ed25519 W d (signing_bytes W p) (egg_sig e))
      \<or> (\<exists>e \<in> set (op_consent p).
           verify_ed25519 W d (departreq_signing_bytes (op_handle_proof p) d (op_consent_t p)) (egg_sig e)))"

lemma base_bit: "ext_ok W \<Longrightarrow> bit (MASK_BASE W) (unat (ED25519 W))"
  by (simp add: MASK_BASE_def bit_scheme_bit ext_ok_def)

lemma unat_scheme_inj: "unat (a :: byte) = unat b \<longleftrightarrow> a = b"
  by (simp add: word_unat_eq_iff)

lemma pubkey_ed25519:
  "pubkey b (ED25519 W) = Some pk \<Longrightarrow> bundle_ed25519 W b = pk"
  by (simp add: bundle_ed25519_def)

text \<open>A list of eggs that meets a requirement above the base holds an Ed25519 egg under the
  bundle's Ed25519 key.\<close>

lemma verify_eggs_ed25519:
  assumes W: "ext_ok W" and v: "verify_eggs W es b msg r" and r: "covers r (MASK_BASE W)"
  shows "\<exists>e \<in> set es. verify_ed25519 W (bundle_ed25519 W b) msg (egg_sig e)"
proof -
  have "bit r (unat (ED25519 W))" using base_bit [OF W] r by (simp add: covers_bits)
  from verify_eggs_required [OF v this] obtain e pk where e: "e \<in> set es"
    "egg_scheme e = ED25519 W" "pubkey b (egg_scheme e) = Some pk" "verify_egg W (egg_scheme e) pk msg (egg_sig e)"
    by (auto simp: unat_scheme_inj)
  then show ?thesis using pubkey_ed25519 [of b W pk] by (auto simp: verify_egg_def)
qed

text \<open>The same for the op's own signatures: an Ed25519 egg under the signer's key.\<close>

lemma verify_sigs_ed25519:
  assumes W: "ext_ok W" and v: "verify_sigs W p b" and r: "covers (egg_mask (op_sigs p)) r" "covers r (MASK_BASE W)"
  shows "\<exists>e \<in> set (op_sigs p). verify_ed25519 W (op_signer p) (signing_bytes W p) (egg_sig e)"
proof -
  have "bit (egg_mask (op_sigs p)) (unat (ED25519 W))"
    using base_bit [OF W] r by (simp add: covers_bits)
  then obtain e where e: "e \<in> set (op_sigs p)" "egg_scheme e = ED25519 W"
    by (auto simp: bit_egg_mask unat_scheme_inj)
  moreover have "verify_sig_egg W p b e"
    using v e(1) by (simp add: verify_sigs_def list_all_iff)
  ultimately show ?thesis by (auto simp: verify_sig_egg_def)
qed

lemma known_bundle_ed25519: "wf_walk W w \<Longrightarrow> bundle_ed25519 W (known_bundle W (w_bundles w) d) = d"
  by (auto simp: known_bundle_def wf_walk_def dest!: map_of_SomeD split: option.splits)

lemma step_signer_ed25519:
  assumes W: "ext_ok W" and wf: "wf_walk W w" and s: "fleet_step W hp i p w = Inr w'"
  shows "\<exists>e \<in> set (op_sigs p). verify_ed25519 W (op_signer p) (signing_bytes W p) (egg_sig e)"
  using s wf by (intro verify_sigs_ed25519 [OF W, of p "verify_with W p w" "w_floor w"])
    (auto simp: fleet_step_Inr check_authority_None wf_walk_def)

lemma step_join:
  assumes W: "ext_ok W" and wf: "wf_walk W w" and s: "fleet_step W hp i p w = Inr w'"
    and d: "d \<in> set (w_members w')" "d \<notin> set (w_members w)"
  shows "joined_by_own_key W d p"
proof -
  from s obtain w2 where a: "check_authority W i p (note_plate p w) = None"
    and k: "apply_kind W (op_kind p) i p (note_plate p w) = Inr w2" and w': "w' = ratchet W p w2"
    by (auto simp: fleet_step_Inr)
  from k d w' have kd: "op_device p = d" "op_kind p = Genesis \<and> op_signer p = d \<or> op_kind p = Add"
    by (cases "op_kind p"; auto simp: apply_Inr)+
  show ?thesis
  proof (cases "op_kind p")
    case Genesis
    then show ?thesis using step_signer_ed25519 [OF W wf s] kd by (auto simp: joined_by_own_key_def)
  next
    case Add
    let ?j = "joined_bundle W p"
    have "verify_consent W p ?j (bundle_mask ?j OR w_floor w)"
      using k Add by (auto simp: apply_Inr)
    moreover have "covers (bundle_mask ?j OR w_floor w) (MASK_BASE W)"
      using wf by (auto simp: wf_walk_def covers_bits bit_or_iff)
    ultimately show ?thesis
      using verify_eggs_ed25519 [OF W, of "op_consent p" ?j _ "bundle_mask ?j OR w_floor w"]
        joined_bundle_ed25519 [OF a] kd(1) Add
      by (auto simp: joined_by_own_key_def verify_consent_def)
  qed (use kd in auto)
qed

lemma step_leave:
  assumes W: "ext_ok W" and wf: "wf_walk W w" and s: "fleet_step W hp i p w = Inr w'"
    and d: "d \<in> set (w_members w)" "d \<notin> set (w_members w')"
  shows "left_by_own_key W d p"
proof -
  from s obtain w2 where k: "apply_kind W (op_kind p) i p (note_plate p w) = Inr w2"
    and w': "w' = ratchet W p w2" by (auto simp: fleet_step_Inr)
  from k d w' have kd: "op_device p = d" "op_kind p = Remove"
    and c: "check_removal W i p (note_plate p w) = None"
    by (cases "op_kind p"; auto simp: apply_Inr)+
  show ?thesis
  proof (cases "op_consent p = []")
    case True
    then have "op_signer p = d" using c kd by (simp add: check_removal_None)
    then show ?thesis using step_signer_ed25519 [OF W wf s] kd by (auto simp: left_by_own_key_def)
  next
    case False
    then have "verify_depart_consent W p (known_bundle W (w_bundles w) d) (w_floor w)"
      using c kd by (simp add: check_removal_None)
    then show ?thesis
      using verify_eggs_ed25519 [OF W, of "op_consent p" "known_bundle W (w_bundles w) d" _ "w_floor w"]
        known_bundle_ed25519 [OF wf, of d] wf kd
      by (auto simp: left_by_own_key_def verify_depart_consent_def wf_walk_def)
  qed
qed

lemma run_members:
  assumes W: "ext_ok W" and wf: "wf_walk W w" and r: "fold_steps (fleet_step W hp) i w ops = Inr w'"
  shows "(\<forall>d \<in> set (w_members w') - set (w_members w). \<exists>p \<in> set ops. joined_by_own_key W d p)
    \<and> (\<forall>d \<in> set (w_members w) - set (w_members w'). \<exists>p \<in> set ops. left_by_own_key W d p)"
  using wf r
proof (induction ops arbitrary: i w)
  case (Cons p ops)
  then obtain v where v: "fleet_step W hp i p w = Inr v" and r: "fold_steps (fleet_step W hp) (Suc i) v ops = Inr w'"
    by (auto split: sum.splits)
  show ?case
    using Cons.IH [OF fleet_step_wf [OF Cons.prems(1) v] r] step_join [OF W Cons.prems(1) v]
      step_leave [OF W Cons.prems(1) v] by auto
qed simp

section \<open>The epoch spine\<close>

definition ckpts :: "blob \<Rightarrow> fleet_op list" where
  "ckpts ops = filter (\<lambda>p. op_kind p = Checkpoint) ops"

lemma ckpts_snoc [simp]: "ckpts (ops @ [p]) = ckpts ops @ (if op_kind p = Checkpoint then [p] else [])"
  by (simp add: ckpts_def)

lemma apply_kind_spine:
  "apply_kind W (op_kind p) i p w = Inr w' \<Longrightarrow>
     (if op_kind p = Checkpoint
      then w_last_k w' = w_last_k w + 1 \<and> op_ckpt_k p = w_last_k w + 1 \<and> op_ckpt_commit p \<noteq> zero32
        \<and> op_ckpt_k p \<noteq> 0
      else w_last_k w' = w_last_k w)"
  by (cases "op_kind p") (auto simp: apply_Inr)

lemma walk_before_spine:
  "walk_before W hp ops = Inr w \<Longrightarrow>
     map op_ckpt_k (ckpts ops) = map of_nat [1..<Suc (length (ckpts ops))] \<and>
     w_last_k w = of_nat (length (ckpts ops)) \<and>
     (\<forall>p \<in> set (ckpts ops). op_ckpt_commit p \<noteq> zero32 \<and> op_ckpt_k p \<noteq> 0)"
proof (induction ops arbitrary: w rule: rev_induct)
  case Nil
  then show ?case by (auto simp: ckpts_def walk_before_def walk_init_def)
next
  case (snoc p ops)
  then obtain v where v: "walk_before W hp ops = Inr v" and s: "fleet_step W hp (length ops) p v = Inr w"
    by (auto simp: walk_before_def fold_steps_snoc split: sum.splits)
  from s have k: "if op_kind p = Checkpoint
      then w_last_k w = w_last_k v + 1 \<and> op_ckpt_k p = w_last_k v + 1 \<and> op_ckpt_commit p \<noteq> zero32 \<and> op_ckpt_k p \<noteq> 0
      else w_last_k w = w_last_k v"
    using apply_kind_spine [of W p "length ops" "note_plate p v"] by (auto simp: fleet_step_Inr)
  show ?case
    using snoc.IH [OF v] k by (cases "op_kind p = Checkpoint") (auto simp: add.commute)
qed

lemma fold_inner_walk: "fold_inner W ops = Inr w \<Longrightarrow> walk_before W (op_handle_proof (hd ops)) ops = Inr w"
  by (cases "ops = []") (auto simp: walk_before_def fold_inner_hd)

section \<open>Op equality behind the head\<close>

lemma check_shape_gates:
  assumes "check_shape hp i p w = None"
  shows "op_kind p \<noteq> Checkpoint \<Longrightarrow> op_ckpt_k p = 0 \<and> op_ckpt_commit p = zero32 \<and> op_ckpt_fanout_epoch p = 0"
    and "\<not> (op_kind p = Add \<or> op_kind p = Declare) \<Longrightarrow> op_bundle p = None"
    and "\<not> (plate_kind_op (op_kind p) \<and> plated (op_version p)) \<Longrightarrow> op_plate p = None"
    and "\<not> (plate_kind_op (op_kind p) \<and> op_version p = V4) \<Longrightarrow> op_plate_kind p = UNSTATED"
  using assms by (auto simp: check_shape_def split: if_splits)

lemma chain_preimage_eq:
  assumes W: "ext_ok W" and wf: "wf_op W p" "wf_op W q" and fr: "framed (op_version p)" "framed (op_version q)"
    and sp: "check_shape hp i p v = None" and sq: "check_shape hp' j q w = None"
    and eq: "chain_preimage W p = chain_preimage W q"
  shows "p = q"
proof -
  note i = chain_preimage_inj [OF W wf fr eq]
  from i have h: "op_version p = op_version q" "op_kind p = op_kind q" "op_handle_proof p = op_handle_proof q"
    "op_prev_hash p = op_prev_hash q" "op_device p = op_device q" "op_time p = op_time q"
    "op_signer p = op_signer q" "op_identity_pubkey p = op_identity_pubkey q" "op_consent_t p = op_consent_t q"
    by (simp_all add: signed_head_def)
  have c: "op_ckpt_k p = op_ckpt_k q \<and> op_ckpt_commit p = op_ckpt_commit q
      \<and> op_ckpt_fanout_epoch p = op_ckpt_fanout_epoch q"
    using i h(2) check_shape_gates(1) [OF sp] check_shape_gates(1) [OF sq]
    by (cases "op_kind p = Checkpoint") (auto simp: gated_ckpt_def)
  have b: "op_bundle p = op_bundle q"
    using i h(2) fr check_shape_gates(2) [OF sp] check_shape_gates(2) [OF sq]
    by (cases "op_kind p = Add \<or> op_kind p = Declare") (auto simp: gated_bundle_def)
  have pl: "op_plate p = op_plate q \<and> op_plate_kind p = op_plate_kind q"
    using i h(1,2) check_shape_gates(3,4) [OF sp] check_shape_gates(3,4) [OF sq]
    by (cases "plate_kind_op (op_kind p) \<and> plated (op_version p)"; cases "op_version p = V4")
       (auto simp: gated_plate_def plated_def)
  from i h c b pl show ?thesis by (intro fleet_op.equality) auto
qed

text \<open>Two accepted chains whose heads agree agree op by op from the end, unless two of their ops
  collide under the hash or an op hashes to the all-zero anchor.\<close>

definition hash_clash :: "ext \<Rightarrow> blob \<Rightarrow> blob \<Rightarrow> bool" where
  "hash_clash W a b \<longleftrightarrow>
     (\<exists>p \<in> set a. \<exists>q \<in> set b. chain_preimage W p \<noteq> chain_preimage W q \<and> chain_hash W p = chain_hash W q)
     \<or> (\<exists>p \<in> set a \<union> set b. chain_hash W p = zero32)"

lemma hash_clash_mono: "hash_clash W a b \<Longrightarrow> set a \<subseteq> set a' \<Longrightarrow> set b \<subseteq> set b' \<Longrightarrow> hash_clash W a' b'"
  unfolding hash_clash_def by blast

lemma walk_before_head_inj:
  assumes W: "ext_ok W"
  shows "walk_before W hp a = Inr v \<Longrightarrow> walk_before W hp' b = Inr w \<Longrightarrow>
    \<forall>p \<in> set a \<union> set b. wf_op W p \<and> framed (op_version p) \<Longrightarrow> \<not> hash_clash W a b \<Longrightarrow>
    head W a = head W b \<Longrightarrow> a = b"
proof (induction a arbitrary: b v w rule: rev_induct)
  case Nil
  then show ?case by (cases b rule: rev_cases) (auto simp: head_def hash_clash_def)
next
  case (snoc p a)
  then have "chain_hash W p \<noteq> zero32" by (auto simp: hash_clash_def)
  with snoc.prems(5) obtain b' q where b: "b = b' @ [q]" by (cases b rule: rev_cases) (auto simp: head_def)
  from snoc.prems(1) obtain va where va: "walk_before W hp a = Inr va" "fleet_step W hp (length a) p va = Inr v"
    by (auto simp: walk_before_def fold_steps_snoc split: sum.splits)
  from snoc.prems(2) b obtain vb where vb: "walk_before W hp' b' = Inr vb" "fleet_step W hp' (length b') q vb = Inr w"
    by (auto simp: walk_before_def fold_steps_snoc split: sum.splits)
  have ch: "chain_hash W p = chain_hash W q" using snoc.prems(5) b by (simp add: head_def)
  then have "chain_preimage W p = chain_preimage W q"
    using snoc.prems(4) b by (auto simp: hash_clash_def)
  moreover have "wf_op W p" "wf_op W q" "framed (op_version p)" "framed (op_version q)"
    using snoc.prems(3) b by auto
  moreover have "check_shape hp (length a) p va = None" "check_shape hp' (length b') q vb = None"
    using va(2) vb(2) by (auto simp: fleet_step_Inr)
  ultimately have pq: "p = q" using chain_preimage_eq [OF W] by blast
  have "op_prev_hash p = w_prev va" "op_prev_hash q = w_prev vb"
    using va(2) vb(2) by (auto simp: fleet_step_Inr check_shape_def split: if_splits)
  then have "head W a = head W b'"
    using pq walk_before_prev [OF va(1)] walk_before_prev [OF vb(1)] by simp
  moreover have "\<not> hash_clash W a b'"
    using snoc.prems(4) b hash_clash_mono [of W a b' "a @ [p]" b] by auto
  ultimately have "a = b'"
    using snoc.IH [OF va(1) vb(1)] snoc.prems(3) b by auto
  with pq b show ?case by simp
qed

section \<open>A fleet with nobody left unlocked\<close>

lemma step_needs_unlocked:
  assumes "fleet_step W hp i p w = Inr w'" "i \<noteq> 0"
  shows "op_signer p \<in> set (w_members w) - set (w_locked w)"
proof -
  from assms(1) obtain w2 where "apply_kind W (op_kind p) i p (note_plate p w) = Inr w2"
    and a: "check_authority W i p (note_plate p w) = None" by (auto simp: fleet_step_Inr)
  then have "op_signer p \<in> set (w_members w)" using assms(2) by (cases "op_kind p") (auto simp: apply_Inr)
  with a show ?thesis by (auto simp: check_authority_None)
qed

lemma run_dead:
  assumes "set (w_members w) \<subseteq> set (w_locked w)" "i \<noteq> 0" "ops \<noteq> []"
  shows "\<exists>e. fold_steps (fleet_step W hp) i w ops = Inl e"
proof -
  obtain p rest where ops: "ops = p # rest" using assms(3) by (cases ops) auto
  have "fleet_step W hp i p w \<noteq> Inr w'" for w'
    using step_needs_unlocked [of W hp i p w w'] assms(1,2) by auto
  then obtain e where "fleet_step W hp i p w = Inl e" by (cases "fleet_step W hp i p w") auto
  then show ?thesis using ops by simp
qed

text \<open>The ops that end a lock: an unlock of the device, or its removal.\<close>

definition releases :: "bytes \<Rightarrow> fleet_op \<Rightarrow> bool" where
  "releases d p \<longleftrightarrow> op_device p = d \<and> (op_kind p = Unlock \<or> op_kind p = Remove)"

lemma step_keeps_lock:
  assumes "fleet_step W hp i p w = Inr w'" "i \<noteq> 0" "d \<in> set (w_locked w)" "\<not> releases d p"
  shows "d \<in> set (w_locked w') \<and> op_signer p \<noteq> d"
proof -
  from assms(1) obtain w2 where k: "apply_kind W (op_kind p) i p (note_plate p w) = Inr w2" "w' = ratchet W p w2"
    by (auto simp: fleet_step_Inr)
  then have "d \<in> set (w_locked w')" using assms(3,4)
    by (cases "op_kind p") (auto simp: apply_Inr releases_def)
  then show ?thesis using step_needs_unlocked [OF assms(1,2)] assms(3) by auto
qed

lemma lock_run:
  "fold_steps (fleet_step W hp) i w ops = Inr w' \<Longrightarrow> i \<noteq> 0 \<Longrightarrow> d \<in> set (w_locked w) \<Longrightarrow> \<forall>p \<in> set ops. \<not> releases d p \<Longrightarrow>
     d \<in> set (w_locked w') \<and> (\<forall>p \<in> set ops. op_signer p \<noteq> d)"
proof (induction ops arbitrary: i w)
  case (Cons p ops)
  from Cons.prems(1) obtain v where v: "fleet_step W hp i p w = Inr v" "fold_steps (fleet_step W hp) (Suc i) v ops = Inr w'"
    by (auto split: sum.splits)
  with Cons.prems step_keeps_lock [OF v(1), of d] Cons.IH [OF v(2)] show ?case by simp
qed simp

text \<open>A locked device is removed only with its own consent: it cannot sign the removal itself.\<close>

lemma step_releases:
  assumes W: "ext_ok W" and wf: "wf_walk W w" and s: "fleet_step W hp i p w = Inr w'" and l: "d \<in> set (w_locked w)"
    and r: "op_device p = d" "op_kind p = Remove"
  shows "left_by_own_key W d p"
proof (rule step_leave [OF W wf s])
  from s obtain w2 where k: "apply_remove W i p (note_plate p w) = Inr w2" "w' = ratchet W p w2"
    using r(2) by (auto simp: fleet_step_Inr)
  show "d \<in> set (w_members w)" using l wf by (auto simp: wf_walk_def)
  show "d \<notin> set (w_members w')" using k r(1) by (auto simp: apply_Inr)
qed

section \<open>Where an error comes from\<close>

fun err_index :: "fold_error \<Rightarrow> nat option" where
  "err_index EmptyChain = None" | "err_index NotGenesisFirst = None"
| "err_index GenesisNotSelfSigned = None" | "err_index BadIdentityBinding = None"
| "err_index (StrayIdentityBinding i) = Some i" | "err_index (BadConsent i) = Some i"
| "err_index (ConsentStale i) = Some i" | "err_index (ImpossibleTime i) = Some i"
| "err_index (StrayConsent i) = Some i" | "err_index (StrayCheckpoint i) = Some i"
| "err_index (CheckpointMalformed i) = Some i" | "err_index (CheckpointOutOfSequence i) = Some i"
| "err_index (StrayBundle i) = Some i" | "err_index (StrayPlate i) = Some i"
| "err_index (StrayPlateKind i) = Some i" | "err_index (BadBundle i) = Some i"
| "err_index (DeclareNotSelfSigned i) = Some i" | "err_index (CapabilityRegression i) = Some i"
| "err_index (BelowFloor i) = Some i" | "err_index (DeclareUnproven i) = Some i"
| "err_index (InsufficientEggs i) = Some i" | "err_index (BundleMismatch i) = Some i"
| "err_index (RemoveNotSelfSigned i) = Some i" | "err_index (RemoveApproverIsLeaver i) = Some i"
| "err_index (InconsistentHandleProof i) = Some i" | "err_index (BrokenChain i) = Some i"
| "err_index (BadSignature i) = Some i" | "err_index (SignerNotMember i) = Some i"
| "err_index (SignerLocked i) = Some i" | "err_index (LockMalformed i) = Some i"
| "err_index (AddExistingMember i) = Some i" | "err_index (RemoveNonMember i) = Some i"

definition err_at :: "nat \<Rightarrow> fold_error \<Rightarrow> bool" where
  "err_at i e \<longleftrightarrow> err_index e = Some i \<or> (err_index e = None \<and> e \<noteq> EmptyChain)"

lemma if_some_err: "(if c then Some a else x) = Some e \<Longrightarrow> P a \<Longrightarrow> (x = Some e \<Longrightarrow> P e) \<Longrightarrow> P e"
  by (simp split: if_split_asm)

lemma check_shape_err: "check_shape hp i p w = Some e \<Longrightarrow> err_at i e"
  unfolding check_shape_def by (erule if_some_err, simp add: err_at_def)+ simp

lemma check_authority_err: "check_authority W i p w = Some e \<Longrightarrow> err_at i e"
  by (auto simp: check_authority_def err_at_def split: if_splits)

lemma check_removal_err: "check_removal W i p w = Some e \<Longrightarrow> err_at i e"
  by (auto simp: check_removal_def err_at_def split: if_splits)

lemma apply_kind_err: "apply_kind W k i p w = Inl e \<Longrightarrow> err_at i e"
  by (cases k)
    (auto simp: apply_genesis_def apply_declare_def apply_add_def apply_remove_def apply_lock_def
      apply_unlock_def apply_checkpoint_def Let_def err_at_def [of _ "BadBundle _"]
      dest: check_removal_err split: if_splits option.splits; simp add: err_at_def)+

lemma fleet_step_err: "fleet_step W hp i p w = Inl e \<Longrightarrow> err_at i e"
  by (auto simp: fleet_step_def Let_def split: option.splits sum.splits
      dest: check_shape_err check_authority_err apply_kind_err)

lemma run_err:
  "fold_steps step i s xs = Inl e \<Longrightarrow>
     \<exists>n v. n < length xs \<and> fold_steps step i s (take n xs) = Inr v \<and> step (i + n) (xs ! n) v = Inl e"
proof (induction xs arbitrary: i s)
  case (Cons x xs)
  show ?case
  proof (cases "step i x s")
    case (Inl a)
    then show ?thesis using Cons.prems by (intro exI [of _ 0] exI [of _ s]) simp
  next
    case (Inr t)
    with Cons obtain n v where "n < length xs" "fold_steps step (Suc i) t (take n xs) = Inr v"
      "step (Suc i + n) (xs ! n) v = Inl e" by fastforce
    then show ?thesis using Inr by (intro exI [of _ "Suc n"] exI [of _ v]) simp
  qed
qed simp

section \<open>What an accepted chain guarantees\<close>

text \<open>C1: nobody is conscripted: every member of an accepted chain is there by an op of the chain
  that carries an Ed25519 signature under the member's own key, over its genesis op or over its
  join request with the plate it joins under.\<close>

theorem no_conscription:
  assumes "ext_ok W" and "fold_inner W ops = Inr w" and "d \<in> set (w_members w)"
  shows "\<exists>p \<in> set ops. joined_by_own_key W d p"
proof -
  have "fold_steps (fleet_step W (op_handle_proof (hd ops))) 0 (walk_init W) ops = Inr w"
    using fold_inner_walk [OF assms(2)] by (simp add: walk_before_def)
  from run_members [OF assms(1) wf_walk_init this] assms(3) show ?thesis
    by (auto simp: walk_init_def)
qed

text \<open>C2: nobody is expelled: a device that is a member after a prefix of the chain and not after
  the chain has an op in between that removes it and carries a signature under its own key, the
  op's own signature or the departure request.\<close>

theorem no_expulsion:
  assumes "ext_ok W" and "fold_inner W pre = Inr v" and "fold_inner W (pre @ post) = Inr w"
    and "d \<in> set (w_members v)" and "d \<notin> set (w_members w)"
  shows "\<exists>p \<in> set post. left_by_own_key W d p"
proof -
  have "pre \<noteq> []" using assms(2) by auto
  then have "fold_steps (fleet_step W (op_handle_proof (hd pre))) (length pre) v post = Inr w"
    using assms(2,3) by (simp add: fold_inner_append)
  from run_members [OF assms(1) fold_inner_wf [OF assms(2)] this] assms(4,5) show ?thesis by auto
qed

text \<open>C3: authority: every op of an accepted chain after the genesis is on the same handle, names the
  hash of the op before it, bears a possible time, is signed by a current member that is not
  locked out, carries a scheme for every bit of the floor the earlier ops had reached, and all its
  signatures verify.\<close>

theorem every_op_authorised:
  assumes "fold_inner W (pre @ p # post) = Inr w" and "pre \<noteq> []"
  shows "\<exists>v. fold_inner W pre = Inr v
    \<and> op_handle_proof p = op_handle_proof (hd pre) \<and> op_prev_hash p = head W pre
    \<and> 0 \<le> sint (op_time p) \<and> sint (op_time p) < 2 ^ 62
    \<and> op_signer p \<in> set (w_members v) \<and> op_signer p \<notin> set (w_locked v)
    \<and> covers (egg_mask (op_sigs p)) (w_floor v) \<and> verify_sigs W p (verify_with W p v)"
proof -
  from fold_inner_split [OF assms(1)] assms(2) obtain v v' where v: "fold_inner W pre = Inr v"
    and s: "fleet_step W (op_handle_proof (hd pre)) (length pre) p v = Inr v'" by (metis hd_append2)
  have "op_signer p \<in> set (w_members v) - set (w_locked v)"
    using step_needs_unlocked [OF s] assms(2) by simp
  with v s fold_inner_prev [OF v] show ?thesis
    by (auto simp: fleet_step_Inr check_shape_def check_authority_None OP_TIME_MAX_OSC_def split: if_splits)
qed

text \<open>C4: the answer of a fold is a set of members without repetition, the locked devices are
  among them, and the floor lies between Ed25519 and the full scheme set; every bundle the walk
  keeps belongs to the device it is filed under.\<close>

theorem fold_answer_wf:
  assumes "fold_full W ops = Inr (members, floor)" and "locked_out W ops = Inr locked"
  shows "distinct members \<and> distinct locked \<and> set locked \<subseteq> set members
    \<and> covers floor (MASK_BASE W) \<and> covers (MASK_ALL W) floor
    \<and> (\<forall>d b. declared_bundle W ops d = Some b \<longrightarrow> bundle_ed25519 W b = d)"
proof -
  from assms(1) obtain w where w: "fold_inner W ops = Inr w" "members = w_members w" "floor = w_floor w"
    by (cases "fold_inner W ops") (auto simp: fold_full_def)
  with assms(2) have l: "locked = w_locked w" by (simp add: locked_out_def)
  have "\<forall>d b. declared_bundle W ops d = Some b \<longrightarrow> bundle_ed25519 W b = d"
    using fold_inner_wf [OF w(1)] w(1) by (auto simp: declared_bundle_def wf_walk_def dest!: map_of_SomeD)
  with fold_inner_wf [OF w(1)] w l show ?thesis by (simp add: wf_walk_def)
qed

text \<open>C5: the capability floor is a ratchet: extending an accepted chain never lowers it.\<close>

theorem floor_never_falls:
  assumes "fold_full W pre = Inr (m, f)" and "fold_full W (pre @ post) = Inr (m', f')"
  shows "covers f' f"
proof -
  from assms obtain v w where v: "fold_inner W pre = Inr v" "f = w_floor v"
    and w: "fold_inner W (pre @ post) = Inr w" "f' = w_floor w"
    by (auto simp: fold_full_def map_sum_def split: sum.splits)
  then have "fold_steps (fleet_step W (op_handle_proof (hd pre))) (length pre) v post = Inr w"
    using fold_inner_append [of pre W post] by (cases "pre = []") auto
  from floor_rises.run_grows [OF this] v w show ?thesis by simp
qed

text \<open>C6: the chain is tamper evident: of two accepted chains of framed ops whose heads agree, either
  the chains are equal, or two of their ops have different preimages and the same hash, or one of
  their ops hashes to the all-zero anchor.\<close>

theorem head_determines_chain:
  assumes "ext_ok W" and "fold_inner W a = Inr v" and "fold_inner W b = Inr w"
    and "\<forall>p \<in> set a \<union> set b. wf_op W p \<and> framed (op_version p)"
    and "head W a = head W b" and "\<not> hash_clash W a b"
  shows "a = b"
  using walk_before_head_inj [OF assms(1) fold_inner_walk [OF assms(2)] fold_inner_walk [OF assms(3)]
      assms(4,6,5)] .

text \<open>The epoch spine: the checkpoints of an accepted chain are numbered 1, 2, 3, ... in order,
  none has an empty commitment, and \<open>latest_checkpoint\<close> returns the one with the highest number.\<close>

theorem checkpoint_spine:
  assumes "fold_inner W ops = Inr w"
  shows "map op_ckpt_k (ckpts ops) = map of_nat [1..<Suc (length (ckpts ops))]
    \<and> (\<forall>p \<in> set (ckpts ops). op_ckpt_commit p \<noteq> zero32)
    \<and> map_option fst (latest_checkpoint ops) =
        (if ckpts ops = [] then None else Some (of_nat (length (ckpts ops))))"
proof -
  note sp = walk_before_spine [OF fold_inner_walk [OF assms]]
  have "latest_checkpoint ops = (case rev (ckpts ops) of [] \<Rightarrow> None
      | p # _ \<Rightarrow> Some (op_ckpt_k p, op_ckpt_commit p, op_ckpt_fanout_epoch p))"
    by (simp add: latest_checkpoint_def ckpts_def rev_filter)
  moreover have "op_ckpt_k (last (ckpts ops)) = of_nat (length (ckpts ops))" if "ckpts ops \<noteq> []"
  proof -
    have "last (map op_ckpt_k (ckpts ops)) = last (map of_nat [1..<Suc (length (ckpts ops))])"
      using sp by simp
    moreover have "1 \<le> length (ckpts ops)" using that by (cases "ckpts ops") auto
    ultimately show ?thesis using that by (simp add: last_map)
  qed
  ultimately show ?thesis using sp
    by (cases "ckpts ops" rule: rev_cases) auto
qed

text \<open>A fleet whose members are all locked out (or that has none left) is final: no op, by anyone,
  extends the chain.\<close>

theorem dead_fleet_is_final:
  assumes "fold_inner W ops = Inr w" and "set (w_members w) \<subseteq> set (w_locked w)" and "more_ops \<noteq> []"
  shows "\<exists>e. fold_inner W (ops @ more_ops) = Inl e"
proof -
  have "ops \<noteq> []" using assms(1) by auto
  then show ?thesis
    using assms(1) run_dead [OF assms(2) _ assms(3), of "length ops"] by (simp add: fold_inner_append)
qed

text \<open>C7: a lock holds: however an accepted chain in which a device is locked goes on, either the device
  stays locked and signs nothing, or some op of the continuation releases it; up to the first such op, and
  in it, the device signs nothing, and that op is an unlock of it, signed by an unlocked member, or its
  removal, which carries a signature under the device's own key. So a locked device is active again only
  by a sibling's unlock, or after leaving with its consent and joining anew.\<close>

theorem lock_holds:
  assumes "ext_ok W" and "fold_inner W pre = Inr v" and "d \<in> set (w_locked v)" and "fold_inner W (pre @ post) = Inr w"
  shows "(d \<in> set (w_locked w) \<and> (\<forall>p \<in> set post. op_signer p \<noteq> d \<and> \<not> releases d p)) \<or>
    (\<exists>xs p ys u. post = xs @ p # ys \<and> fold_inner W (pre @ xs) = Inr u \<and> d \<in> set (w_locked u) \<and>
       (\<forall>q \<in> set xs. op_signer q \<noteq> d \<and> \<not> releases d q) \<and>
       op_signer p \<noteq> d \<and> op_signer p \<in> set (w_members u) - set (w_locked u) \<and> op_device p = d \<and>
       (op_kind p = Unlock \<or> op_kind p = Remove \<and> left_by_own_key W d p))"
proof -
  have ne: "pre \<noteq> []" using assms(2) by auto
  then have run: "fold_steps (fleet_step W (op_handle_proof (hd pre))) (length pre) v post = Inr w" and i: "length pre \<noteq> 0"
    using assms(2,4) by (simp_all add: fold_inner_append)
  show ?thesis
  proof (cases "\<exists>p \<in> set post. releases d p")
    case False
    then show ?thesis using lock_run [OF run i assms(3)] by blast
  next
    case True
    then obtain xs p ys where s: "post = xs @ p # ys" "\<forall>q \<in> set xs. \<not> releases d q" "releases d p"
      by (metis split_list_first_prop)
    from run obtain u u' where u: "fold_steps (fleet_step W (op_handle_proof (hd pre))) (length pre) v xs = Inr u"
      and st: "fleet_step W (op_handle_proof (hd pre)) (length pre + length xs) p u = Inr u'"
      unfolding s(1) fold_steps_append by (auto split: sum.splits)
    have f: "fold_inner W (pre @ xs) = Inr u" using ne assms(2) u by (simp add: fold_inner_append)
    note r = lock_run [OF u i assms(3) s(2)]
    have signer: "op_signer p \<in> set (w_members u) - set (w_locked u)"
      using step_needs_unlocked [OF st] i by simp
    have "op_kind p = Unlock \<or> op_kind p = Remove \<and> left_by_own_key W d p"
      using s(3) step_releases [OF assms(1) fold_inner_wf [OF f] st conjunct1 [OF r]] by (auto simp: releases_def)
    then show ?thesis using s f r signer by (intro disjI2 exI [of _ xs] exI [of _ p] exI [of _ ys] exI [of _ u])
      (auto simp: releases_def)
  qed
qed

text \<open>C10: a fold error names the first op at fault: the ops before it are accepted, it is refused with
  that error, any index in the error is its position, and whatever is appended later the answer
  stays the same.\<close>

theorem fold_error_localised:
  assumes "fold_inner W ops = Inl e" and "ops \<noteq> []"
  shows "\<exists>n v. n < length ops \<and> walk_before W (op_handle_proof (hd ops)) (take n ops) = Inr v
      \<and> fleet_step W (op_handle_proof (hd ops)) n (ops ! n) v = Inl e
      \<and> (err_index e = None \<or> err_index e = Some n)
      \<and> fold_inner W (ops @ rest) = Inl e"
proof -
  obtain n v where n: "n < length ops" "walk_before W (op_handle_proof (hd ops)) (take n ops) = Inr v"
      "fleet_step W (op_handle_proof (hd ops)) n (ops ! n) v = Inl e"
    using run_err [of "fleet_step W (op_handle_proof (hd ops))" 0 "walk_init W" ops e] assms
    by (auto simp: fold_inner_hd walk_before_def)
  then show ?thesis using fleet_step_err [OF n(3)] assms
    by (auto simp: err_at_def fold_inner_append)
qed

text \<open>A device that left and is added again is judged by the bundle of its first membership: the
  new bundle goes to the end of the table, and every reader takes the first entry.\<close>

theorem readded_device_keeps_old_bundle:
  assumes "fold_inner W pre = Inr v" and "declared_bundle W pre d = Some old"
    and "fold_inner W (pre @ [p]) = Inr w" and "op_kind p = Add" and "op_device p = d"
    and "op_bundle p = Some new"
  shows "d \<in> set (w_members w) \<and> declared_bundle W (pre @ [p]) d = Some old"
proof -
  have "pre \<noteq> []" using assms(1) by auto
  then have "fleet_step W (op_handle_proof (hd pre)) (length pre) p v = Inr w"
    using assms(1,3) by (simp add: fold_inner_snoc)
  then show ?thesis using assms
    by (auto simp: fleet_step_Inr apply_Inr declared_bundle_def map_of_append_first)
qed

end
