(* ===== verification/Fleet_Build.thy ===== *)
theory Fleet_Build
  imports Fleet_Safety
begin

text \<open>
  src/src/fleet.rs, the builders: \<open>sign_op_plated\<close> and the methods of \<open>MembershipBlob\<close> that append
  an op (genesis, declare, add, lock, unlock, depart, remove, checkpoint). The second half proves
  them complete: given a signer that can sign what it is asked for, the chain a builder returns is
  accepted by the fold, with the membership the builder is named after.
\<close>

section \<open>The builders\<close>

text \<open>The op with every field but its signatures.\<close>

definition unsigned_op ::
  "bytes \<Rightarrow> bytes \<Rightarrow> op_kind \<Rightarrow> bytes \<Rightarrow> i64 \<Rightarrow> bytes \<Rightarrow> bytes
   \<Rightarrow> (i64 \<times> egg list) option \<Rightarrow> (u64 \<times> bytes \<times> u64) option \<Rightarrow> key_bundle option
   \<Rightarrow> bytes option \<Rightarrow> byte \<Rightarrow> fleet_op" where
  "unsigned_op hp prev kind device t signer_pk identity_pk consent ckpt bundle plate plate_k =
     (let (consent_t, consent_eggs) = (case consent of Some c \<Rightarrow> c | None \<Rightarrow> (0, []));
          (ck, ccommit, cepoch) = (case ckpt of Some c \<Rightarrow> c | None \<Rightarrow> (0, zero32, 0))
      in \<lparr>op_handle_proof = hp, op_prev_hash = prev, op_kind = kind, op_device = device, op_time = t,
          op_signer = signer_pk, op_identity_pubkey = identity_pk, op_identity_sig = [],
          op_consent_t = consent_t, op_consent = consent_eggs,
          op_ckpt_k = ck, op_ckpt_commit = ccommit, op_ckpt_fanout_epoch = cepoch, op_sigs = [],
          op_version = (if plate \<noteq> None \<or> plate_k \<noteq> UNSTATED then V4 else V2),
          op_bundle = bundle, op_plate = plate, op_plate_kind = plate_k\<rparr>)"

definition sign_op_plated ::
  "ext \<Rightarrow> signer \<Rightarrow> bytes \<Rightarrow> bytes \<Rightarrow> op_kind \<Rightarrow> bytes \<Rightarrow> i64 \<Rightarrow> bytes \<Rightarrow> bytes \<Rightarrow> bytes option
   \<Rightarrow> (i64 \<times> egg list) option \<Rightarrow> (u64 \<times> bytes \<times> u64) option \<Rightarrow> key_bundle option
   \<Rightarrow> bytes option \<Rightarrow> byte \<Rightarrow> u16 \<Rightarrow> fleet_op" where
  "sign_op_plated W s hp prev kind device t signer_pk identity_pk identity_signer consent ckpt bundle plate
      plate_k sign_with =
     (let p = unsigned_op hp prev kind device t signer_pk identity_pk consent ckpt bundle plate plate_k;
          msg = signing_bytes W p
      in p\<lparr>op_sigs := sg_eggs s msg sign_with,
           op_identity_sig := (case identity_signer of Some seed \<Rightarrow> ed_sign W seed msg | None \<Rightarrow> [])\<rparr>)"

definition sign_op ::
  "ext \<Rightarrow> signer \<Rightarrow> bytes \<Rightarrow> bytes \<Rightarrow> op_kind \<Rightarrow> bytes \<Rightarrow> i64 \<Rightarrow> bytes \<Rightarrow> bytes \<Rightarrow> bytes option
   \<Rightarrow> (i64 \<times> egg list) option \<Rightarrow> (u64 \<times> bytes \<times> u64) option \<Rightarrow> key_bundle option \<Rightarrow> u16 \<Rightarrow> fleet_op" where
  "sign_op W s hp prev kind device t signer_pk identity_pk identity_signer consent ckpt bundle sign_with =
     sign_op_plated W s hp prev kind device t signer_pk identity_pk identity_signer consent ckpt bundle
       None UNSTATED sign_with"

definition build_genesis :: "ext \<Rightarrow> signer \<Rightarrow> bytes \<Rightarrow> bytes \<Rightarrow> i64 \<Rightarrow> blob" where
  "build_genesis W s hp identity_seed t =
     [sign_op W s hp zero32 Genesis (sg_public s) t (sg_public s) (ed_public W identity_seed)
        (Some identity_seed) None None None (MASK_BASE W)]"

definition build_genesis_v2_plated :: "ext \<Rightarrow> signer \<Rightarrow> bytes \<Rightarrow> bytes \<Rightarrow> i64 \<Rightarrow> bytes option \<Rightarrow> byte \<Rightarrow> blob" where
  "build_genesis_v2_plated W s hp identity_seed t plate plate_k =
     [sign_op_plated W s hp zero32 Genesis (sg_public s) t (sg_public s) (ed_public W identity_seed)
        None None None None plate plate_k (MASK_BASE W)]"

definition build_genesis_v2 :: "ext \<Rightarrow> signer \<Rightarrow> bytes \<Rightarrow> bytes \<Rightarrow> i64 \<Rightarrow> blob" where
  "build_genesis_v2 W s hp identity_seed t = build_genesis_v2_plated W s hp identity_seed t None UNSTATED"

text \<open>\<open>self.ops[0]\<close> in \<open>declare_plated\<close> and \<open>lock_op\<close> panics on an empty blob: the result is None
  there. The other builders read the handle proof with \<open>unwrap_or([0; 32])\<close>.\<close>

definition build_declare_plated :: "ext \<Rightarrow> blob \<Rightarrow> signer \<Rightarrow> i64 \<Rightarrow> bytes option \<Rightarrow> byte \<Rightarrow> blob option" where
  "build_declare_plated W ops s t plate plate_k =
     (case ops of [] \<Rightarrow> None
      | p # _ \<Rightarrow>
        let bundle = (case sg_bundle s of Some b \<Rightarrow> b | None \<Rightarrow> ed25519_only W (sg_public s)) in
        Some (ops @ [sign_op_plated W s (op_handle_proof p) (head W ops) Declare (sg_public s) t (sg_public s)
                       zero32 None None None (Some bundle) plate plate_k (bundle_mask bundle)]))"

definition build_declare :: "ext \<Rightarrow> blob \<Rightarrow> signer \<Rightarrow> i64 \<Rightarrow> blob option" where
  "build_declare W ops s t = build_declare_plated W ops s t None UNSTATED"

definition build_lock_op :: "ext \<Rightarrow> blob \<Rightarrow> signer \<Rightarrow> bytes \<Rightarrow> i64 \<Rightarrow> op_kind \<Rightarrow> blob option" where
  "build_lock_op W ops s device t kind =
     (case ops of [] \<Rightarrow> None
      | p # _ \<Rightarrow>
        Some (ops @ [sign_op W s (op_handle_proof p) (head W ops) kind device t (sg_public s) zero32
                       None None None None (declared_mask W ops (sg_public s))]))"

definition build_lock :: "ext \<Rightarrow> blob \<Rightarrow> signer \<Rightarrow> bytes \<Rightarrow> i64 \<Rightarrow> blob option" where
  "build_lock W ops s device t = build_lock_op W ops s device t Lock"

definition build_unlock :: "ext \<Rightarrow> blob \<Rightarrow> signer \<Rightarrow> bytes \<Rightarrow> i64 \<Rightarrow> blob option" where
  "build_unlock W ops s device t = build_lock_op W ops s device t Unlock"

definition chain_handle_proof :: "blob \<Rightarrow> bytes" where
  "chain_handle_proof ops = (case genesis_handle_proof ops of Some h \<Rightarrow> h | None \<Rightarrow> zero32)"

definition build_add_with ::
  "ext \<Rightarrow> blob \<Rightarrow> signer \<Rightarrow> bytes \<Rightarrow> i64 \<Rightarrow> i64 \<Rightarrow> egg list \<Rightarrow> key_bundle option \<Rightarrow> bytes option \<Rightarrow> byte \<Rightarrow> blob" where
  "build_add_with W ops s device t consent_t consent bundle plate plate_k =
     ops @ [sign_op_plated W s (chain_handle_proof ops) (head W ops) Add device t (sg_public s) zero32 None
              (Some (consent_t, consent)) None bundle plate plate_k (declared_mask W ops (sg_public s))]"

definition build_add :: "ext \<Rightarrow> blob \<Rightarrow> signer \<Rightarrow> bytes \<Rightarrow> i64 \<Rightarrow> i64 \<Rightarrow> egg list \<Rightarrow> blob" where
  "build_add W ops s device t consent_t consent = build_add_with W ops s device t consent_t consent None None UNSTATED"

definition build_add_declared ::
  "ext \<Rightarrow> blob \<Rightarrow> signer \<Rightarrow> bytes \<Rightarrow> i64 \<Rightarrow> i64 \<Rightarrow> egg list \<Rightarrow> key_bundle \<Rightarrow> blob" where
  "build_add_declared W ops s device t consent_t consent bundle =
     build_add_with W ops s device t consent_t consent (Some bundle) None UNSTATED"

definition build_depart :: "ext \<Rightarrow> blob \<Rightarrow> signer \<Rightarrow> i64 \<Rightarrow> blob" where
  "build_depart W ops s t =
     ops @ [sign_op W s (chain_handle_proof ops) (head W ops) Remove (sg_public s) t (sg_public s) zero32
              None None None None (declared_mask W ops (sg_public s))]"

definition build_remove_consented :: "ext \<Rightarrow> blob \<Rightarrow> signer \<Rightarrow> bytes \<Rightarrow> i64 \<Rightarrow> i64 \<Rightarrow> egg list \<Rightarrow> blob" where
  "build_remove_consented W ops s leaving t consent_t consent =
     ops @ [sign_op W s (chain_handle_proof ops) (head W ops) Remove leaving t (sg_public s) zero32 None
              (Some (consent_t, consent)) None None (declared_mask W ops (sg_public s))]"

definition build_checkpoint :: "ext \<Rightarrow> blob \<Rightarrow> signer \<Rightarrow> i64 \<Rightarrow> u64 \<Rightarrow> bytes \<Rightarrow> u64 \<Rightarrow> blob" where
  "build_checkpoint W ops s t k commit fanout_epoch =
     ops @ [sign_op W s (chain_handle_proof ops) (head W ops) Checkpoint (sg_public s) t (sg_public s) zero32
              None None (Some (k, commit, fanout_epoch)) None (declared_mask W ops (sg_public s))]"

section \<open>A signed op passes the checks every op passes\<close>

text \<open>The signing bytes cover neither signature field.\<close>

lemma signing_bytes_sigs [simp]:
  "signing_bytes W (p\<lparr>op_sigs := s, op_identity_sig := i\<rparr>) = signing_bytes W p"
  by (simp add: signing_bytes_def consent_part_def ckpt_part_def bundle_part_def plate_part_def)

lemma sign_op_plated_sel [simp]:
  "op_handle_proof (sign_op_plated W s hp prev k d t g ip is c ck b pl plk m) = hp"
  "op_prev_hash (sign_op_plated W s hp prev k d t g ip is c ck b pl plk m) = prev"
  "op_kind (sign_op_plated W s hp prev k d t g ip is c ck b pl plk m) = k"
  "op_device (sign_op_plated W s hp prev k d t g ip is c ck b pl plk m) = d"
  "op_time (sign_op_plated W s hp prev k d t g ip is c ck b pl plk m) = t"
  "op_signer (sign_op_plated W s hp prev k d t g ip is c ck b pl plk m) = g"
  "op_identity_pubkey (sign_op_plated W s hp prev k d t g ip is c ck b pl plk m) = ip"
  "op_consent_t (sign_op_plated W s hp prev k d t g ip is c ck b pl plk m) = (case c of Some x \<Rightarrow> fst x | None \<Rightarrow> 0)"
  "op_consent (sign_op_plated W s hp prev k d t g ip is c ck b pl plk m) = (case c of Some x \<Rightarrow> snd x | None \<Rightarrow> [])"
  "op_ckpt_k (sign_op_plated W s hp prev k d t g ip is c ck b pl plk m) = (case ck of Some x \<Rightarrow> fst x | None \<Rightarrow> 0)"
  "op_ckpt_commit (sign_op_plated W s hp prev k d t g ip is c ck b pl plk m)
     = (case ck of Some x \<Rightarrow> fst (snd x) | None \<Rightarrow> zero32)"
  "op_ckpt_fanout_epoch (sign_op_plated W s hp prev k d t g ip is c ck b pl plk m)
     = (case ck of Some x \<Rightarrow> snd (snd x) | None \<Rightarrow> 0)"
  "op_version (sign_op_plated W s hp prev k d t g ip is c ck b pl plk m)
     = (if pl \<noteq> None \<or> plk \<noteq> UNSTATED then V4 else V2)"
  "op_bundle (sign_op_plated W s hp prev k d t g ip is c ck b pl plk m) = b"
  "op_plate (sign_op_plated W s hp prev k d t g ip is c ck b pl plk m) = pl"
  "op_plate_kind (sign_op_plated W s hp prev k d t g ip is c ck b pl plk m) = plk"
  by (simp_all add: sign_op_plated_def unsigned_op_def Let_def split: option.split prod.split)

lemma sign_op_plated_sigs:
  "op_sigs (sign_op_plated W s hp prev k d t g ip is c ck b pl plk m) =
     sg_eggs s (signing_bytes W (sign_op_plated W s hp prev k d t g ip is c ck b pl plk m)) m"
  "op_identity_sig (sign_op_plated W s hp prev k d t g ip is c ck b pl plk m) =
     (case is of Some seed \<Rightarrow>
        ed_sign W seed (signing_bytes W (sign_op_plated W s hp prev k d t g ip is c ck b pl plk m)) | None \<Rightarrow> [])"
  by (simp_all add: sign_op_plated_def Let_def split: option.split)

text \<open>Eggs that verify under a bundle whose Ed25519 key is the signer's pass \<open>verify_sigs\<close>.\<close>

lemma verify_eggs_sigs:
  assumes v: "verify_eggs W (op_sigs p) b (signing_bytes W p) m" and ed: "bundle_ed25519 W b = op_signer p"
  shows "verify_sigs W p b"
proof -
  have "verify_sig_egg W p b e" if "e \<in> set (op_sigs p)" for e
    using verify_eggs_each [OF v that] ed pubkey_ed25519 [of b W]
    by (auto simp: verify_sig_egg_def verify_egg_def)
  then show ?thesis using verify_eggs_nonempty [OF v] by (simp add: verify_sigs_def list_all_iff)
qed

text \<open>The op part of a builder: a chain that folds, a signer in good standing that can sign under the
  bundle the chain knows it by.\<close>

definition may_sign :: "ext \<Rightarrow> blob \<Rightarrow> walk \<Rightarrow> signer \<Rightarrow> bool" where
  "may_sign W ops w s \<longleftrightarrow> fold_inner W ops = Inr w \<and>
     sg_public s \<in> set (w_members w) \<and> sg_public s \<notin> set (w_locked w) \<and>
     signer_ok W s (known_bundle W (w_bundles w) (sg_public s)) (declared_mask W ops (sg_public s)) \<and>
     covers (declared_mask W ops (sg_public s)) (w_floor w)"

lemma covers_egg_mask: "verify_eggs W es b msg m \<Longrightarrow> covers m r \<Longrightarrow> covers (egg_mask es) r"
  by (metis verify_eggs_covers covers_trans)

lemma may_sign_step:
  assumes m: "may_sign W ops w s" and p: "p = sign_op_plated W s (chain_handle_proof ops) (head W ops) k d t
        (sg_public s) zero32 None c ck b pl plk (declared_mask W ops (sg_public s))"
    and sh: "check_shape (chain_handle_proof ops) (length ops) p w = None"
    and bd: "\<forall>x. b = Some x \<longrightarrow> bundle_ed25519 W x = d" and nd: "k \<noteq> Declare"
    and ap: "apply_kind W k (length ops) p (note_plate p w) = Inr w2"
  shows "fold_inner W (ops @ [p]) = Inr (ratchet W p w2)"
proof -
  have ne: "ops \<noteq> []" and fi: "fold_inner W ops = Inr w" using m by (auto simp: may_sign_def)
  then have hp: "op_handle_proof (hd ops) = chain_handle_proof ops"
    by (cases ops) (simp_all add: chain_handle_proof_def genesis_handle_proof_def)
  have sel: "op_bundle p = b" "op_device p = d" "op_signer p = sg_public s" "op_kind p = k"
    unfolding p by simp_all
  have v: "verify_eggs W (op_sigs p) (known_bundle W (w_bundles w) (sg_public s)) (signing_bytes W p)
      (declared_mask W ops (sg_public s))"
    using m unfolding p sign_op_plated_sigs by (simp add: may_sign_def signer_ok_def)
  have vw: "verify_with W p w = known_bundle W (w_bundles w) (sg_public s)"
    using nd by (cases k) (simp_all add: verify_with_def sel)
  have "verify_sigs W p (known_bundle W (w_bundles w) (sg_public s))"
    using v m by (intro verify_eggs_sigs [OF v]) (simp add: may_sign_def signer_ok_def sel)
  moreover have "covers (egg_mask (op_sigs p)) (w_floor w)"
    using covers_egg_mask [OF v] m by (simp add: may_sign_def)
  ultimately have "check_authority W (length ops) p (note_plate p w) = None"
    using m bd unfolding check_authority_None known_bundle_note_plate vw note_plate_sel sel
    by (simp add: may_sign_def)
  with sh have "fleet_step W (chain_handle_proof ops) (length ops) p w = Inr (ratchet W p w2)"
    using ap by (simp add: fleet_step_Inr sel)
  then show ?thesis using fi hp by (simp add: fold_inner_snoc [OF ne])
qed

definition time_ok :: "i64 \<Rightarrow> bool" where
  "time_ok t \<longleftrightarrow> 0 \<le> sint t \<and> sint t < OP_TIME_MAX_OSC"

lemma fold_prev: "may_sign W ops w s \<Longrightarrow> w_prev w = head W ops"
  by (simp add: may_sign_def fold_inner_prev)

lemma plated_version [simp]: "plated V4" "\<not> plated V2" "plated V3" "\<not> plated V1"
  by (simp_all add: plated_def)

lemma plate_kind_op_simps [simp]:
  "plate_kind_op Genesis" "plate_kind_op Add" "plate_kind_op Declare" "\<not> plate_kind_op Remove"
  "\<not> plate_kind_op Lock" "\<not> plate_kind_op Unlock" "\<not> plate_kind_op Checkpoint"
  by (simp_all add: plate_kind_op_def)

text \<open>The structural checks pass on what \<open>sign_op_plated\<close> builds for a chain that folds.\<close>

lemma sign_op_shape:
  assumes "w_prev w = prev" "time_ok t" "plate_known plk"
    and "k = Genesis \<or> (ip = zero32 \<and> is = None)"
    and "c \<noteq> None \<longrightarrow> k = Add \<or> k = Remove \<and> fst (the c) \<noteq> 0 \<and> snd (the c) \<noteq> []"
    and "ck \<noteq> None \<longrightarrow> k = Checkpoint" and "b \<noteq> None \<longrightarrow> k = Add \<or> k = Declare"
    and "plate_kind_op k \<or> pl = None \<and> plk = UNSTATED"
  shows "check_shape hp i (sign_op_plated W s hp prev k d t g ip is c ck b pl plk m) w = None"
  using assms
  by (cases k; cases c; cases ck; cases "is")
     (auto simp: check_shape_def time_ok_def sign_op_plated_sigs split: option.splits)

section \<open>Completeness\<close>

lemma egg_list_base:
  assumes "signer_ok W s (ed25519_only W (sg_public s)) (MASK_BASE W)"
  shows "verify_eggs W (sg_eggs s msg (MASK_BASE W)) (ed25519_only W (sg_public s)) msg (MASK_BASE W)"
  using assms by (simp add: signer_ok_def)

lemma genesis_step:
  assumes p: "p = sign_op_plated W s hp zero32 Genesis (sg_public s) t (sg_public s) ip is None None None pl plk (MASK_BASE W)"
    and s: "signer_ok W s (ed25519_only W (sg_public s)) (MASK_BASE W)"
    and t: "time_ok t" "plate_known plk" and ip: "ip \<noteq> zero32"
    and idsig: "is = None \<or> verify_identity_binding W p"
  shows "fold_inner W [p] = Inr (ratchet W p ((note_plate p (walk_init W))\<lparr>w_members := [sg_public s]\<rparr>))"
proof -
  let ?w = "walk_init W"
  have sel: "op_bundle p = None" "op_device p = sg_public s" "op_signer p = sg_public s" "op_kind p = Genesis"
    "op_handle_proof p = hp" "op_identity_pubkey p = ip" unfolding p by simp_all
  have v: "verify_eggs W (op_sigs p) (ed25519_only W (sg_public s)) (signing_bytes W p) (MASK_BASE W)"
    unfolding p sign_op_plated_sigs(1) by (rule egg_list_base [OF s])
  have "verify_with W p ?w = ed25519_only W (sg_public s)"
    by (simp add: verify_with_def sel known_bundle_def walk_init_def)
  moreover have "verify_sigs W p (ed25519_only W (sg_public s))"
    by (rule verify_eggs_sigs [OF v]) (simp add: sel)
  moreover have "covers (egg_mask (op_sigs p)) (w_floor ?w)"
    using verify_eggs_covers [OF v] by (simp add: walk_init_def)
  ultimately have a: "check_authority W 0 p (note_plate p ?w) = None"
    unfolding check_authority_None known_bundle_note_plate note_plate_sel by (simp add: sel walk_init_def)
  have sh: "check_shape hp 0 p ?w = None"
    unfolding p by (rule sign_op_shape) (use t in \<open>auto simp: walk_init_def\<close>)
  have "op_identity_sig p = [] \<or> verify_identity_binding W p"
    using idsig by (auto simp: p sign_op_plated_sigs)
  then have "apply_kind W (op_kind p) 0 p (note_plate p ?w) = Inr ((note_plate p ?w)\<lparr>w_members := [sg_public s]\<rparr>)"
    using ip by (simp add: sel apply_genesis_Inr) (simp add: walk_init_def)
  then have "fleet_step W hp 0 p ?w = Inr (ratchet W p ((note_plate p ?w)\<lparr>w_members := [sg_public s]\<rparr>))"
    using a sh by (simp add: fleet_step_Inr)
  then show ?thesis by (simp add: fold_inner_def sel)
qed

lemma genesis_identity_binds:
  assumes "ext_sign_ok W" "ed_public W seed \<noteq> zero32"
    and "p = sign_op_plated W s hp zero32 Genesis d t d (ed_public W seed) (Some seed) None None None pl plk m"
  shows "verify_identity_binding W p"
proof -
  have "op_identity_sig p = ed_sign W seed (signing_bytes W p)" "op_identity_pubkey p = ed_public W seed"
    unfolding assms(3) by (simp_all only: sign_op_plated_sel sign_op_plated_sigs option.case)
  then show ?thesis using assms(1,2)
    by (simp add: verify_identity_binding_def verify_ed25519_def ext_sign_ok_def)
qed

lemma covers_foldl_and:
  assumes "covers m0 m" "\<And>x. x \<in> set xs \<Longrightarrow> covers x m"
  shows "covers (foldl (\<lambda>a b. a AND b) m0 xs) m"
  using assms by (induction xs arbitrary: m0) (simp_all add: covers_and)

text \<open>A builder's consent to leave.\<close>

lemma signed_departure:
  assumes j: "signer_ok W j b m" and fl: "covers m fl"
    and p: "op_consent p = sg_eggs j (departreq_signing_bytes (op_handle_proof p) (op_device p) (op_consent_t p)) m"
  shows "verify_depart_consent W p b fl"
  unfolding verify_depart_consent_def p
  by (rule verify_eggs_mono [OF _ fl]) (use j in \<open>simp add: signer_ok_def\<close>)

text \<open>The walk each builder reaches.\<close>

lemma add_step_consent:
  assumes "may_sign W ops w s" and "d \<notin> set (w_members w)"
    and "\<forall>x. b = Some x \<longrightarrow> bundle_ed25519 W x = d"
    and "joined = (case b of Some x \<Rightarrow> x | None \<Rightarrow> ed25519_only W d)"
    and "verify_eggs W consent joined (bindreq_signing_bytes_plated (chain_handle_proof ops) d ct pl plk) (bundle_mask joined)"
    and "covers (bundle_mask joined) (w_floor w)"
    and "time_ok t" and "plate_known plk" and "abs_diff_i64 t ct \<le> CONSENT_WINDOW_OSC W"
  shows "\<exists>p. build_add_with W ops s d t ct consent b pl plk = ops @ [p] \<and>
    fold_inner W (ops @ [p]) = Inr (ratchet W p ((note_plate p w)\<lparr>w_members := w_members w @ [d],
      w_bundles := w_bundles w @ [(d, joined)]\<rparr>))"
proof -
  define p where "p = sign_op_plated W s (chain_handle_proof ops) (head W ops) Add d t (sg_public s) zero32 None
      (Some (ct, consent)) None b pl plk (declared_mask W ops (sg_public s))"
  have sel: "op_bundle p = b" "op_device p = d" "op_signer p = sg_public s" "op_kind p = Add" "op_time p = t"
    "op_handle_proof p = chain_handle_proof ops" "op_consent_t p = ct" "op_consent p = consent"
    "op_plate p = pl" "op_plate_kind p = plk" unfolding p_def by simp_all
  have jb: "joined_bundle W p = joined" using assms(4) by (simp add: joined_bundle_def sel split: option.split)
  have "covers (bundle_mask joined) (bundle_mask joined OR w_floor w)" using assms(6) by (simp add: covers_of_or)
  then have "verify_consent W p joined (bundle_mask joined OR w_floor w)"
    unfolding verify_consent_def sel by (rule verify_eggs_mono [OF assms(5)])
  then have "apply_kind W Add (length ops) p (note_plate p w) = Inr ((note_plate p w)\<lparr>w_members := w_members w @ [d],
      w_bundles := w_bundles w @ [(d, joined)]\<rparr>)"
    using assms(1,2,6,9) by (simp add: apply_add_Inr jb sel may_sign_def)
  moreover have "check_shape (chain_handle_proof ops) (length ops) p w = None"
    unfolding p_def by (rule sign_op_shape) (use assms(7,8) fold_prev [OF assms(1)] in auto)
  ultimately have "fold_inner W (ops @ [p]) = Inr (ratchet W p ((note_plate p w)\<lparr>w_members := w_members w @ [d],
      w_bundles := w_bundles w @ [(d, joined)]\<rparr>))"
    using may_sign_step [OF assms(1) p_def _ assms(3)] by blast
  then show ?thesis by (auto simp: build_add_with_def p_def)
qed

lemma add_step:
  assumes "may_sign W ops w s" and "d \<notin> set (w_members w)"
    and "\<forall>x. b = Some x \<longrightarrow> bundle_ed25519 W x = d"
    and "joined = (case b of Some x \<Rightarrow> x | None \<Rightarrow> ed25519_only W d)"
    and "signer_ok W j joined (bundle_mask joined)" and "covers (bundle_mask joined) (w_floor w)"
    and "consent = sg_eggs j (bindreq_signing_bytes_plated (chain_handle_proof ops) d ct pl plk) (bundle_mask joined)"
    and "time_ok t" and "plate_known plk" and "abs_diff_i64 t ct \<le> CONSENT_WINDOW_OSC W"
  shows "\<exists>p. build_add_with W ops s d t ct consent b pl plk = ops @ [p] \<and>
    fold_inner W (ops @ [p]) = Inr (ratchet W p ((note_plate p w)\<lparr>w_members := w_members w @ [d],
      w_bundles := w_bundles w @ [(d, joined)]\<rparr>))"
  by (rule add_step_consent [OF assms(1-4) _ assms(6,8-10)]) (use assms(5,7) in \<open>simp add: signer_ok_def\<close>)

definition walk_without :: "bytes \<Rightarrow> fleet_op \<Rightarrow> walk \<Rightarrow> walk" where
  "walk_without d p w = (note_plate p w)\<lparr>w_members := filter (\<lambda>x. x \<noteq> d) (w_members w),
      w_locked := filter (\<lambda>x. x \<noteq> d) (w_locked w)\<rparr>"

lemma walk_without_sel [simp]:
  "w_members (walk_without d p w) = filter (\<lambda>x. x \<noteq> d) (w_members w)"
  "w_locked (walk_without d p w) = filter (\<lambda>x. x \<noteq> d) (w_locked w)"
  "w_bundles (walk_without d p w) = w_bundles w" "w_floor (walk_without d p w) = w_floor w"
  "w_last_k (walk_without d p w) = w_last_k w"
  by (simp_all add: walk_without_def)

lemma plate_known_unstated [simp]: "plate_known UNSTATED"
  by (simp add: plate_known_def UNSTATED_def PIPE_def)

lemma depart_step:
  assumes "may_sign W ops w s" and "time_ok t"
  shows "\<exists>p. build_depart W ops s t = ops @ [p] \<and>
    fold_inner W (ops @ [p]) = Inr (ratchet W p (walk_without (sg_public s) p w))"
proof -
  have mem: "sg_public s \<in> set (w_members w)" using assms(1) by (simp add: may_sign_def)
  define p where "p = sign_op W s (chain_handle_proof ops) (head W ops) Remove (sg_public s) t (sg_public s) zero32
      None None None None (declared_mask W ops (sg_public s))"
  have "apply_kind W Remove (length ops) p (note_plate p w) = Inr (walk_without (sg_public s) p w)"
    using mem by (simp add: apply_remove_Inr check_removal_None p_def sign_op_def walk_without_def)
  moreover have "check_shape (chain_handle_proof ops) (length ops) p w = None"
    unfolding p_def sign_op_def by (rule sign_op_shape) (use assms(2) fold_prev [OF assms(1)] in auto)
  ultimately have "fold_inner W (ops @ [p]) = Inr (ratchet W p (walk_without (sg_public s) p w))"
    using may_sign_step [OF assms(1) p_def [unfolded sign_op_def]] by simp
  then show ?thesis by (auto simp: build_depart_def p_def)
qed

lemma remove_consented_step:
  assumes "may_sign W ops w s" and "time_ok t"
    and "d \<in> set (w_members w)" and "d \<noteq> sg_public s" and "ct \<noteq> 0"
    and "signer_ok W j (known_bundle W (w_bundles w) d) m" and "covers m (w_floor w)"
    and "consent = sg_eggs j (departreq_signing_bytes (chain_handle_proof ops) d ct) m"
    and "abs_diff_i64 t ct \<le> CONSENT_WINDOW_OSC W"
  shows "\<exists>p. build_remove_consented W ops s d t ct consent = ops @ [p] \<and>
    fold_inner W (ops @ [p]) = Inr (ratchet W p (walk_without d p w))"
proof -
  have cne: "consent \<noteq> []"
    unfolding assms(8) using assms(6) by (intro verify_eggs_nonempty) (auto simp: signer_ok_def)
  have mem: "sg_public s \<in> set (w_members w)" using assms(1) by (simp add: may_sign_def)
  define q where "q = sign_op W s (chain_handle_proof ops) (head W ops) Remove d t (sg_public s) zero32 None
      (Some (ct, consent)) None None (declared_mask W ops (sg_public s))"
  have qs: "op_consent q = consent" "op_consent_t q = ct" "op_device q = d" "op_signer q = sg_public s"
    "op_time q = t" "op_handle_proof q = chain_handle_proof ops" unfolding q_def sign_op_def by simp_all
  have "verify_depart_consent W q (known_bundle W (w_bundles w) d) (w_floor w)"
    by (rule signed_departure [OF assms(6,7)]) (simp add: qs assms(8))
  then have "apply_kind W Remove (length ops) q (note_plate q w) = Inr (walk_without d q w)"
    using mem assms(3,4,9) cne by (simp add: apply_remove_Inr check_removal_None qs walk_without_def)
  moreover have "check_shape (chain_handle_proof ops) (length ops) q w = None"
    unfolding q_def sign_op_def by (rule sign_op_shape) (use assms(2,5) cne fold_prev [OF assms(1)] in auto)
  ultimately have "fold_inner W (ops @ [q]) = Inr (ratchet W q (walk_without d q w))"
    using may_sign_step [OF assms(1) q_def [unfolded sign_op_def]] by simp
  then show ?thesis by (auto simp: build_remove_consented_def q_def)
qed

text \<open>\<open>lock\<close> and \<open>unlock\<close> on a chain that folds, and \<open>checkpoint\<close>.\<close>

lemma lock_op_build:
  "ops \<noteq> [] \<Longrightarrow> build_lock_op W ops s d t k = Some (ops @ [sign_op_plated W s (chain_handle_proof ops) (head W ops) k d t
     (sg_public s) zero32 None None None None None UNSTATED (declared_mask W ops (sg_public s))])"
  by (cases ops) (simp_all add: build_lock_op_def sign_op_def chain_handle_proof_def genesis_handle_proof_def)

lemma lock_step:
  assumes "may_sign W ops w s" and "time_ok t" and "d \<in> set (w_members w)" and "d \<noteq> sg_public s"
  shows "d \<notin> set (w_locked w) \<Longrightarrow> \<exists>p. build_lock W ops s d t = Some (ops @ [p])
    \<and> fold_inner W (ops @ [p]) = Inr (ratchet W p ((note_plate p w)\<lparr>w_locked := w_locked w @ [d]\<rparr>))"
proof -
  assume nl: "d \<notin> set (w_locked w)"
  have ne: "ops \<noteq> []" and mem: "sg_public s \<in> set (w_members w)" using assms(1) by (auto simp: may_sign_def)
  define p where "p = sign_op_plated W s (chain_handle_proof ops) (head W ops) Lock d t
     (sg_public s) zero32 None None None None None UNSTATED (declared_mask W ops (sg_public s))"
  have "apply_kind W Lock (length ops) p (note_plate p w) = Inr ((note_plate p w)\<lparr>w_locked := w_locked w @ [d]\<rparr>)"
    using nl mem assms(3,4) by (simp add: apply_lock_Inr p_def)
  moreover have "check_shape (chain_handle_proof ops) (length ops) p w = None"
    unfolding p_def by (rule sign_op_shape) (use assms(2) fold_prev [OF assms(1)] in auto)
  ultimately have "fold_inner W (ops @ [p]) = Inr (ratchet W p ((note_plate p w)\<lparr>w_locked := w_locked w @ [d]\<rparr>))"
    using may_sign_step [OF assms(1) p_def] by simp
  then show ?thesis using lock_op_build [OF ne, of W s d t Lock] by (auto simp: build_lock_def p_def)
qed

lemma unlock_step:
  assumes "may_sign W ops w s" and "time_ok t"
  shows "d \<in> set (w_locked w) \<Longrightarrow> \<exists>p. build_unlock W ops s d t = Some (ops @ [p])
    \<and> fold_inner W (ops @ [p]) = Inr (ratchet W p ((note_plate p w)\<lparr>w_locked := filter (\<lambda>x. x \<noteq> d) (w_locked w)\<rparr>))"
proof -
  assume l: "d \<in> set (w_locked w)"
  have ne: "ops \<noteq> []" and mem: "sg_public s \<in> set (w_members w)" using assms(1) by (auto simp: may_sign_def)
  define p where "p = sign_op_plated W s (chain_handle_proof ops) (head W ops) Unlock d t
     (sg_public s) zero32 None None None None None UNSTATED (declared_mask W ops (sg_public s))"
  have "apply_kind W Unlock (length ops) p (note_plate p w)
      = Inr ((note_plate p w)\<lparr>w_locked := filter (\<lambda>x. x \<noteq> d) (w_locked w)\<rparr>)"
    using l mem by (simp add: apply_unlock_Inr p_def)
  moreover have "check_shape (chain_handle_proof ops) (length ops) p w = None"
    unfolding p_def by (rule sign_op_shape) (use assms(2) fold_prev [OF assms(1)] in auto)
  ultimately have "fold_inner W (ops @ [p])
      = Inr (ratchet W p ((note_plate p w)\<lparr>w_locked := filter (\<lambda>x. x \<noteq> d) (w_locked w)\<rparr>))"
    using may_sign_step [OF assms(1) p_def] by simp
  then show ?thesis using lock_op_build [OF ne, of W s d t Unlock] by (auto simp: build_unlock_def p_def)
qed

lemma checkpoint_step:
  assumes "may_sign W ops w s" and "time_ok t" and "k = w_last_k w + 1" and "k \<noteq> 0" and "commit \<noteq> zero32"
  shows "\<exists>p. build_checkpoint W ops s t k commit ep = ops @ [p] \<and> op_kind p = Checkpoint \<and> op_ckpt_k p = k
    \<and> op_ckpt_commit p = commit \<and> op_ckpt_fanout_epoch p = ep
    \<and> fold_inner W (ops @ [p]) = Inr (ratchet W p ((note_plate p w)\<lparr>w_last_k := k\<rparr>))"
proof -
  have mem: "sg_public s \<in> set (w_members w)" using assms(1) by (simp add: may_sign_def)
  define p where "p = sign_op W s (chain_handle_proof ops) (head W ops) Checkpoint (sg_public s) t (sg_public s) zero32
      None None (Some (k, commit, ep)) None (declared_mask W ops (sg_public s))"
  have sel: "op_kind p = Checkpoint" "op_ckpt_k p = k" "op_ckpt_commit p = commit" "op_ckpt_fanout_epoch p = ep"
    "op_signer p = sg_public s" "op_device p = sg_public s" by (simp_all add: p_def sign_op_def)
  have "apply_kind W Checkpoint (length ops) p (note_plate p w) = Inr ((note_plate p w)\<lparr>w_last_k := k\<rparr>)"
    using mem assms(3,4,5) by (simp add: apply_checkpoint_Inr sel)
  moreover have "check_shape (chain_handle_proof ops) (length ops) p w = None"
    unfolding p_def sign_op_def by (rule sign_op_shape) (use assms(2) fold_prev [OF assms(1)] in auto)
  ultimately have "fold_inner W (ops @ [p]) = Inr (ratchet W p ((note_plate p w)\<lparr>w_last_k := k\<rparr>))"
    using may_sign_step [OF assms(1) p_def [unfolded sign_op_def]] by simp
  moreover have "build_checkpoint W ops s t k commit ep = ops @ [p]" by (simp add: build_checkpoint_def p_def)
  ultimately show ?thesis using sel by blast
qed

section \<open>What the builders build\<close>

text \<open>Founding: for a device that can sign with Ed25519 and an identity key that is not the zero
  key, both genesis builders (the v1 form with the identity co-signature and the v2 form with an
  optional plate) give a chain that folds to exactly that device, with nobody locked.\<close>

theorem genesis_builds:
  assumes "ext_sign_ok W" and "signer_ok W s (ed25519_only W (sg_public s)) (MASK_BASE W)"
    and "time_ok t" and "plate_known plk" and "ed_public W seed \<noteq> zero32"
  shows "fleet_fold W (build_genesis W s hp seed t) = Inr [sg_public s]
    \<and> fleet_fold W (build_genesis_v2_plated W s hp seed t pl plk) = Inr [sg_public s]
    \<and> locked_out W (build_genesis_v2_plated W s hp seed t pl plk) = Inr []"
proof -
  have u: "plate_known UNSTATED" by simp
  have "fleet_fold W (build_genesis W s hp seed t) = Inr [sg_public s]"
    unfolding build_genesis_def sign_op_def fleet_fold_def
    using genesis_step [OF refl assms(2,3) u assms(5) disjI2 [OF genesis_identity_binds [OF assms(1,5) refl]]]
    by simp
  then show ?thesis using genesis_step [OF refl assms(2,3,4,5) disjI1 [OF refl]]
    by (simp add: build_genesis_v2_plated_def fleet_fold_def locked_out_def walk_init_def)
qed

text \<open>Joining: if a member in good standing sponsors a device that is not a member, whose bundle
  reaches the floor and which signed its own join request (plate included) within the consent
  window, the built Add folds, the joiner is the last member, and its bundle is on file.\<close>

theorem add_builds:
  assumes "may_sign W ops w s" and "d \<notin> set (w_members w)" and "map_of (w_bundles w) d = None"
    and "\<forall>x. b = Some x \<longrightarrow> bundle_ed25519 W x = d"
    and "joined = (case b of Some x \<Rightarrow> x | None \<Rightarrow> ed25519_only W d)"
    and "signer_ok W j joined (bundle_mask joined)" and "covers (bundle_mask joined) (w_floor w)"
    and "consent = sg_eggs j (bindreq_signing_bytes_plated (chain_handle_proof ops) d ct pl plk) (bundle_mask joined)"
    and "time_ok t" and "plate_known plk" and "abs_diff_i64 t ct \<le> CONSENT_WINDOW_OSC W"
  shows "fleet_fold W (build_add_with W ops s d t ct consent b pl plk) = Inr (w_members w @ [d])
    \<and> declared_bundle W (build_add_with W ops s d t ct consent b pl plk) d = Some joined"
proof -
  obtain p where "build_add_with W ops s d t ct consent b pl plk = ops @ [p]"
    "fold_inner W (ops @ [p]) = Inr (ratchet W p ((note_plate p w)\<lparr>w_members := w_members w @ [d],
      w_bundles := w_bundles w @ [(d, joined)]\<rparr>))"
    using add_step [OF assms(1,2,4,5,6,7,8,9,10,11)] by blast
  then show ?thesis using assms(3) by (simp add: fleet_fold_def declared_bundle_def map_add_def)
qed

text \<open>Leaving: a member's own departure folds, and so does a removal approved by another member
  that carries the leaver's signed departure request; either way the leaver and only the leaver is
  gone, from the members and from the locked devices.\<close>

theorem removal_builds:
  assumes "may_sign W ops w s" and "time_ok t"
    and "d \<in> set (w_members w)" and "d \<noteq> sg_public s" and "ct \<noteq> 0"
    and "signer_ok W j (known_bundle W (w_bundles w) d) m" and "covers m (w_floor w)"
    and "consent = sg_eggs j (departreq_signing_bytes (chain_handle_proof ops) d ct) m"
    and "abs_diff_i64 t ct \<le> CONSENT_WINDOW_OSC W"
  shows "fleet_fold W (build_depart W ops s t) = Inr (filter (\<lambda>x. x \<noteq> sg_public s) (w_members w))
    \<and> fleet_fold W (build_remove_consented W ops s d t ct consent) = Inr (filter (\<lambda>x. x \<noteq> d) (w_members w))
    \<and> locked_out W (build_remove_consented W ops s d t ct consent) = Inr (filter (\<lambda>x. x \<noteq> d) (w_locked w))"
  using depart_step [OF assms(1,2)] remove_consented_step [OF assms]
  by (auto simp: fleet_fold_def locked_out_def)

text \<open>Promotion: a member that declares the bundle it signs with is on file with that bundle, and the
  floor then reaches every scheme that all unlocked members are known to hold.\<close>

theorem declare_promotes:
  assumes "fold_inner W ops = Inr w" and "sg_public s \<in> set (w_members w)" and "sg_public s \<notin> set (w_locked w)"
    and "b = (case sg_bundle s of Some x \<Rightarrow> x | None \<Rightarrow> ed25519_only W (sg_public s))"
    and "signer_ok W s b (bundle_mask b)" and "covers (bundle_mask b) (w_floor w)"
    and "\<forall>old. map_of (w_bundles w) (sg_public s) = Some old \<longrightarrow> covers (bundle_mask b) (bundle_mask old)"
    and "time_ok t" and "plate_known plk"
    and "\<forall>d \<in> set (w_members w) - set (w_locked w) - {sg_public s}.
           covers (bundle_mask (known_bundle W (w_bundles w) d)) m"
    and "covers (bundle_mask b) m"
  shows "\<exists>ops' floor. build_declare_plated W ops s t pl plk = Some ops' \<and> fold_full W ops' = Inr (w_members w, floor)
    \<and> declared_bundle W ops' (sg_public s) = Some b \<and> covers floor (w_floor w) \<and> covers floor m"
proof -
  obtain g rest where ops: "ops = g # rest" using assms(1) by (cases ops) auto
  define p where "p = sign_op_plated W s (op_handle_proof g) (head W ops) Declare (sg_public s) t (sg_public s) zero32
      None None None (Some b) pl plk (bundle_mask b)"
  have sel: "op_bundle p = Some b" "op_device p = sg_public s" "op_signer p = sg_public s" "op_kind p = Declare"
    unfolding p_def by simp_all
  define w2 where "w2 = (note_plate p w)\<lparr>w_bundles := AList.update (sg_public s) b (w_bundles w)\<rparr>"
  have v: "verify_eggs W (op_sigs p) b (signing_bytes W p) (bundle_mask b)"
    using assms(5) unfolding p_def sign_op_plated_sigs by (simp add: signer_ok_def)
  have ed: "bundle_ed25519 W b = sg_public s" using assms(5) by (simp add: signer_ok_def)
  have "verify_sigs W p b" by (rule verify_eggs_sigs [OF v]) (simp add: sel ed)
  moreover have "verify_with W p w = b" by (simp add: verify_with_def sel)
  ultimately have a: "check_authority W (length ops) p (note_plate p w) = None"
    unfolding check_authority_None known_bundle_note_plate note_plate_sel
    using assms(3) covers_egg_mask [OF v assms(6)] by (simp add: sel ed)
  have "apply_kind W Declare (length ops) p (note_plate p w) = Inr w2"
    using assms(2,7) verify_eggs_covers [OF v] by (simp add: apply_declare_Inr sel w2_def)
  moreover have "check_shape (op_handle_proof g) (length ops) p w = None"
    unfolding p_def by (rule sign_op_shape) (use assms(8,9) fold_inner_prev [OF assms(1)] in auto)
  ultimately have "fleet_step W (op_handle_proof g) (length ops) p w = Inr (ratchet W p w2)"
    using a by (simp add: fleet_step_Inr sel)
  then have f: "fold_inner W (ops @ [p]) = Inr (ratchet W p w2)"
    using fold_inner_snoc [of ops W p] assms(1) by (simp add: ops)
  have "covers (bundle_mask (known_bundle W (w_bundles w2) d)) m" if "d \<in> set (w_members w) - set (w_locked w)" for d
    using that assms(10,11) by (auto simp: w2_def known_bundle_def update_conv split: option.splits)
  moreover have "covers (MASK_ALL W) m"
    using covers_trans [OF bundle_mask_known assms(11)] assms(5) by (simp add: signer_ok_def)
  ultimately have lm: "covers (live_mask W w2) m"
    unfolding live_mask_def by (intro covers_foldl_and) (auto simp: w2_def)
  have bd: "build_declare_plated W ops s t pl plk = Some (ops @ [p])"
    by (simp add: build_declare_plated_def ops p_def assms(4) Let_def)
  have "covers (w_floor (ratchet W p w2)) (w_floor w)" by (simp add: w2_def covers_or_left)
  moreover have "covers (w_floor (ratchet W p w2)) m" using lm by (auto simp: covers_bits bit_or_iff)
  ultimately show ?thesis using f
    by (intro exI [of _ "ops @ [p]"] exI [of _ "w_floor (ratchet W p w2)"])
      (simp add: bd fold_full_def declared_bundle_def w2_def update_conv)
qed

text \<open>Locking: a member in good standing can lock another member out and, on the chain that
  results, unlock it again; the membership never changes, and a checkpoint numbered one above the
  last is accepted and becomes the latest.\<close>

theorem lock_unlock_checkpoint_build:
  assumes "may_sign W ops w s" and "time_ok t"
    and "d \<in> set (w_members w)" and "d \<noteq> sg_public s" and "k = w_last_k w + 1" and "k \<noteq> 0" and "commit \<noteq> zero32"
  shows "(d \<notin> set (w_locked w) \<longrightarrow> (\<exists>ops'. build_lock W ops s d t = Some ops'
            \<and> fleet_fold W ops' = Inr (w_members w) \<and> locked_out W ops' = Inr (w_locked w @ [d])))
    \<and> (d \<in> set (w_locked w) \<longrightarrow> (\<exists>ops'. build_unlock W ops s d t = Some ops'
            \<and> fleet_fold W ops' = Inr (w_members w) \<and> locked_out W ops' = Inr (filter (\<lambda>x. x \<noteq> d) (w_locked w))))
    \<and> fleet_fold W (build_checkpoint W ops s t k commit ep) = Inr (w_members w)
    \<and> latest_checkpoint (build_checkpoint W ops s t k commit ep) = Some (k, commit, ep)"
  using lock_step [OF assms(1-4)] unlock_step [OF assms(1,2), of d] checkpoint_step [OF assms(1,2,5,6,7), of ep]
  by (auto simp: fleet_fold_def locked_out_def latest_checkpoint_def)

end
