(* ===== verification/Fleet_Adopt.thy ===== *)
theory Fleet_Adopt
  imports Fleet_Build "HOL-Library.Sublist"
begin

text \<open>
  src/src/fleet.rs, how a chain just fetched relates to the one already adopted (\<open>extends\<close>,
  \<open>adoption\<close>, \<open>Adoption::lands\<close>), and identity succession (\<open>SuccessorRecord::new\<close> and
  \<open>verify_for_pin\<close>): the record by which a re-founded chain inherits the pin of its predecessor.
\<close>

section \<open>Adoption\<close>

definition chain_extends :: "blob \<Rightarrow> blob \<Rightarrow> bool" where
  "chain_extends self prior \<longleftrightarrow> length prior \<le> length self \<and> take (length prior) self = prior"

datatype adoption = First | Extended | Unchanged | Stale | Fork | DifferentGenesis

fun lands :: "adoption \<Rightarrow> bool" where
  "lands First = True"
| "lands Extended = True"
| "lands Unchanged = True"
| "lands Stale = False"
| "lands Fork = False"
| "lands DifferentGenesis = False"

definition chain_adoption :: "ext \<Rightarrow> blob \<Rightarrow> blob option \<Rightarrow> adoption" where
  "chain_adoption W self adopted =
     (case adopted of None \<Rightarrow> First
      | Some old \<Rightarrow>
          if genesis_hash W self \<noteq> genesis_hash W old then DifferentGenesis
          else if length self = length old \<and> chain_extends self old then Unchanged
          else if chain_extends self old then Extended
          else if chain_extends old self then Stale
          else Fork)"

lemma chain_extends_prefix: "chain_extends self prior \<longleftrightarrow> prefix prior self"
proof
  assume "chain_extends self prior"
  then have "self = prior @ drop (length prior) self"
    unfolding chain_extends_def by (metis append_take_drop_id)
  then show "prefix prior self" by (metis prefixI)
qed (auto simp: chain_extends_def prefix_def)

lemma genesis_hash_prefix: "old \<noteq> [] \<Longrightarrow> prefix old new \<Longrightarrow> genesis_hash W new = genesis_hash W old"
  by (auto simp: prefix_def genesis_hash_def neq_Nil_conv)

section \<open>Succession\<close>

record continuity_egg =
  ce_device :: bytes
  ce_scheme :: byte
  ce_sig :: bytes

record successor =
  sr_handle_proof :: bytes
  sr_new_genesis :: bytes
  sr_predecessor :: blob
  sr_eggs :: "continuity_egg list"

datatype succession_error =
    NoGenesis | PredecessorInvalid fold_error | PinMismatch | HandleProofMismatch | UnknownEggScheme | NotVouched

definition signer_vouch :: "ext \<Rightarrow> blob \<Rightarrow> bytes \<Rightarrow> signer \<Rightarrow> continuity_egg list" where
  "signer_vouch W predecessor msg s =
     map (\<lambda>e. \<lparr>ce_device = sg_public s, ce_scheme = egg_scheme e, ce_sig = egg_sig e\<rparr>)
       (sg_eggs s msg (declared_mask W predecessor (sg_public s)))"

definition successor_new :: "ext \<Rightarrow> blob \<Rightarrow> bytes \<Rightarrow> bytes \<Rightarrow> signer list \<Rightarrow> succession_error + successor" where
  "successor_new W predecessor new_gh hp signers =
     (case genesis_hash W predecessor of None \<Rightarrow> Inl NoGenesis
      | Some old_gh \<Rightarrow>
          let msg = succession_signing_bytes hp old_gh new_gh in
          Inr \<lparr>sr_handle_proof = hp, sr_new_genesis = new_gh, sr_predecessor = predecessor,
               sr_eggs = concat (map (signer_vouch W predecessor msg) signers)\<rparr>)"

definition eggs_of :: "continuity_egg list \<Rightarrow> bytes \<Rightarrow> egg list" where
  "eggs_of es d = map (\<lambda>e. \<lparr>egg_scheme = ce_scheme e, egg_sig = ce_sig e\<rparr>) (filter (\<lambda>e. ce_device e = d) es)"

definition vouches :: "ext \<Rightarrow> walk \<Rightarrow> continuity_egg list \<Rightarrow> bytes \<Rightarrow> bytes \<Rightarrow> bool" where
  "vouches W pred es msg d \<longleftrightarrow>
     d \<in> set (w_members pred) \<and>
     verify_eggs W (eggs_of es d) (known_bundle W (w_bundles pred) d) msg (w_floor pred)"

definition verify_for_pin :: "ext \<Rightarrow> successor \<Rightarrow> bytes \<Rightarrow> succession_error + unit" where
  "verify_for_pin W r pinned =
     (case fold_inner W (sr_predecessor r) of Inl e \<Rightarrow> Inl (PredecessorInvalid e)
      | Inr pred \<Rightarrow>
        (case genesis_hash W (sr_predecessor r) of None \<Rightarrow> Inl NoGenesis
         | Some old_gh \<Rightarrow>
            if old_gh \<noteq> pinned then Inl PinMismatch
            else if genesis_handle_proof (sr_predecessor r) \<noteq> Some (sr_handle_proof r) then Inl HandleProofMismatch
            else if list_ex (\<lambda>e. \<not> covers (MASK_KNOWN W) (scheme_bit (min (ce_scheme e) 15))) (sr_eggs r)
              then Inl UnknownEggScheme
            else if list_ex (vouches W pred (sr_eggs r)
                   (succession_signing_bytes (sr_handle_proof r) old_gh (sr_new_genesis r)))
                 (remdups_adj (sort (map ce_device (sr_eggs r))))
              then Inr () else Inl NotVouched))"

lemma eggs_of_append [simp]: "eggs_of (xs @ ys) d = eggs_of xs d @ eggs_of ys d"
  by (simp add: eggs_of_def)

lemma eggs_of_vouch: "eggs_of (signer_vouch W p msg s) d =
    (if d = sg_public s then sg_eggs s msg (declared_mask W p (sg_public s)) else [])"
  by (simp add: eggs_of_def signer_vouch_def comp_def filter_map map_idI)

lemma eggs_of_device: "eggs_of es d \<noteq> [] \<Longrightarrow> d \<in> ce_device ` set es"
  by (auto simp: eggs_of_def filter_empty_conv)

lemma eggs_of_signers:
  assumes "distinct (map sg_public signers)" "s \<in> set signers"
  shows "eggs_of (concat (map (signer_vouch W p msg) signers)) (sg_public s) =
    sg_eggs s msg (declared_mask W p (sg_public s))"
  using assms
proof (induction signers)
  case (Cons a signers)
  have none: "eggs_of (concat (map (signer_vouch W p msg) xs)) d = []" if "d \<notin> sg_public ` set xs" for d xs
    using that by (induction xs) (auto simp: eggs_of_vouch, simp add: eggs_of_def)
  show ?case
  proof (cases "s = a")
    case True
    then show ?thesis using Cons.prems none [of "sg_public a" signers] by (simp add: eggs_of_vouch)
  next
    case False
    from False have m: "s \<in> set signers" using Cons.prems by simp
    have "sg_public a \<notin> sg_public ` set signers" using Cons.prems by simp
    then have "sg_public s \<noteq> sg_public a" using m by (metis imageI)
    note this m
    then show ?thesis using Cons by (simp add: eggs_of_vouch)
  qed
qed simp

lemma verify_for_pin_Inr:
  "verify_for_pin W r pinned = Inr () \<longleftrightarrow>
     (\<exists>pred. fold_inner W (sr_predecessor r) = Inr pred \<and> genesis_hash W (sr_predecessor r) = Some pinned \<and>
        genesis_handle_proof (sr_predecessor r) = Some (sr_handle_proof r) \<and>
        (\<forall>e \<in> set (sr_eggs r). covers (MASK_KNOWN W) (scheme_bit (min (ce_scheme e) 15))) \<and>
        (\<exists>d \<in> ce_device ` set (sr_eggs r).
            vouches W pred (sr_eggs r) (succession_signing_bytes (sr_handle_proof r) pinned (sr_new_genesis r)) d))"
  by (auto simp: verify_for_pin_def list_ex_iff split: sum.splits option.splits)

lemma successor_new_vouched:
  assumes "fold_inner W pred = Inr w" and "genesis_handle_proof pred = Some hp" and g: "genesis_hash W pred = Some g"
    and "distinct (map sg_public signers)" and "s \<in> set signers" and "sg_public s \<in> set (w_members w)"
    and "signer_ok W s (known_bundle W (w_bundles w) (sg_public s)) (declared_mask W pred (sg_public s))"
    and fl: "covers (declared_mask W pred (sg_public s)) (w_floor w)"
    and kn: "\<forall>x \<in> set signers. \<forall>msg m. \<forall>e \<in> set (sg_eggs x msg m). covers (MASK_KNOWN W) (scheme_bit (min (egg_scheme e) 15))"
  shows "\<exists>r. successor_new W pred new_gh hp signers = Inr r \<and> sr_new_genesis r = new_gh \<and> sr_predecessor r = pred
    \<and> verify_for_pin W r g = Inr ()"
proof -
  let ?msg = "succession_signing_bytes hp g new_gh"
  let ?es = "concat (map (signer_vouch W pred ?msg) signers)"
  let ?r = "\<lparr>sr_handle_proof = hp, sr_new_genesis = new_gh, sr_predecessor = pred, sr_eggs = ?es\<rparr>"
  have eg: "eggs_of ?es (sg_public s) = sg_eggs s ?msg (declared_mask W pred (sg_public s))"
    by (rule eggs_of_signers [OF assms(4,5)])
  have v: "verify_eggs W (eggs_of ?es (sg_public s)) (known_bundle W (w_bundles w) (sg_public s)) ?msg (w_floor w)"
    unfolding eg using assms(7) by (intro verify_eggs_mono [OF _ fl]) (simp add: signer_ok_def)
  then have "vouches W w ?es ?msg (sg_public s)" using assms(6) by (simp add: vouches_def)
  moreover have "sg_public s \<in> ce_device ` set ?es"
    by (rule eggs_of_device [OF verify_eggs_nonempty [OF v]])
  moreover have "\<forall>e \<in> set ?es. covers (MASK_KNOWN W) (scheme_bit (min (ce_scheme e) 15))"
    using kn by (auto simp: signer_vouch_def)
  ultimately have "verify_for_pin W ?r g = Inr ()"
    using assms(1,2) g unfolding verify_for_pin_Inr successor.simps by blast
  then show ?thesis by (simp add: successor_new_def g)
qed

section \<open>Properties\<close>

text \<open>Adoption never rolls back: against an adopted non-empty chain a fetched chain lands exactly
  when the adopted chain is a prefix of it, and the verdict is Unchanged exactly when they are equal;
  if two chains are compared both ways, one reads Extended exactly when the other reads Stale, and
  Fork and DifferentGenesis are symmetric.\<close>

theorem adoption_is_prefix_order:
  assumes "old \<noteq> []"
  shows "(lands (chain_adoption W new (Some old)) \<longleftrightarrow> prefix old new)
    \<and> (chain_adoption W new (Some old) = Unchanged \<longleftrightarrow> new = old)
    \<and> (new \<noteq> [] \<longrightarrow> (chain_adoption W new (Some old) = Extended \<longleftrightarrow> chain_adoption W old (Some new) = Stale))
    \<and> (chain_adoption W new (Some old) = Fork \<longleftrightarrow> chain_adoption W old (Some new) = Fork)
    \<and> (chain_adoption W new (Some old) = DifferentGenesis \<longleftrightarrow> chain_adoption W old (Some new) = DifferentGenesis)"
proof -
  have g: "prefix old new \<Longrightarrow> genesis_hash W new = genesis_hash W old" using genesis_hash_prefix [OF assms] .
  have e: "prefix old new \<Longrightarrow> length new = length old \<longleftrightarrow> new = old" by (auto simp: prefix_def)
  have e': "prefix new old \<Longrightarrow> length new = length old \<longleftrightarrow> new = old" by (auto simp: prefix_def)
  have a: "prefix old new \<Longrightarrow> prefix new old \<Longrightarrow> new = old" by (rule prefix_order.antisym)
  show ?thesis unfolding chain_adoption_def chain_extends_prefix
    using g e e' a by (auto split: if_splits)
qed


text \<open>Succession is achievable: for a predecessor chain that folds, a record made by
  \<open>SuccessorRecord::new\<close> with distinct signers, one of them a member that can sign at the old floor,
  verifies against the predecessor's genesis hash and against no other pin.\<close>

theorem succession_complete:
  assumes "fold_inner W pred = Inr w" and "genesis_handle_proof pred = Some hp"
    and "distinct (map sg_public signers)" and "s \<in> set signers" and "sg_public s \<in> set (w_members w)"
    and "signer_ok W s (known_bundle W (w_bundles w) (sg_public s)) (declared_mask W pred (sg_public s))"
    and "covers (declared_mask W pred (sg_public s)) (w_floor w)"
    and "\<forall>x \<in> set signers. \<forall>msg m. \<forall>e \<in> set (sg_eggs x msg m). covers (MASK_KNOWN W) (scheme_bit (min (egg_scheme e) 15))"
  shows "\<exists>r. successor_new W pred new_gh hp signers = Inr r \<and> sr_new_genesis r = new_gh
    \<and> (verify_for_pin W r pinned = Inr () \<longleftrightarrow> genesis_hash W pred = Some pinned)"
proof -
  obtain g where g: "genesis_hash W pred = Some g"
    using assms(2) by (cases pred) (simp_all add: genesis_handle_proof_def genesis_hash_def)
  from successor_new_vouched [OF assms(1,2) g assms(3-8)] obtain r where r:
    "successor_new W pred new_gh hp signers = Inr r" "sr_new_genesis r = new_gh" "sr_predecessor r = pred"
    "verify_for_pin W r g = Inr ()" by blast
  have "verify_for_pin W r pinned = Inr () \<Longrightarrow> pinned = g"
    using g r(3) by (auto simp: verify_for_pin_Inr)
  with r g show ?thesis by auto
qed

end
