(* ===== verification/Fleet_Spec.thy ===== *)
theory Fleet_Spec
  imports Fleet_Safety
begin

text \<open>
  What the membership chain of src/src/fleet.rs promises, as an automaton that knows no bytes,
  hashes or signatures: a set of members, a set of locked members, the schemes each device is known
  by, the floor and the number of checkpoints. Its events are the seven kinds of op, a removal split
  into the two ways a device can leave. The walk of \<open>fold_inner\<close> refines it: every chain the fold
  accepts is a trace of the automaton, and the answer of the fold is the view the trace ends in.
\<close>

section \<open>The automaton\<close>

type_synonym schemes = "nat set"

record view =
  v_members :: "bytes set"
  v_locked :: "bytes set"
  v_caps :: "bytes \<rightharpoonup> schemes"
  v_floor :: schemes
  v_epoch :: nat

text \<open>Events: who acts, on which device, and the schemes the device brings.\<close>

datatype fleet_event =
    Founded bytes
  | Joined bytes bytes schemes
  | Declared bytes schemes
  | Left bytes
  | Released bytes bytes
  | LockedOut bytes bytes
  | LetBack bytes bytes
  | EpochClosed bytes

definition active :: "view \<Rightarrow> bytes set" where
  "active v = v_members v - v_locked v"

definition cap :: "schemes \<Rightarrow> view \<Rightarrow> bytes \<Rightarrow> schemes" where
  "cap base v d = (case v_caps v d of Some c \<Rightarrow> c | None \<Rightarrow> base)"

text \<open>After every event the floor takes in the schemes all active members have.\<close>

definition settle :: "schemes \<Rightarrow> schemes \<Rightarrow> view \<Rightarrow> view" where
  "settle base known v = v\<lparr>v_floor := v_floor v \<union> {n \<in> known. \<forall>m \<in> active v. n \<in> cap base v m}\<rparr>"

definition founded_by :: "schemes \<Rightarrow> bytes \<Rightarrow> view" where
  "founded_by base d = \<lparr>v_members = {d}, v_locked = {}, v_caps = Map.empty, v_floor = base, v_epoch = 0\<rparr>"

definition forget :: "bytes \<Rightarrow> view \<Rightarrow> view" where
  "forget d v = v\<lparr>v_members := v_members v - {d}, v_locked := v_locked v - {d}\<rparr>"

text \<open>The effect of an event before the floor settles. A device is known by what it last brought: the schemes
  of its join, then those of its latest declaration; leaving does not erase them.\<close>

inductive effect :: "view \<Rightarrow> fleet_event \<Rightarrow> view \<Rightarrow> bool" where
  join: "by \<in> active v \<Longrightarrow> d \<notin> v_members v \<Longrightarrow> v_floor v \<subseteq> c \<Longrightarrow>
    effect v (Joined by d c) (v\<lparr>v_members := insert d (v_members v), v_caps := (v_caps v)(d \<mapsto> c)\<rparr>)"
| redeclare: "d \<in> active v \<Longrightarrow> (\<And>c'. v_caps v d = Some c' \<Longrightarrow> c' \<subseteq> c) \<Longrightarrow>
    effect v (Declared d c) (v\<lparr>v_caps := (v_caps v)(d \<mapsto> c)\<rparr>)"
| leave: "d \<in> active v \<Longrightarrow> effect v (Left d) (forget d v)"
| release: "by \<in> active v \<Longrightarrow> d \<in> v_members v \<Longrightarrow> by \<noteq> d \<Longrightarrow> effect v (Released by d) (forget d v)"
| lock: "by \<in> active v \<Longrightarrow> d \<in> active v \<Longrightarrow> by \<noteq> d \<Longrightarrow>
    effect v (LockedOut by d) (v\<lparr>v_locked := insert d (v_locked v)\<rparr>)"
| unlock: "by \<in> active v \<Longrightarrow> d \<in> v_locked v \<Longrightarrow>
    effect v (LetBack by d) (v\<lparr>v_locked := v_locked v - {d}\<rparr>)"
| epoch: "by \<in> active v \<Longrightarrow> effect v (EpochClosed by) (v\<lparr>v_epoch := Suc (v_epoch v)\<rparr>)"

inductive_simps effect_simps [simp]:
  "effect v (Founded d) v'" "effect v (Joined b d c) v'" "effect v (Declared d c) v'"
  "effect v (Left d) v'" "effect v (Released b d) v'" "effect v (LockedOut b d) v'"
  "effect v (LetBack b d) v'" "effect v (EpochClosed b) v'"

inductive fleet_trace :: "schemes \<Rightarrow> schemes \<Rightarrow> fleet_event list \<Rightarrow> view \<Rightarrow> bool"
  for base known where
  found: "fleet_trace base known [Founded d] (settle base known (founded_by base d))"
| event: "fleet_trace base known es v \<Longrightarrow> effect v e v' \<Longrightarrow>
    fleet_trace base known (es @ [e]) (settle base known v')"

section \<open>Facts about the automaton\<close>

lemma effect_unique: "effect v e a \<Longrightarrow> effect v e b \<Longrightarrow> a = b"
  by (cases e) auto

lemma trace_nonempty: "fleet_trace base known es v \<Longrightarrow> es \<noteq> []"
  by (cases rule: fleet_trace.cases) auto

text \<open>The events alone decide the view: there is no hidden choice.\<close>

lemma fleet_trace_unique: "fleet_trace base known es v \<Longrightarrow> fleet_trace base known es u \<Longrightarrow> u = v"
proof (induction arbitrary: u rule: fleet_trace.induct)
  case (found d)
  then show ?case by (cases rule: fleet_trace.cases) (auto dest: trace_nonempty)
next
  case (event es v e v')
  from event.prems trace_nonempty [OF event.hyps(1)] obtain w w' where
    "fleet_trace base known es w" "effect w e w'" "u = settle base known w'"
    by (cases rule: fleet_trace.cases) auto
  with event.IH event.hyps(2) effect_unique show ?case by blast
qed

section \<open>The fold refines it\<close>

definition scheme_set :: "u16 \<Rightarrow> schemes" where
  "scheme_set m = {n. bit m n}"

lemma scheme_set_simps [simp]:
  "scheme_set (a OR b) = scheme_set a \<union> scheme_set b" "scheme_set a \<subseteq> scheme_set b \<longleftrightarrow> covers b a"
  by (auto simp: scheme_set_def bit_or_iff covers_bits)

lemma scheme_set_iff [simp]: "n \<in> scheme_set m \<longleftrightarrow> bit m n"
  by (simp add: scheme_set_def)

abbreviation bundle_schemes :: "key_bundle \<Rightarrow> schemes" where
  "bundle_schemes b \<equiv> scheme_set (bundle_mask b)"

text \<open>Where the code keeps to the rule of the automaton. The walk files a joining device's bundle at the end of
  the table and reads the first entry, so it goes on judging a device that left and came back by the
  bundle it had before; \<open>steady_rejoins\<close> says that a device that comes back brings the schemes it had.
  \<open>readded_device_keeps_old_bundle\<close> is what happens otherwise.\<close>

definition same_schemes :: "ext \<Rightarrow> blob \<Rightarrow> fleet_op \<Rightarrow> bool" where
  "same_schemes W ops p \<longleftrightarrow> op_kind p = Add \<longrightarrow>
     pred_option (\<lambda>old. bundle_mask old = bundle_mask (joined_bundle W p)) (declared_bundle W ops (op_device p))"

definition steady_rejoins :: "ext \<Rightarrow> blob \<Rightarrow> bool" where
  "steady_rejoins W ops \<longleftrightarrow> (\<forall>i < length ops. same_schemes W (take i ops) (ops ! i))"

lemma steady_rejoins_Nil [simp]: "steady_rejoins W []"
  by (simp add: steady_rejoins_def)

lemma steady_rejoins_snoc [simp]: "steady_rejoins W (ops @ [p]) \<longleftrightarrow> steady_rejoins W ops \<and> same_schemes W ops p"
  by (auto simp: steady_rejoins_def nth_append less_Suc_eq)

lemma same_schemes_walk:
  "fold_inner W ops = Inr w \<Longrightarrow> same_schemes W ops p \<longleftrightarrow>
     (\<forall>old. op_kind p = Add \<longrightarrow> map_of (w_bundles w) (op_device p) = Some old \<longrightarrow> bundle_mask old = bundle_mask (joined_bundle W p))"
  by (auto simp: same_schemes_def declared_bundle_def option.pred_set)

text \<open>The event an op stands for: the op alone tells, the walk is not asked.\<close>

definition event_of :: "ext \<Rightarrow> fleet_op \<Rightarrow> fleet_event" where
  "event_of W p =
     (case op_kind p of
        Genesis \<Rightarrow> Founded (op_device p)
      | Declare \<Rightarrow> Declared (op_device p) (case op_bundle p of None \<Rightarrow> {} | Some b \<Rightarrow> bundle_schemes b)
      | Add \<Rightarrow> Joined (op_signer p) (op_device p) (bundle_schemes (joined_bundle W p))
      | Remove \<Rightarrow> if op_consent p = [] then Left (op_device p) else Released (op_signer p) (op_device p)
      | Lock \<Rightarrow> LockedOut (op_signer p) (op_device p)
      | Unlock \<Rightarrow> LetBack (op_signer p) (op_device p)
      | Checkpoint \<Rightarrow> EpochClosed (op_signer p))"

definition view_rel :: "walk \<Rightarrow> view \<Rightarrow> bool" where
  "view_rel w v \<longleftrightarrow>
     v_members v = set (w_members w) \<and> v_locked v = set (w_locked w)
     \<and> (\<forall>d. v_caps v d = map_option bundle_schemes (map_of (w_bundles w) d))
     \<and> v_floor v = scheme_set (w_floor w) \<and> w_last_k w = of_nat (v_epoch v)"

lemma view_rel_note_plate [simp]: "view_rel (note_plate p w) v \<longleftrightarrow> view_rel w v"
  by (simp add: view_rel_def)

abbreviation base_schemes :: "ext \<Rightarrow> schemes" where
  "base_schemes W \<equiv> scheme_set (MASK_BASE W)"

abbreviation known_schemes :: "ext \<Rightarrow> schemes" where
  "known_schemes W \<equiv> scheme_set (MASK_ALL W)"

lemma ed25519_only_schemes: "bundle_mask (ed25519_only W d) = MASK_BASE W"
  by (simp add: bundle_mask_def ed25519_only_def MASK_BASE_def)

lemma cap_known: "view_rel w v \<Longrightarrow> cap (base_schemes W) v d = bundle_schemes (known_bundle W (w_bundles w) d)"
  by (simp add: view_rel_def cap_def known_bundle_def ed25519_only_schemes split: option.split)

lemma bit_foldl_and: "bit (foldl (\<lambda>a b. a AND b) (m :: u16) xs) n \<longleftrightarrow> bit m n \<and> (\<forall>x \<in> set xs. bit x n)"
  by (induction xs arbitrary: m) (auto simp: bit_and_iff)

lemma view_rel_settle:
  assumes "view_rel w v"
  shows "view_rel (ratchet W p w) (settle (base_schemes W) (known_schemes W) v)"
proof -
  have "active v = {m \<in> set (w_members w). m \<notin> set (w_locked w)}"
    using assms by (auto simp: active_def view_rel_def)
  then have "scheme_set (live_mask W w) = {n \<in> known_schemes W. \<forall>m \<in> active v. n \<in> cap (base_schemes W) v m}"
    by (auto simp: cap_known [OF assms] live_mask_def bit_foldl_and)
  then show ?thesis using assms by (simp add: view_rel_def settle_def)
qed

lemma view_rel_founded:
  assumes "fleet_step W hp 0 p (walk_init W) = Inr w"
  shows "\<exists>d. event_of W p = Founded d
    \<and> view_rel w (settle (base_schemes W) (known_schemes W) (founded_by (base_schemes W) d))"
proof -
  obtain w2 where k: "apply_kind W (op_kind p) 0 p (note_plate p (walk_init W)) = Inr w2"
    and w: "w = ratchet W p w2" using assms by (auto simp: fleet_step_Inr)
  then have g: "op_kind p = Genesis" by (cases "op_kind p") (auto simp: apply_Inr walk_init_def)
  with k have "view_rel w2 (founded_by (base_schemes W) (op_device p))"
    by (auto simp: apply_Inr walk_init_def view_rel_def founded_by_def)
  with g show ?thesis by (simp add: event_of_def w view_rel_settle)
qed

lemma map_of_update_key: "map_of (AList.update k x xs) = (map_of xs)(k \<mapsto> x)"
  by (rule update_conv')

text \<open>One op: its checks are the guards of the event, its effect is the effect of the event.\<close>

lemma effect_of_op:
  assumes r: "view_rel w v" and i: "i \<noteq> 0" and a: "check_authority W i p w = None"
    and old: "\<forall>old. op_kind p = Add \<longrightarrow> map_of (w_bundles w) (op_device p) = Some old \<longrightarrow> bundle_mask old = bundle_mask (joined_bundle W p)"
    and k: "apply_kind W (op_kind p) i p w = Inr w'"
  shows "\<exists>v'. effect v (event_of W p) v' \<and> view_rel w' v'"
proof (cases "op_kind p")
  case Add
  let ?d = "op_device p" and ?c = "bundle_schemes (joined_bundle W p)"
  let ?v = "v\<lparr>v_members := insert ?d (v_members v), v_caps := (v_caps v)(?d \<mapsto> ?c)\<rparr>"
  have w': "op_signer p \<in> set (w_members w)" "?d \<notin> set (w_members w)" "covers (bundle_mask (joined_bundle W p)) (w_floor w)"
    "w' = w\<lparr>w_members := w_members w @ [?d], w_bundles := w_bundles w @ [(?d, joined_bundle W p)]\<rparr>"
    using k Add by (simp_all add: apply_Inr)
  have "map_option bundle_schemes (map_of (w_bundles w') x) = v_caps ?v x" for x
    using r old Add by (cases "map_of (w_bundles w) ?d") (auto simp: w'(4) view_rel_def map_add_def split: option.split)
  then have "view_rel w' ?v" using r by (simp add: view_rel_def w'(4))
  moreover have "effect v (event_of W p) ?v"
    using r a Add w'(1-3) by (simp add: event_of_def view_rel_def active_def check_authority_None)
  ultimately show ?thesis by blast
next
  case Declare
  then obtain b where b: "op_bundle p = Some b" using k by (auto simp: apply_Inr)
  show ?thesis using Declare r a k b
    by (auto simp: apply_Inr event_of_def view_rel_def active_def check_authority_None map_of_update_key
        covers_bits)
next
  case Remove
  then show ?thesis using r a k
    by (cases "op_consent p = []")
      (auto simp: apply_Inr event_of_def view_rel_def active_def check_authority_None check_removal_None forget_def)
next
  case Lock
  then show ?thesis using r a k
    by (auto simp: apply_Inr event_of_def view_rel_def active_def check_authority_None)
next
  case Unlock
  then show ?thesis using r a k
    by (auto simp: apply_Inr event_of_def view_rel_def active_def check_authority_None)
next
  case Checkpoint
  then show ?thesis using r a k
    by (auto simp: apply_Inr event_of_def view_rel_def active_def check_authority_None)
qed (use k i in \<open>simp add: apply_Inr\<close>)

lemma fleet_step_refines:
  assumes "view_rel w v" and "i \<noteq> 0"
    and "\<forall>old. op_kind p = Add \<longrightarrow> map_of (w_bundles w) (op_device p) = Some old \<longrightarrow> bundle_mask old = bundle_mask (joined_bundle W p)"
    and "fleet_step W hp i p w = Inr w'"
  shows "\<exists>v'. effect v (event_of W p) v' \<and> view_rel w' (settle (base_schemes W) (known_schemes W) v')"
  using effect_of_op [of "note_plate p w" v i W p] assms view_rel_settle by (fastforce simp: fleet_step_Inr)

lemma fold_traces:
  "fold_inner W ops = Inr w \<Longrightarrow> steady_rejoins W ops \<Longrightarrow>
     \<exists>v. fleet_trace (base_schemes W) (known_schemes W) (map (event_of W) ops) v \<and> view_rel w v"
proof (induction ops arbitrary: w rule: rev_induct)
  case (snoc p ops)
  show ?case
  proof (cases "ops = []")
    case True
    with snoc.prems(1) view_rel_founded [of W "op_handle_proof p" p w] show ?thesis
      by (fastforce simp: fold_inner_hd split: sum.splits intro: fleet_trace.found)
  next
    case False
    then obtain u where u: "fold_inner W ops = Inr u"
      and s: "fleet_step W (op_handle_proof (hd ops)) (length ops) p u = Inr w"
      using snoc.prems(1) by (auto simp: fold_inner_snoc split: sum.splits)
    from snoc.IH [OF u] snoc.prems(2) obtain v where
      "fleet_trace (base_schemes W) (known_schemes W) (map (event_of W) ops) v" "view_rel u v" by auto
    with fleet_step_refines [OF _ _ _ s, of v] snoc.prems(2) same_schemes_walk [OF u, of p] False show ?thesis
      by (auto intro: fleet_trace.event)
  qed
qed simp

text \<open>C8: the fold refines the membership automaton: every chain it accepts in which a device that comes back
  brings the schemes it had is, read as events, a trace of the automaton, the events alone decide where
  the trace ends, and there the members, the locked devices, the schemes each device is known by, the
  floor and the checkpoint counter are those of the fold.\<close>

theorem fold_refines_automaton:
  assumes "fold_inner W ops = Inr w" and "steady_rejoins W ops"
  shows "\<exists>v. (\<forall>u. fleet_trace (base_schemes W) (known_schemes W) (map (event_of W) ops) u \<longleftrightarrow> u = v)
    \<and> v_members v = set (w_members w) \<and> v_locked v = set (w_locked w)
    \<and> (\<forall>d. v_caps v d = map_option bundle_schemes (declared_bundle W ops d))
    \<and> v_floor v = scheme_set (w_floor w) \<and> w_last_k w = of_nat (v_epoch v)"
proof -
  obtain v where t: "fleet_trace (base_schemes W) (known_schemes W) (map (event_of W) ops) v"
    and r: "view_rel w v" using fold_traces [OF assms] by blast
  have "fleet_trace (base_schemes W) (known_schemes W) (map (event_of W) ops) u \<longleftrightarrow> u = v" for u
    using t fleet_trace_unique [OF t] by blast
  with r assms(1) show ?thesis by (intro exI [of _ v]) (simp add: view_rel_def declared_bundle_def)
qed

end
