(* ===== verification/Demo_World.thy ===== *)
theory Demo_World
  imports Pq
begin

text \<open>
  One concrete value for the external primitives of \<open>ext\<close>, used by the witnesses only: it shows
  that the assumptions \<open>ext_ok\<close> and \<open>ext_sign_ok\<close> can hold together. Its "signatures" are the
  first bytes of key and message and its "hash" is a checksum in 32 bytes; nothing about security
  is read off it.
\<close>

definition pad32 :: "bytes \<Rightarrow> bytes" where
  "pad32 x = take 32 (x @ zero32)"

lemma length_pad32 [simp]: "length (pad32 x) = 32"
  by (simp add: pad32_def)

lemma pad32_id: "length x = 32 \<Longrightarrow> pad32 x = x"
  by (simp add: pad32_def)

definition demo_hash :: "bytes \<Rightarrow> bytes" where
  "demo_hash x = [1, sum_list x] @ replicate 30 0"

lemma length_demo_hash [simp]: "length (demo_hash x) = 32"
  by (simp add: demo_hash_def)

definition demo_sig :: "bytes \<Rightarrow> bytes \<Rightarrow> bytes" where
  "demo_sig k m = pad32 k @ pad32 m"

lemma length_demo_sig [simp]: "length (demo_sig k m) = 64"
  by (simp add: demo_sig_def)

definition demo_eggs_to_bytes :: "egg list \<Rightarrow> bytes" where
  "demo_eggs_to_bytes es =
     of_nat (length es) # concat (map key_to_bytes (map (\<lambda>e. (egg_scheme e, egg_sig e)) es))"

definition demo_eggs_from_bytes :: "bytes \<Rightarrow> egg list option" where
  "demo_eggs_from_bytes bs =
     (case bs of [] \<Rightarrow> None
      | n # rest \<Rightarrow>
          (case read_run read_key (unat n) rest of Inl _ \<Rightarrow> None
           | Inr (ps, rest') \<Rightarrow>
               if rest' = [] then Some (map (\<lambda>(s, g). \<lparr>egg_scheme = s, egg_sig = g\<rparr>) ps) else None))"

definition demo_ext :: ext where
  "demo_ext = \<lparr>
     ED25519 = 0, FALCON512 = 1, SPHINCS_PLUS = 2,
     falcon_pk_len = 32, falcon_sig_len = 64, sphincs_pk_len = 32, sphincs_sig_len = 64,
     ed_verify = (\<lambda>pk m s. s = demo_sig pk m),
     falcon_verify = (\<lambda>pk m s. s = demo_sig pk m),
     sphincs_verify = (\<lambda>pk m s. s = demo_sig pk m),
     ed_public = pad32, ed_sign = demo_sig,
     falcon_keygen = (\<lambda>r. (pad32 r, pad32 r)), falcon_sign = (\<lambda>n. demo_sig),
     sphincs_keygen = (\<lambda>r. (pad32 r, pad32 r)), sphincs_sign = (\<lambda>n. demo_sig),
     blake3 = demo_hash, blake3_derive = (\<lambda>d. demo_hash), blake3_keyed = (\<lambda>k m. demo_hash (k @ m)),
     eggs_to_bytes = demo_eggs_to_bytes, eggs_from_bytes = demo_eggs_from_bytes,
     osc_per_sec = 1420407826\<rparr>"

lemma demo_eggs_roundtrip:
  assumes "wf_eggs es"
  shows "demo_eggs_from_bytes (demo_eggs_to_bytes es) = Some es"
proof -
  let ?ps = "map (\<lambda>e. (egg_scheme e, egg_sig e)) es"
  have "unat (of_nat (length es) :: byte) = length ?ps"
    using assms by (simp add: wf_eggs_def unat_of_nat_byte)
  moreover have "list_all key_ok ?ps"
    using assms by (auto simp: wf_eggs_def list_all_iff key_ok_def)
  ultimately show ?thesis
    using key_codec.read_run_enc [of ?ps "[]"]
    by (simp add: demo_eggs_from_bytes_def demo_eggs_to_bytes_def comp_def map_idI)
qed

lemma length_concat_keys:
  "\<forall>e \<in> set es. length (egg_sig e) < 65536 \<Longrightarrow>
   length (concat (map key_to_bytes (map (\<lambda>e. (egg_scheme e, egg_sig e)) es))) \<le> 65538 * length es"
  by (induction es) (auto simp: key_to_bytes_def)

lemma demo_eggs_short: "wf_eggs es \<Longrightarrow> length (demo_eggs_to_bytes es) < 2 ^ 32"
  using length_concat_keys [of es]
  by (simp add: wf_eggs_def demo_eggs_to_bytes_def del: map_map)

lemma demo_ext_ok: "ext_ok demo_ext"
  unfolding ext_ok_def using demo_eggs_roundtrip demo_eggs_short
  by (simp add: demo_ext_def)

lemma pad32_pad32 [simp]: "pad32 (pad32 x) = pad32 x"
  by (rule pad32_id) simp

lemma demo_sig_pad32 [simp]: "demo_sig (pad32 k) m = demo_sig k m"
  by (simp add: demo_sig_def)

lemma demo_ext_sign_ok: "ext_sign_ok demo_ext"
  by (simp add: ext_sign_ok_def demo_ext_def)

text \<open>Two device keys and an identity seed for the examples.\<close>

definition demo_seed :: "byte \<Rightarrow> bytes" where
  "demo_seed b = replicate 32 b"

definition demo_device :: "byte \<Rightarrow> signer" where
  "demo_device b = keypair_signer demo_ext (demo_seed b)"

lemma length_demo_seed [simp]: "length (demo_seed b) = 32"
  by (simp add: demo_seed_def)

lemma demo_device_public [simp]: "sg_public (demo_device b) = demo_seed b"
  by (simp add: demo_device_def keypair_signer_def demo_ext_def pad32_id)

lemma demo_seed_eq [simp]: "demo_seed a = demo_seed b \<longleftrightarrow> a = b"
  by (simp add: demo_seed_def)

lemma demo_device_ok:
  "signer_ok demo_ext (demo_device b) (ed25519_only demo_ext (demo_seed b)) (MASK_BASE demo_ext)"
  using keypair_signer_ok [OF demo_ext_sign_ok, of "demo_seed b"]
  by (simp add: demo_device_def) (simp add: demo_ext_def pad32_id)

section \<open>Witnesses of the key-bundle and signature properties\<close>

text \<open>The three-scheme public bundle of a derived signer, written out.\<close>

definition demo_bundle :: key_bundle where
  "demo_bundle = \<lparr>bundle_keys = [(0, demo_seed 1), (1, demo_seed 2), (2, demo_seed 3)]\<rparr>"

lemma demo_bundle_wf: "wf_bundle demo_ext demo_bundle"
  by (simp add: wf_bundle_def demo_bundle_def pubkey_len_def demo_ext_def)

theorem bundle_wire_roundtrip_witness:
  "bundle_from_bytes demo_ext (bundle_to_bytes demo_bundle) = Inr demo_bundle
   \<and> wf_bundle demo_ext demo_bundle"
  using bundle_wire_roundtrip [OF demo_ext_ok bundle_roundtrip [OF demo_ext_ok demo_bundle_wf]] .

theorem bundle_commit_order_free_witness:
  "bundle_new demo_ext [(1, demo_seed 2), (0, demo_seed 1)] = bundle_new demo_ext [(0, demo_seed 1), (1, demo_seed 2)]"
  using bundle_commit_order_free [of "[(1, demo_seed 2), (0, demo_seed 1)]" "[(0, demo_seed 1), (1, demo_seed 2)]" demo_ext]
  by simp

lemma demo_base_verifies:
  "verify_eggs demo_ext (sg_eggs (demo_device b) msg (MASK_BASE demo_ext))
     (ed25519_only demo_ext (demo_seed b)) msg (MASK_BASE demo_ext)"
  using demo_device_ok [of b] by (simp add: signer_ok_def)

theorem verify_eggs_proves_required_witness:
  "\<exists>e pk. e \<in> set (sg_eggs (demo_device 7) [9] (MASK_BASE demo_ext)) \<and> unat (egg_scheme e) = 0
     \<and> pubkey (ed25519_only demo_ext (demo_seed 7)) (egg_scheme e) = Some pk
     \<and> verify_egg demo_ext (egg_scheme e) pk [9] (egg_sig e)"
  using verify_eggs_proves_required [OF demo_base_verifies, of 0 7 "[9]"]
  by (simp add: MASK_BASE_def bit_scheme_bit demo_ext_def)

theorem declared_rule_sound_witness:
  "\<exists>e \<in> set (sg_eggs (demo_device 7) [9] 1). unat (egg_scheme e) = 0 \<and>
     (\<exists>pk. pubkey (ed25519_only demo_ext (demo_seed 7)) (egg_scheme e) = Some pk
         \<and> verify_egg demo_ext (egg_scheme e) pk [9] (egg_sig e))"
proof -
  have acc: "verify_eggs_declared demo_ext (sg_eggs (demo_device 7) [9] 1)
      (ed25519_only demo_ext (demo_seed 7)) [9] 1"
    by (simp add: verify_eggs_declared_def demo_device_def keypair_signer_def ed25519_only_def
        pubkey_def verify_egg_def verify_ed25519_def scheme_bit_def demo_ext_def pad32_id)
  have "bit (1 :: u16) 0" by simp
  with acc show ?thesis
    using declared_rule_sound [of demo_ext "sg_eggs (demo_device 7) [9] 1"
        "ed25519_only demo_ext (demo_seed 7)" "[9]" 1] by blast
qed

theorem derived_signer_verifies_witness:
  "\<exists>b. signing_public demo_ext (signing_derive demo_ext [1, 2]) = Inr b \<and> bundle_mask b = MASK_ALL demo_ext"
  using derived_signer_verifies [OF demo_ext_ok demo_ext_sign_ok covers_refl, of "[1, 2]"] by blast

end
