(* ===== verification/Demo_Fleet.thy ===== *)
theory Demo_Fleet
  imports Fleet_Adopt Fleet_Spec Demo_World
begin

text \<open>
  A small fleet in the example world: device 1 founds the chain (\<open>demo_g\<close>), adds device 2
  (\<open>demo_ga\<close>), and from there locks it (\<open>demo_lock\<close>), removes it with its consent (\<open>demo_rem\<close>) or
  adds it again (\<open>demo_re\<close>). The chains are made with the builders of the model. They are the
  concrete inputs at which the fold properties are applied.
\<close>

section \<open>The chains\<close>

abbreviation demo_hp :: bytes where "demo_hp \<equiv> demo_seed 9"

definition demo_g :: blob where
  "demo_g = build_genesis_v2_plated demo_ext (demo_device 1) demo_hp (demo_seed 8) 5 (Some (demo_seed 3)) TPM_EK"

definition demo_consent :: "i64 \<Rightarrow> egg list" where
  "demo_consent ct = sg_eggs (demo_device 2)
     (bindreq_signing_bytes_plated demo_hp (demo_seed 2) ct None UNSTATED) (MASK_BASE demo_ext)"

definition demo_ga :: blob where
  "demo_ga = build_add demo_ext demo_g (demo_device 1) (demo_seed 2) 7 6 (demo_consent 6)"

definition demo_rem :: blob where
  "demo_rem = build_remove_consented demo_ext demo_ga (demo_device 1) (demo_seed 2) 9 8
     (sg_eggs (demo_device 2) (departreq_signing_bytes demo_hp (demo_seed 2) 8) (MASK_BASE demo_ext))"

definition demo_re :: blob where
  "demo_re = build_add_declared demo_ext demo_rem (demo_device 1) (demo_seed 2) 11 10 (demo_consent 10)
     (ed25519_only demo_ext (demo_seed 2))"

lemma demo_simps [simp]:
  "time_ok 5" "time_ok 7" "time_ok 9" "time_ok 11" "time_ok 13"
  "plate_known TPM_EK" "demo_seed b \<noteq> zero32 \<longleftrightarrow> b \<noteq> 0"
  by (simp_all add: time_ok_def OP_TIME_MAX_OSC_def plate_known_def TPM_EK_def PIPE_def demo_seed_def zero32_def)

text \<open>Walks in which every known bundle is Ed25519 alone.\<close>

definition base_walk :: "walk \<Rightarrow> bool" where
  "base_walk w \<longleftrightarrow> w_floor w = MASK_BASE demo_ext \<and>
     (\<forall>(d, b) \<in> set (w_bundles w). b = ed25519_only demo_ext d)"

lemma base_known: "base_walk w \<Longrightarrow> known_bundle demo_ext (w_bundles w) d = ed25519_only demo_ext d"
  by (auto simp: base_walk_def known_bundle_def dest!: map_of_SomeD split: option.splits)

lemma foldl_and_same: "xs \<noteq> [] \<Longrightarrow> \<forall>x \<in> set xs. x = b \<Longrightarrow> foldl (\<lambda>a b. a AND b) m xs = m AND (b :: u16)"
proof (induction xs rule: rev_induct)
  case (snoc x xs)
  then show ?case by (cases "xs = []") (simp_all add: and.assoc)
qed simp

lemma base_live:
  assumes "base_walk w" "\<exists>d \<in> set (w_members w). d \<notin> set (w_locked w)"
  shows "live_mask demo_ext w = MASK_BASE demo_ext"
proof -
  have "live_mask demo_ext w = MASK_ALL demo_ext AND MASK_BASE demo_ext"
    unfolding live_mask_def using assms
    by (intro foldl_and_same) (auto simp: base_known filter_empty_conv)
  then show ?thesis using covers_all_base [of demo_ext] by (simp add: covers_def)
qed

lemma base_ratchet:
  assumes "base_walk w" "\<exists>d \<in> set (w_members w). d \<notin> set (w_locked w)"
  shows "base_walk (ratchet demo_ext p w)"
  using assms base_live [OF assms] by (simp add: base_walk_def)

lemma base_declared:
  assumes "fold_inner demo_ext ops = Inr w" "base_walk w"
  shows "declared_mask demo_ext ops d = MASK_BASE demo_ext"
  using assms base_known [OF assms(2), of d]
  by (auto simp: declared_mask_def known_bundle_def split: option.splits)

lemma demo_may_sign:
  assumes "fold_inner demo_ext ops = Inr w" "base_walk w" "demo_seed b \<in> set (w_members w)" "demo_seed b \<notin> set (w_locked w)"
  shows "may_sign demo_ext ops w (demo_device b)"
  using assms demo_device_ok [of b]
  by (simp add: may_sign_def base_declared base_known) (simp add: base_walk_def)

lemma demo_g_fold: "\<exists>w. fold_inner demo_ext demo_g = Inr w \<and> w_members w = [demo_seed 1] \<and> w_locked w = []
    \<and> w_bundles w = [] \<and> w_last_k w = 0 \<and> base_walk w"
proof -
  let ?p = "hd demo_g"
  have p: "demo_g = [?p]" by (simp add: demo_g_def build_genesis_v2_plated_def)
  let ?w = "(note_plate ?p (walk_init demo_ext))\<lparr>w_members := [demo_seed 1]\<rparr>"
  have ok: "signer_ok demo_ext (demo_device 1) (ed25519_only demo_ext (sg_public (demo_device 1))) (MASK_BASE demo_ext)"
    using demo_device_ok [of 1] by simp
  have ip: "ed_public demo_ext (demo_seed 8) \<noteq> zero32"
    by (simp add: demo_ext_def pad32_id)
  have "fold_inner demo_ext demo_g = Inr (ratchet demo_ext ?p ?w)"
    using genesis_step [OF refl ok _ _ ip disjI1 [OF refl], of 5 TPM_EK demo_hp "Some (demo_seed 3)"]
    by (simp add: demo_g_def build_genesis_v2_plated_def)
  moreover have "base_walk ?w" by (simp add: base_walk_def walk_init_def)
  then have "base_walk (ratchet demo_ext ?p ?w)" by (rule base_ratchet) (simp add: walk_init_def)
  ultimately show ?thesis by (simp add: walk_init_def)
qed

lemma demo_chain_hp [simp]: "chain_handle_proof (demo_g @ ops) = demo_hp"
  by (simp add: demo_g_def build_genesis_v2_plated_def chain_handle_proof_def genesis_handle_proof_def)

lemma demo_add:
  assumes ops: "chain_handle_proof ops = demo_hp" and f: "fold_inner demo_ext ops = Inr w" "base_walk w"
    and m: "w_members w = [demo_seed 1]" "w_locked w = []"
    and t: "time_ok t" "abs_diff_i64 t ct \<le> 10"
    and b: "b = None \<or> b = Some (ed25519_only demo_ext (demo_seed 2))"
  shows "\<exists>p v. build_add_with demo_ext ops (demo_device 1) (demo_seed 2) t ct (demo_consent ct) b None UNSTATED = ops @ [p]
     \<and> op_kind p = Add \<and> op_device p = demo_seed 2 \<and> op_signer p = demo_seed 1 \<and> op_bundle p = b
     \<and> fold_inner demo_ext (ops @ [p]) = Inr v \<and> base_walk v \<and> w_members v = [demo_seed 1, demo_seed 2]
     \<and> w_locked v = [] \<and> w_bundles v = w_bundles w @ [(demo_seed 2, ed25519_only demo_ext (demo_seed 2))]
     \<and> w_last_k v = w_last_k w"
proof -
  let ?e = "ed25519_only demo_ext (demo_seed 2)"
  have ms: "may_sign demo_ext ops w (demo_device 1)" using demo_may_sign [OF f] m by simp
  have win: "abs_diff_i64 t ct \<le> CONSENT_WINDOW_OSC demo_ext"
    using t(2) by (simp add: CONSENT_WINDOW_OSC_def demo_ext_def)
  have j: "signer_ok demo_ext (demo_device 2) ?e (bundle_mask ?e)" using demo_device_ok [of 2] by simp
  have je: "?e = (case b of Some x \<Rightarrow> x | None \<Rightarrow> ed25519_only demo_ext (demo_seed 2))" using b by auto
  obtain p where p: "build_add_with demo_ext ops (demo_device 1) (demo_seed 2) t ct (demo_consent ct) b None UNSTATED = ops @ [p]"
    and fp: "fold_inner demo_ext (ops @ [p]) = Inr (ratchet demo_ext p ((note_plate p w)\<lparr>w_members := w_members w @ [demo_seed 2],
      w_bundles := w_bundles w @ [(demo_seed 2, ?e)]\<rparr>))"
    using add_step [OF ms _ _ je j, where consent = "demo_consent ct" and ct = ct and pl = None and plk = UNSTATED and t = t] b m f(2) t(1) win ops
    by (auto simp: base_walk_def demo_consent_def)
  have "base_walk ((note_plate p w)\<lparr>w_members := w_members w @ [demo_seed 2], w_bundles := w_bundles w @ [(demo_seed 2, ?e)]\<rparr>)"
    using f(2) by (auto simp: base_walk_def)
  then have "base_walk (ratchet demo_ext p ((note_plate p w)\<lparr>w_members := w_members w @ [demo_seed 2],
      w_bundles := w_bundles w @ [(demo_seed 2, ?e)]\<rparr>))" by (rule base_ratchet) (auto simp: m)
  then show ?thesis using p fp m by (auto simp: build_add_with_def)
qed

lemma demo_ga_fold: "\<exists>p v. demo_ga = demo_g @ [p] \<and> op_kind p = Add \<and> op_device p = demo_seed 2 \<and> op_signer p = demo_seed 1
     \<and> fold_inner demo_ext demo_ga = Inr v \<and> base_walk v \<and> w_members v = [demo_seed 1, demo_seed 2]
     \<and> w_locked v = [] \<and> w_bundles v = [(demo_seed 2, ed25519_only demo_ext (demo_seed 2))] \<and> w_last_k v = 0"
proof -
  obtain w where w: "fold_inner demo_ext demo_g = Inr w" "w_members w = [demo_seed 1]" "w_locked w = []"
    "w_bundles w = []" "w_last_k w = 0" "base_walk w" using demo_g_fold by blast
  have t: "abs_diff_i64 7 6 \<le> 10" by (simp add: abs_diff_i64_def)
  show ?thesis
    using demo_add [OF _ w(1,6,2,3) _ t disjI1 [OF refl]] demo_chain_hp [of "[]"] w(4,5)
    by (auto simp: demo_ga_def build_add_def)
qed

lemma demo_rem_fold: "\<exists>p v. demo_rem = demo_ga @ [p] \<and> fold_inner demo_ext demo_rem = Inr v \<and> base_walk v
     \<and> w_members v = [demo_seed 1] \<and> w_locked v = [] \<and> w_bundles v = [(demo_seed 2, ed25519_only demo_ext (demo_seed 2))]
     \<and> w_last_k v = 0"
proof -
  obtain q w where q: "demo_ga = demo_g @ [q]" and w: "fold_inner demo_ext demo_ga = Inr w"
    "w_members w = [demo_seed 1, demo_seed 2]" "w_locked w = []"
    "w_bundles w = [(demo_seed 2, ed25519_only demo_ext (demo_seed 2))]" "w_last_k w = 0" "base_walk w"
    using demo_ga_fold by blast
  have ms: "may_sign demo_ext demo_ga w (demo_device 1)" using demo_may_sign [OF w(1,6)] w by simp
  have j: "signer_ok demo_ext (demo_device 2) (known_bundle demo_ext (w_bundles w) (demo_seed 2)) (MASK_BASE demo_ext)"
    using demo_device_ok [of 2] base_known [OF w(6)] by simp
  have win: "abs_diff_i64 9 8 \<le> CONSENT_WINDOW_OSC demo_ext"
    by (simp add: CONSENT_WINDOW_OSC_def demo_ext_def abs_diff_i64_def)
  have ch: "chain_handle_proof demo_ga = demo_hp" unfolding q by (rule demo_chain_hp)
  obtain p where p: "demo_rem = demo_ga @ [p]"
    and fp: "fold_inner demo_ext (demo_ga @ [p]) = Inr (ratchet demo_ext p (walk_without (demo_seed 2) p w))"
    using remove_consented_step [OF ms _ _ _ _ j _ refl win] w(2,6)
    by (auto simp: demo_rem_def ch base_walk_def)
  have "base_walk (walk_without (demo_seed 2) p w)" using w(6) by (simp add: base_walk_def)
  then have "base_walk (ratchet demo_ext p (walk_without (demo_seed 2) p w))"
    by (rule base_ratchet) (auto simp: w)
  then show ?thesis using p fp w by auto
qed

lemma demo_re_fold: "\<exists>p v. demo_re = demo_rem @ [p] \<and> op_kind p = Add \<and> op_device p = demo_seed 2
     \<and> op_bundle p = Some (ed25519_only demo_ext (demo_seed 2))
     \<and> fold_inner demo_ext demo_re = Inr v \<and> w_members v = [demo_seed 1, demo_seed 2]"
proof -
  obtain q where q: "demo_ga = demo_g @ [q]" using demo_ga_fold by blast
  obtain p where p: "demo_rem = demo_ga @ [p]" using demo_rem_fold by blast
  have ch: "demo_rem = demo_g @ [q, p]" unfolding p q append_assoc by simp
  obtain w where w: "fold_inner demo_ext demo_rem = Inr w" "base_walk w" "w_members w = [demo_seed 1]" "w_locked w = []"
    using demo_rem_fold by blast
  have t: "abs_diff_i64 11 10 \<le> 10" by (simp add: abs_diff_i64_def)
  have "chain_handle_proof demo_rem = demo_hp" unfolding ch by (rule demo_chain_hp)
  from demo_add [OF this w _ t disjI2 [OF refl]] show ?thesis
    by (auto simp: demo_re_def build_add_declared_def)
qed

text \<open>Device 1 locks device 2 (\<open>demo_lock\<close>) and departs (\<open>demo_dead\<close>).\<close>

definition demo_lock :: blob where
  "demo_lock = the (build_lock demo_ext demo_ga (demo_device 1) (demo_seed 2) 9)"

definition demo_dead :: blob where
  "demo_dead = build_depart demo_ext demo_lock (demo_device 1) 11"

definition demo_unlock :: blob where
  "demo_unlock = the (build_unlock demo_ext demo_lock (demo_device 1) (demo_seed 2) 11)"

lemma demo_lock_fold: "\<exists>p v. demo_lock = demo_ga @ [p] \<and> fold_inner demo_ext demo_lock = Inr v \<and> base_walk v
     \<and> w_members v = [demo_seed 1, demo_seed 2] \<and> w_locked v = [demo_seed 2]"
proof -
  obtain q w where w: "fold_inner demo_ext demo_ga = Inr w"
    "w_members w = [demo_seed 1, demo_seed 2]" "w_locked w = []" "base_walk w"
    using demo_ga_fold by blast
  have ms: "may_sign demo_ext demo_ga w (demo_device 1)" using demo_may_sign [OF w(1,4)] w by simp
  obtain p where p: "build_lock demo_ext demo_ga (demo_device 1) (demo_seed 2) 9 = Some (demo_ga @ [p])"
    "fold_inner demo_ext (demo_ga @ [p]) = Inr (ratchet demo_ext p ((note_plate p w)\<lparr>w_locked := w_locked w @ [demo_seed 2]\<rparr>))"
    using lock_step [OF ms, of 9 "demo_seed 2"] w by auto
  have "base_walk ((note_plate p w)\<lparr>w_locked := w_locked w @ [demo_seed 2]\<rparr>)"
    using w(4) by (auto simp: base_walk_def)
  then have "base_walk (ratchet demo_ext p ((note_plate p w)\<lparr>w_locked := w_locked w @ [demo_seed 2]\<rparr>))"
    by (rule base_ratchet) (auto simp: w)
  with p w show ?thesis by (auto simp: demo_lock_def)
qed

lemma demo_unlock_fold: "\<exists>p v. demo_unlock = demo_lock @ [p] \<and> fold_inner demo_ext demo_unlock = Inr v
     \<and> w_members v = [demo_seed 1, demo_seed 2] \<and> w_locked v = []"
proof -
  obtain w where w: "fold_inner demo_ext demo_lock = Inr w"
    "w_members w = [demo_seed 1, demo_seed 2]" "w_locked w = [demo_seed 2]" "base_walk w"
    using demo_lock_fold by blast
  have ms: "may_sign demo_ext demo_lock w (demo_device 1)" using demo_may_sign [OF w(1,4)] w by simp
  show ?thesis using unlock_step [OF ms, of 11 "demo_seed 2"] w by (auto simp: demo_unlock_def)
qed

lemma demo_dead_fold: "\<exists>p v. demo_dead = demo_lock @ [p] \<and> fold_inner demo_ext demo_dead = Inr v
     \<and> w_members v = [demo_seed 2] \<and> w_locked v = [demo_seed 2]"
proof -
  obtain w where w: "fold_inner demo_ext demo_lock = Inr w"
    "w_members w = [demo_seed 1, demo_seed 2]" "w_locked w = [demo_seed 2]" "base_walk w"
    using demo_lock_fold by blast
  have ms: "may_sign demo_ext demo_lock w (demo_device 1)" using demo_may_sign [OF w(1,4)] w by simp
  show ?thesis using depart_step [OF ms, of 11] w by (auto simp: demo_dead_def)
qed

section \<open>Witnesses of the fold properties\<close>

theorem no_conscription_witness:
  "\<exists>p \<in> set demo_ga. joined_by_own_key demo_ext (demo_seed 2) p"
  using demo_ga_fold no_conscription [OF demo_ext_ok, of demo_ga _ "demo_seed 2"] by auto

theorem no_expulsion_witness:
  "\<exists>post. demo_rem = demo_ga @ post \<and> (\<exists>p \<in> set post. left_by_own_key demo_ext (demo_seed 2) p)"
proof -
  obtain v where v: "fold_inner demo_ext demo_ga = Inr v" "w_members v = [demo_seed 1, demo_seed 2]"
    using demo_ga_fold by blast
  obtain p w where p: "demo_rem = demo_ga @ [p]" "fold_inner demo_ext (demo_ga @ [p]) = Inr w" "w_members w = [demo_seed 1]"
    using demo_rem_fold by auto
  from no_expulsion [OF demo_ext_ok v(1) p(2), of "demo_seed 2"] v(2) p show ?thesis by auto
qed

theorem every_op_authorised_witness:
  "\<exists>p v. demo_ga = demo_g @ [p] \<and> fold_inner demo_ext demo_g = Inr v \<and> op_signer p \<in> set (w_members v)"
proof -
  obtain p v where p: "demo_ga = demo_g @ [p]" "fold_inner demo_ext demo_ga = Inr v" using demo_ga_fold by blast
  have "demo_g \<noteq> []" by (simp add: demo_g_def build_genesis_v2_plated_def)
  with p every_op_authorised [of demo_ext demo_g p "[]" v] show ?thesis by auto
qed

theorem fold_answer_wf_witness:
  "\<exists>m f l. fold_full demo_ext demo_lock = Inr (m, f) \<and> locked_out demo_ext demo_lock = Inr l \<and> set l \<subseteq> set m"
proof -
  obtain v where v: "fold_inner demo_ext demo_lock = Inr v" using demo_lock_fold by blast
  then show ?thesis
    using fold_answer_wf [of demo_ext demo_lock "w_members v" "w_floor v" "w_locked v"]
    by (simp add: fold_full_def locked_out_def)
qed

theorem floor_never_falls_witness:
  "\<exists>p v w. demo_rem = demo_ga @ [p] \<and> fold_inner demo_ext demo_ga = Inr v \<and> fold_inner demo_ext demo_rem = Inr w
     \<and> covers (w_floor w) (w_floor v)"
proof -
  obtain p w where p: "demo_rem = demo_ga @ [p]" "fold_inner demo_ext demo_rem = Inr w" using demo_rem_fold by blast
  obtain v where v: "fold_inner demo_ext demo_ga = Inr v" using demo_ga_fold by blast
  have "covers (w_floor w) (w_floor v)"
    using floor_never_falls [of demo_ext demo_ga "w_members v" "w_floor v" "[p]" "w_members w" "w_floor w"] p v
    by (simp add: fold_full_def)
  with p v show ?thesis by blast
qed

lemma demo_chain_hash: "chain_hash demo_ext p \<noteq> zero32"
proof -
  have "hd (chain_hash demo_ext p) = 1" by (simp add: chain_hash_def demo_ext_def demo_hash_def)
  then show ?thesis by (auto simp: zero32_def)
qed

lemma demo_g_wf: "p \<in> set demo_g \<Longrightarrow> wf_op demo_ext p \<and> framed (op_version p)"
proof -
  assume "p \<in> set demo_g"
  then have p: "p = hd demo_g" "demo_g = [hd demo_g]" by (auto simp: demo_g_def build_genesis_v2_plated_def)
  show ?thesis unfolding p(1)
    by (simp add: demo_g_def build_genesis_v2_plated_def wf_op_def framed_def wf_eggs_def sign_op_plated_sigs
        demo_device_def keypair_signer_def, simp add: demo_ext_def demo_sig_def)
qed

theorem head_determines_chain_witness:
  "\<not> hash_clash demo_ext demo_g demo_g \<and> demo_g = demo_g"
proof -
  obtain g where "demo_g = [g]" by (simp add: demo_g_def build_genesis_v2_plated_def)
  then have "set demo_g = {g}" by (metis list.simps(15) empty_set)
  then have nc: "\<not> hash_clash demo_ext demo_g demo_g" by (simp add: hash_clash_def demo_chain_hash)
  obtain v where v: "fold_inner demo_ext demo_g = Inr v" using demo_g_fold by blast
  have "\<forall>p \<in> set demo_g \<union> set demo_g. wf_op demo_ext p \<and> framed (op_version p)" using demo_g_wf by blast
  from head_determines_chain [OF demo_ext_ok v v this refl nc] nc show ?thesis by blast
qed

theorem checkpoint_spine_witness:
  "map op_ckpt_k (ckpts demo_ga) = map of_nat [1..<Suc (length (ckpts demo_ga))]"
  using demo_ga_fold checkpoint_spine [of demo_ext demo_ga] by blast

theorem dead_fleet_is_final_witness:
  "\<exists>e. fold_inner demo_ext (demo_dead @ demo_g) = Inl e"
  using demo_dead_fold dead_fleet_is_final [of demo_ext demo_dead _ demo_g]
  by (auto simp: demo_g_def build_genesis_v2_plated_def)

theorem lock_holds_witness:
  "\<exists>p. demo_unlock = demo_lock @ [p] \<and> op_signer p \<noteq> demo_seed 2 \<and> op_device p = demo_seed 2 \<and>
     (op_kind p = Unlock \<or> op_kind p = Remove)"
proof -
  obtain v where v: "fold_inner demo_ext demo_lock = Inr v" "w_locked v = [demo_seed 2]"
    using demo_lock_fold by blast
  obtain p w where p: "demo_unlock = demo_lock @ [p]" "fold_inner demo_ext (demo_lock @ [p]) = Inr w" "w_locked w = []"
    using demo_unlock_fold by auto
  from lock_holds [OF demo_ext_ok v(1) _ p(2), of "demo_seed 2"] v(2) p(1,3) show ?thesis
    by (auto simp: Cons_eq_append_conv)
qed

theorem fold_error_localised_witness:
  "fold_inner demo_ext (demo_g @ [hd demo_g]) = Inl (BrokenChain 1) \<and>
   fold_inner demo_ext ((demo_g @ [hd demo_g]) @ demo_g) = Inl (BrokenChain 1)"
proof -
  obtain v where v: "fold_inner demo_ext demo_g = Inr v" using demo_g_fold by blast
  have g: "demo_g = [hd demo_g]" by (simp add: demo_g_def build_genesis_v2_plated_def)
  have prev: "op_prev_hash (hd demo_g) = zero32" by (simp add: demo_g_def build_genesis_v2_plated_def)
  have "head demo_ext demo_g \<noteq> zero32" by (simp add: head_def demo_chain_hash demo_g_def build_genesis_v2_plated_def)
  then have "w_prev v \<noteq> zero32" using fold_inner_prev [OF v] by simp
  moreover have "demo_g \<noteq> []" "length demo_g = 1" by (simp_all add: demo_g_def build_genesis_v2_plated_def)
  ultimately have "fold_inner demo_ext (demo_g @ [hd demo_g]) = Inl (BrokenChain 1)"
    by (simp add: fold_inner_snoc v fleet_step_def check_shape_def prev)
  with fold_error_localised [OF this] show ?thesis by blast
qed

theorem readded_device_keeps_old_bundle_witness:
  "declared_bundle demo_ext demo_re (demo_seed 2) = Some (ed25519_only demo_ext (demo_seed 2))"
proof -
  obtain v where v: "fold_inner demo_ext demo_rem = Inr v"
    "w_bundles v = [(demo_seed 2, ed25519_only demo_ext (demo_seed 2))]" using demo_rem_fold by blast
  obtain p w where p: "demo_re = demo_rem @ [p]" "op_kind p = Add" "op_device p = demo_seed 2"
    "op_bundle p = Some (ed25519_only demo_ext (demo_seed 2))" "fold_inner demo_ext (demo_rem @ [p]) = Inr w"
    using demo_re_fold by auto
  have "declared_bundle demo_ext demo_rem (demo_seed 2) = Some (ed25519_only demo_ext (demo_seed 2))"
    using v by (simp add: declared_bundle_def)
  from readded_device_keeps_old_bundle [OF v(1) this p(5,2,3,4)] p(1) show ?thesis by simp
qed

lemma demo_re_steady: "steady_rejoins demo_ext demo_re"
proof -
  obtain g where g: "demo_g = [] @ [g]" "op_kind g = Genesis" by (simp add: demo_g_def build_genesis_v2_plated_def)
  obtain q where q: "demo_ga = demo_g @ [q]" using demo_ga_fold by blast
  obtain p v where p: "demo_rem = demo_ga @ [p]" "fold_inner demo_ext demo_rem = Inr v"
      "w_bundles v = [(demo_seed 2, ed25519_only demo_ext (demo_seed 2))]" using demo_rem_fold by blast
  have kind: "op_kind p = Remove" using p(1) by (auto simp: demo_rem_def build_remove_consented_def sign_op_def)
  obtain r where r: "demo_re = demo_rem @ [r]" "op_device r = demo_seed 2" "op_bundle r = Some (ed25519_only demo_ext (demo_seed 2))"
    using demo_re_fold by blast
  obtain u where u: "fold_inner demo_ext demo_g = Inr u" "w_bundles u = []" using demo_g_fold by blast
  have "steady_rejoins demo_ext demo_g" unfolding g(1) steady_rejoins_snoc by (simp add: same_schemes_def g(2))
  moreover have "same_schemes demo_ext demo_g q" using u by (simp add: same_schemes_walk)
  moreover have "same_schemes demo_ext demo_ga p" by (simp add: same_schemes_def kind)
  moreover have "same_schemes demo_ext demo_rem r" using p(3) r by (simp add: same_schemes_walk [OF p(2)] joined_bundle_def)
  ultimately show ?thesis unfolding r(1) steady_rejoins_snoc p(1) q by simp
qed

theorem fold_refines_automaton_witness:
  "\<exists>v. fleet_trace (base_schemes demo_ext) (known_schemes demo_ext) (map (event_of demo_ext) demo_re) v
     \<and> v_members v = {demo_seed 1, demo_seed 2} \<and> v_caps v (demo_seed 2) = Some (base_schemes demo_ext)"
proof -
  obtain w where w: "fold_inner demo_ext demo_re = Inr w" "w_members w = [demo_seed 1, demo_seed 2]"
    using demo_re_fold by blast
  from fold_refines_automaton [OF w(1) demo_re_steady] w(2) readded_device_keeps_old_bundle_witness show ?thesis
    by (auto simp: ed25519_only_schemes)
qed

section \<open>Witnesses of the builder properties\<close>

lemma demo_device_base: "signer_ok demo_ext (demo_device b)
    (ed25519_only demo_ext (sg_public (demo_device b))) (MASK_BASE demo_ext)"
  using demo_device_ok [of b] by simp

lemma demo_identity_key: "ed_public demo_ext (demo_seed 8) \<noteq> zero32"
  by (simp add: demo_ext_def pad32_id)

theorem genesis_builds_witness:
  "fleet_fold demo_ext (build_genesis demo_ext (demo_device 1) demo_hp (demo_seed 8) 5) = Inr [demo_seed 1]
   \<and> fleet_fold demo_ext demo_g = Inr [demo_seed 1]"
  using genesis_builds [OF demo_ext_sign_ok demo_device_base _ _ demo_identity_key, of 5 TPM_EK 1 demo_hp "Some (demo_seed 3)"]
  by (simp add: demo_g_def)

lemma demo_window: "abs_diff_i64 7 6 \<le> CONSENT_WINDOW_OSC demo_ext" "abs_diff_i64 9 8 \<le> CONSENT_WINDOW_OSC demo_ext"
  by (simp_all add: CONSENT_WINDOW_OSC_def demo_ext_def abs_diff_i64_def)

theorem add_builds_witness:
  "fleet_fold demo_ext demo_ga = Inr [demo_seed 1, demo_seed 2]"
proof -
  obtain w where w: "fold_inner demo_ext demo_g = Inr w" "w_members w = [demo_seed 1]" "w_locked w = []"
    "w_bundles w = []" "base_walk w" using demo_g_fold by blast
  have ms: "may_sign demo_ext demo_g w (demo_device 1)" using demo_may_sign [OF w(1,5)] w by simp
  have j: "signer_ok demo_ext (demo_device 2) (ed25519_only demo_ext (demo_seed 2))
      (bundle_mask (ed25519_only demo_ext (demo_seed 2)))" using demo_device_ok [of 2] by simp
  have cp: "chain_handle_proof demo_g = demo_hp" using demo_chain_hp [of "[]"] by simp
  show ?thesis
    using add_builds [OF ms _ _ _ _ j, where b = None and d = "demo_seed 2" and consent = "demo_consent 6" and ct = 6 and pl = None
        and plk = UNSTATED and t = 7] w demo_window(1)
    by (simp add: demo_ga_def build_add_def cp demo_consent_def base_walk_def)
qed

theorem removal_builds_witness:
  "fleet_fold demo_ext demo_rem = Inr [demo_seed 1]
   \<and> fleet_fold demo_ext (build_depart demo_ext demo_ga (demo_device 1) 9) = Inr [demo_seed 2]"
proof -
  obtain q w where q: "demo_ga = demo_g @ [q]" and w: "fold_inner demo_ext demo_ga = Inr w"
    "w_members w = [demo_seed 1, demo_seed 2]" "w_locked w = []" "base_walk w" using demo_ga_fold by blast
  have ms: "may_sign demo_ext demo_ga w (demo_device 1)" using demo_may_sign [OF w(1,4)] w by simp
  have j: "signer_ok demo_ext (demo_device 2) (known_bundle demo_ext (w_bundles w) (demo_seed 2)) (MASK_BASE demo_ext)"
    using demo_device_ok [of 2] base_known [OF w(4)] by simp
  have ch: "chain_handle_proof demo_ga = demo_hp" unfolding q by (rule demo_chain_hp)
  show ?thesis
    using removal_builds [OF ms _ _ _ _ j _ refl demo_window(2)] w
    by (simp add: demo_rem_def ch base_walk_def)
qed

theorem declare_promotes_witness:
  "\<exists>ops' floor. build_declare_plated demo_ext demo_ga (demo_device 2) 9 None UNSTATED = Some ops'
     \<and> fold_full demo_ext ops' = Inr ([demo_seed 1, demo_seed 2], floor) \<and> covers floor (MASK_BASE demo_ext)"
proof -
  obtain w where w: "fold_inner demo_ext demo_ga = Inr w"
    "w_members w = [demo_seed 1, demo_seed 2]" "w_locked w = []" "base_walk w"
    "w_bundles w = [(demo_seed 2, ed25519_only demo_ext (demo_seed 2))]" using demo_ga_fold by blast
  have nb: "sg_bundle (demo_device 2) = None" by (simp add: demo_device_def keypair_signer_def)
  have ok: "signer_ok demo_ext (demo_device 2) (ed25519_only demo_ext (demo_seed 2))
      (bundle_mask (ed25519_only demo_ext (demo_seed 2)))" using demo_device_ok [of 2] by simp
  show ?thesis
    using declare_promotes [OF w(1) _ _ _ ok, of 9 UNSTATED "MASK_BASE demo_ext" None] w(2,3,5)
      w(4) [unfolded base_walk_def] base_known [OF w(4)] nb by auto
qed

theorem lock_unlock_checkpoint_build_witness:
  "locked_out demo_ext demo_lock = Inr [demo_seed 2]
   \<and> latest_checkpoint (build_checkpoint demo_ext demo_ga (demo_device 1) 9 1 demo_hp 4) = Some (1, demo_hp, 4)"
proof -
  obtain w where w: "fold_inner demo_ext demo_ga = Inr w"
    "w_members w = [demo_seed 1, demo_seed 2]" "w_locked w = []" "w_last_k w = 0" "base_walk w"
    using demo_ga_fold by blast
  have ms: "may_sign demo_ext demo_ga w (demo_device 1)" using demo_may_sign [OF w(1,5)] w by simp
  show ?thesis
    using lock_unlock_checkpoint_build [OF ms, of 9 "demo_seed 2" 1 demo_hp 4] w
    by (auto simp: demo_lock_def)
qed

section \<open>Witnesses of the adoption and succession properties\<close>

theorem adoption_is_prefix_order_witness:
  "lands (chain_adoption demo_ext demo_ga (Some demo_g)) \<and> chain_adoption demo_ext demo_g (Some demo_g) = Unchanged"
proof -
  have ne: "demo_g \<noteq> []" by (simp add: demo_g_def build_genesis_v2_plated_def)
  obtain p where "demo_ga = demo_g @ [p]" using demo_ga_fold by blast
  then have "prefix demo_g demo_ga" by (metis prefixI)
  then show ?thesis using adoption_is_prefix_order [OF ne, of demo_ext demo_ga]
      adoption_is_prefix_order [OF ne, of demo_ext demo_g] by simp
qed

lemma demo_known_scheme: "e \<in> set (sg_eggs (demo_device b) msg m) \<Longrightarrow>
    covers (MASK_KNOWN demo_ext) (scheme_bit (min (egg_scheme e) 15))"
  by (simp add: demo_device_def keypair_signer_def demo_ext_def MASK_KNOWN_def MASK_ALL_def covers_bits bit_or_iff)

lemma demo_successor:
  "\<exists>w g. fold_inner demo_ext demo_g = Inr w \<and> genesis_hash demo_ext demo_g = Some g
     \<and> genesis_handle_proof demo_g = Some demo_hp \<and> sg_public (demo_device 1) \<in> set (w_members w)
     \<and> signer_ok demo_ext (demo_device 1) (known_bundle demo_ext (w_bundles w) (sg_public (demo_device 1)))
         (declared_mask demo_ext demo_g (sg_public (demo_device 1)))
     \<and> covers (declared_mask demo_ext demo_g (sg_public (demo_device 1))) (w_floor w)"
proof -
  obtain w where w: "fold_inner demo_ext demo_g = Inr w" "w_members w = [demo_seed 1]" "base_walk w"
    using demo_g_fold by blast
  have "genesis_handle_proof demo_g = Some demo_hp" "\<exists>g. genesis_hash demo_ext demo_g = Some g"
    by (simp_all add: demo_g_def build_genesis_v2_plated_def genesis_handle_proof_def genesis_hash_def)
  with w demo_device_ok [of 1] show ?thesis
    by (auto simp: base_declared [OF w(1,3)] base_known [OF w(3)] base_walk_def)
qed


theorem succession_complete_witness:
  "\<exists>r g. successor_new demo_ext demo_g demo_hp demo_hp [demo_device 1] = Inr r
     \<and> verify_for_pin demo_ext r g = Inr ()"
proof -
  obtain w g where d: "fold_inner demo_ext demo_g = Inr w" "genesis_hash demo_ext demo_g = Some g"
    "genesis_handle_proof demo_g = Some demo_hp" "sg_public (demo_device 1) \<in> set (w_members w)"
    "signer_ok demo_ext (demo_device 1) (known_bundle demo_ext (w_bundles w) (sg_public (demo_device 1)))
         (declared_mask demo_ext demo_g (sg_public (demo_device 1)))"
    "covers (declared_mask demo_ext demo_g (sg_public (demo_device 1))) (w_floor w)" using demo_successor by blast
  show ?thesis
    using succession_complete [OF d(1,3) _ _ d(4,5,6), of "[demo_device 1]" demo_hp g] d(2) demo_known_scheme by auto
qed

end
