(* ===== verification/Fleet_Wire.thy ===== *)
theory Fleet_Wire
  imports Fleet_Build
begin

text \<open>
  src/src/fleet.rs, the codec of one op: \<open>op_field_values\<close>, \<open>parse_op\<close> and their helpers. The values
  are those of the \<open>vsf\<close> crate the source builds and matches on; the crate's own conversion
  \<open>from_vsf_type\<close>, which the source falls back to, is a parameter (record \<open>vsf_conv\<close>). A Rust
  \<open>usize\<close> is 64 bits wide.
\<close>

section \<open>Values\<close>

datatype vsf = V_hP bytes | V_hb bytes | V_u u64 bool | V_ke bytes | V_e et_type | V_ge bytes | V_a string | V_x string
  | V_hp bytes | V_kx bytes | V_v byte bytes | V_d string | V_ni bytes | V_nj bytes | V_np u16
  | V_u3 byte | V_u4 u16 | V_u5 u32 | V_u6 u64

record vsf_conv =
  as_u8 :: "vsf \<Rightarrow> byte option"
  as_u64 :: "vsf \<Rightarrow> u64 option"

text \<open>An unsigned integer arrives at whatever width fits: what was written as \<open>u\<close> may come back as \<open>u3\<close>,
  \<open>u4\<close>, \<open>u5\<close> or \<open>u6\<close> of the same number. Every other value comes back as it was written.\<close>

fun unsigned_of :: "vsf \<Rightarrow> u64 option" where
  "unsigned_of (V_u n False) = Some n"
| "unsigned_of (V_u3 n) = Some (ucast n)"
| "unsigned_of (V_u4 n) = Some (ucast n)"
| "unsigned_of (V_u5 n) = Some (ucast n)"
| "unsigned_of (V_u6 n) = Some n"
| "unsigned_of _ = None"

fun same_value :: "vsf \<Rightarrow> vsf \<Rightarrow> bool" where
  "same_value (V_u n False) v \<longleftrightarrow> unsigned_of v = Some n"
| "same_value v v' \<longleftrightarrow> v' = v"

text \<open>What the code relies on: \<open>u8::from_vsf_type\<close> and \<open>u64::from_vsf_type\<close> read an unsigned value that
  fits, at any width.\<close>

definition conv64_ok :: "vsf_conv \<Rightarrow> bool" where
  "conv64_ok C \<longleftrightarrow> (\<forall>v n. unsigned_of v = Some n \<longrightarrow> as_u64 C v = Some n)"

definition conv_ok :: "vsf_conv \<Rightarrow> bool" where
  "conv_ok C \<longleftrightarrow> (\<forall>v b. unsigned_of v = Some (ucast b) \<longrightarrow> as_u8 C v = Some b) \<and> conv64_ok C"

lemma same_value_refl [simp]: "same_value v v"
  by (cases "(v, v)" rule: same_value.cases) simp_all

lemma same_values_refl [simp]: "list_all2 same_value vs vs"
  by (simp add: list.rel_refl)

lemma same_value_typed [simp]:
  "same_value v (V_hP b) \<longleftrightarrow> v = V_hP b" "same_value v (V_hb b) \<longleftrightarrow> v = V_hb b" "same_value v (V_ge b) \<longleftrightarrow> v = V_ge b"
  "same_value v (V_e t) \<longleftrightarrow> v = V_e t" "same_value v (V_ke b) \<longleftrightarrow> v = V_ke b"
  by (cases "(v, v)" rule: same_value.cases; auto)+

datatype wire_error =
    NoValues | BadVersionType | UnknownVersion byte | TooFew nat | BadField string string | BadKindType | BadKind nat
  | BadTime | MissingIdentity | MissingConsentTime | MissingConsentSig op_kind | BadConsentEggs | MissingCkpt string
  | BadBundleBytes bundle_error | MissingPlateKind | BadPlateKind | UnsignedPlate | BadEggScheme | BadEggSig

definition take_u64 :: "vsf_conv \<Rightarrow> vsf \<Rightarrow> string \<Rightarrow> wire_error + u64" where
  "take_u64 C v what = (case v of V_u n False \<Rightarrow> Inr n
     | other \<Rightarrow> (case as_u64 C other of Some n \<Rightarrow> Inr n | None \<Rightarrow> Inl (BadField what ''u'')))"

fun take_hp32 :: "vsf \<Rightarrow> string \<Rightarrow> wire_error + bytes" where
  "take_hp32 (V_hP b) what = (if length b = 32 then Inr b else Inl (BadField what ''hP32''))"
| "take_hp32 _ what = Inl (BadField what ''hP32'')"

fun take_hb32 :: "vsf \<Rightarrow> string \<Rightarrow> wire_error + bytes" where
  "take_hb32 (V_hb b) what = (if length b = 32 then Inr b else Inl (BadField what ''hb32''))"
| "take_hb32 _ what = Inl (BadField what ''hb32'')"

fun take_ke32 :: "vsf \<Rightarrow> string \<Rightarrow> wire_error + bytes" where
  "take_ke32 (V_ke b) what = (if length b = 32 then Inr b else Inl (BadField what ''ke32''))"
| "take_ke32 _ what = Inl (BadField what ''ke32'')"

text \<open>\<open>slice.get(i)\<close>.\<close>

definition vget :: "'a list \<Rightarrow> nat \<Rightarrow> 'a option" where
  "vget xs i = (if i < length xs then Some (xs ! i) else None)"

section \<open>Encoding\<close>

definition consent_to_wire :: "ext \<Rightarrow> fleet_op \<Rightarrow> bytes" where
  "consent_to_wire W p =
     (if framed (op_version p) then eggs_to_bytes W (op_consent p)
      else (case op_consent p of [] \<Rightarrow> [] | e # _ \<Rightarrow> egg_sig e))"

definition consent_from_wire :: "ext \<Rightarrow> op_version \<Rightarrow> bytes \<Rightarrow> wire_error + egg list" where
  "consent_from_wire W v bs =
     (if framed v then (case eggs_from_bytes W bs of Some es \<Rightarrow> Inr es | None \<Rightarrow> Inl BadConsentEggs)
      else Inr [\<lparr>egg_scheme = ED25519 W, egg_sig = bs\<rparr>])"

definition op_head_values :: "fleet_op \<Rightarrow> vsf list" where
  "op_head_values p =
     [V_hP (op_handle_proof p), V_hb (op_prev_hash p), V_u (ucast (op_kind_byte (op_kind p))) False,
      V_ke (op_device p), V_e (E6 (op_time p)), V_ke (op_signer p)]"

definition op_group_values :: "ext \<Rightarrow> fleet_op \<Rightarrow> vsf list" where
  "op_group_values W p =
     (if op_kind p = Genesis
      then V_ke (op_identity_pubkey p) # (if op_identity_sig p \<noteq> [] then [V_ge (op_identity_sig p)] else [])
      else [])
     @ (if op_kind p = Add then [V_e (E6 (op_consent_t p)), V_ge (consent_to_wire W p)] else [])
     @ (if op_kind p = Remove \<and> op_consent p \<noteq> []
        then [V_e (E6 (op_consent_t p)), V_ge (consent_to_wire W p)] else [])
     @ (if op_kind p = Checkpoint
        then [V_u (op_ckpt_k p) False, V_hb (op_ckpt_commit p), V_u (op_ckpt_fanout_epoch p) False] else [])"

definition op_bundle_values :: "fleet_op \<Rightarrow> vsf list" where
  "op_bundle_values p =
     (case op_bundle p of
        Some b \<Rightarrow> if op_kind p = Add \<or> op_kind p = Declare then [V_ge (bundle_to_bytes b)] else []
      | None \<Rightarrow> [])"

definition op_plate_values :: "fleet_op \<Rightarrow> vsf list" where
  "op_plate_values p =
     (if plate_kind_op (op_kind p)
      then (if op_version p = V4 then [V_u (ucast (op_plate_kind p)) False] else [])
           @ (case op_plate p of Some q \<Rightarrow> [V_hb q] | None \<Rightarrow> [])
      else [])"

definition egg_values :: "egg list \<Rightarrow> vsf list" where
  "egg_values es = concat (map (\<lambda>e. [V_u (ucast (egg_scheme e)) False, V_ge (egg_sig e)]) es)"

definition op_field_values :: "ext \<Rightarrow> fleet_op \<Rightarrow> vsf list" where
  "op_field_values W p =
     (if op_version p \<noteq> V1 then [V_u (ucast (op_version_byte (op_version p))) False] else [])
     @ op_head_values p @ op_group_values W p @ op_bundle_values p @ op_plate_values p @ egg_values (op_sigs p)"

section \<open>Parsing\<close>

definition parse_version :: "vsf_conv \<Rightarrow> vsf \<Rightarrow> wire_error + op_version \<times> nat" where
  "parse_version C v =
     (case v of V_hP _ \<Rightarrow> Inr (V1, 0)
      | other \<Rightarrow> (case as_u8 C other of None \<Rightarrow> Inl BadVersionType
                 | Some b \<Rightarrow> (case op_version_from_byte b of None \<Rightarrow> Inl (UnknownVersion b)
                            | Some ver \<Rightarrow> Inr (ver, 1))))"

definition parse_small :: "vsf_conv \<Rightarrow> wire_error \<Rightarrow> vsf \<Rightarrow> wire_error + byte" where
  "parse_small C err v = (case v of V_u n False \<Rightarrow> Inr (ucast n)
     | other \<Rightarrow> (case as_u8 C other of Some b \<Rightarrow> Inr b | None \<Rightarrow> Inl err))"

definition parse_kind :: "vsf_conv \<Rightarrow> vsf \<Rightarrow> wire_error + op_kind" where
  "parse_kind C v =
     (case v of
        V_u n False \<Rightarrow> (case op_kind_from_u8 (ucast n) of Some k \<Rightarrow> Inr k | None \<Rightarrow> Inl (BadKind (unat n)))
      | other \<Rightarrow> (case as_u8 C other of None \<Rightarrow> Inl BadKindType
                 | Some b \<Rightarrow> (case op_kind_from_u8 b of Some k \<Rightarrow> Inr k | None \<Rightarrow> Inl (BadKind (unat b)))))"

text \<open>The kind-gated groups, with the cursor \<open>i\<close> after them.\<close>

record op_groups =
  gr_i :: nat
  gr_identity_pubkey :: bytes
  gr_identity_sig :: bytes
  gr_consent_t :: i64
  gr_consent :: "egg list"
  gr_ckpt_k :: u64
  gr_ckpt_commit :: bytes
  gr_ckpt_fanout_epoch :: u64

definition no_groups :: op_groups where
  "no_groups = \<lparr>gr_i = 6, gr_identity_pubkey = zero32, gr_identity_sig = [], gr_consent_t = 0, gr_consent = [],
     gr_ckpt_k = 0, gr_ckpt_commit = zero32, gr_ckpt_fanout_epoch = 0\<rparr>"

definition parse_consent :: "ext \<Rightarrow> op_kind \<Rightarrow> op_version \<Rightarrow> i64 \<Rightarrow> vsf list \<Rightarrow> wire_error + op_groups" where
  "parse_consent W kind ver t values =
     (case vget values 7 of
        Some (V_ge s) \<Rightarrow> (case consent_from_wire W ver s of Inl e \<Rightarrow> Inl e
          | Inr es \<Rightarrow> Inr (no_groups\<lparr>gr_i := 8, gr_consent_t := t, gr_consent := es\<rparr>))
      | _ \<Rightarrow> Inl (MissingConsentSig kind))"

definition parse_checkpoint :: "vsf_conv \<Rightarrow> vsf list \<Rightarrow> wire_error + op_groups" where
  "parse_checkpoint C values =
     (case vget values 6 of None \<Rightarrow> Inl (MissingCkpt ''k'') | Some v6 \<Rightarrow>
      (case take_u64 C v6 ''k'' of Inl e \<Rightarrow> Inl e | Inr k \<Rightarrow>
       (case vget values 7 of None \<Rightarrow> Inl (MissingCkpt ''commit'') | Some v7 \<Rightarrow>
        (case take_hb32 v7 ''commit'' of Inl e \<Rightarrow> Inl e | Inr c \<Rightarrow>
         (case vget values 8 of None \<Rightarrow> Inl (MissingCkpt ''fanout epoch'') | Some v8 \<Rightarrow>
          (case take_u64 C v8 ''fanout epoch'' of Inl e \<Rightarrow> Inl e | Inr ep \<Rightarrow>
            Inr (no_groups\<lparr>gr_i := 9, gr_ckpt_k := k, gr_ckpt_commit := c, gr_ckpt_fanout_epoch := ep\<rparr>)))))))"

definition parse_groups :: "ext \<Rightarrow> vsf_conv \<Rightarrow> op_version \<Rightarrow> op_kind \<Rightarrow> vsf list \<Rightarrow> wire_error + op_groups" where
  "parse_groups W C ver kind values =
     (case kind of
        Genesis \<Rightarrow>
          (case vget values 6 of None \<Rightarrow> Inl MissingIdentity
           | Some v \<Rightarrow> (case take_ke32 v ''identity'' of Inl e \<Rightarrow> Inl e
              | Inr ip \<Rightarrow> (case vget values 7 of
                    Some (V_ge s) \<Rightarrow> Inr (no_groups\<lparr>gr_i := 8, gr_identity_pubkey := ip, gr_identity_sig := s\<rparr>)
                  | _ \<Rightarrow> Inr (no_groups\<lparr>gr_i := 7, gr_identity_pubkey := ip\<rparr>))))
      | Add \<Rightarrow>
          (case vget values 6 of Some (V_e et) \<Rightarrow> parse_consent W kind ver (et_to_osc et) values
           | _ \<Rightarrow> Inl MissingConsentTime)
      | Remove \<Rightarrow>
          (case vget values 6 of Some (V_e et) \<Rightarrow> parse_consent W kind ver (et_to_osc et) values
           | _ \<Rightarrow> Inr no_groups)
      | Checkpoint \<Rightarrow> parse_checkpoint C values
      | _ \<Rightarrow> Inr no_groups)"

text \<open>The bundle is read for its kind, at any version: also in a v1 op, whose signed bytes do not cover it.\<close>

definition parse_bundle :: "ext \<Rightarrow> op_kind \<Rightarrow> vsf list \<Rightarrow> nat \<Rightarrow> wire_error + key_bundle option \<times> nat" where
  "parse_bundle W kind values i =
     (if kind = Add \<or> kind = Declare
      then (case vget values i of
              Some (V_ge b) \<Rightarrow> (case bundle_from_bytes W b of Inl e \<Rightarrow> Inl (BadBundleBytes e)
                               | Inr x \<Rightarrow> Inr (Some x, Suc i))
            | _ \<Rightarrow> Inr (None, i))
      else Inr (None, i))"

definition parse_plate_kind :: "vsf_conv \<Rightarrow> op_version \<Rightarrow> op_kind \<Rightarrow> vsf list \<Rightarrow> nat \<Rightarrow> wire_error + byte \<times> nat" where
  "parse_plate_kind C ver kind values i =
     (if ver = V4 \<and> plate_kind_op kind
      then (case vget values i of None \<Rightarrow> Inl MissingPlateKind
            | Some v \<Rightarrow> (case parse_small C BadPlateKind v of Inl e \<Rightarrow> Inl e | Inr k \<Rightarrow> Inr (k, Suc i)))
      else Inr (UNSTATED, i))"

definition parse_plate :: "op_version \<Rightarrow> op_kind \<Rightarrow> vsf list \<Rightarrow> nat \<Rightarrow> wire_error + bytes option \<times> nat" where
  "parse_plate ver kind values i =
     (if plate_kind_op kind
      then (case vget values i of
              Some (V_hb b) \<Rightarrow>
                if \<not> plated ver then Inl UnsignedPlate
                else (case take_hb32 (V_hb b) ''plate'' of Inl e \<Rightarrow> Inl e | Inr q \<Rightarrow> Inr (Some q, Suc i))
            | _ \<Rightarrow> Inr (None, i))
      else Inr (None, i))"

text \<open>The egg tail: pairs to the end, an odd last value is ignored.\<close>

fun parse_eggs :: "vsf_conv \<Rightarrow> vsf list \<Rightarrow> wire_error + egg list" where
  "parse_eggs C (a # b # rest) =
     (case parse_small C BadEggScheme a of Inl e \<Rightarrow> Inl e
      | Inr s \<Rightarrow>
        (case b of
           V_ge g \<Rightarrow> (case parse_eggs C rest of Inl e \<Rightarrow> Inl e
                      | Inr es \<Rightarrow> Inr (\<lparr>egg_scheme = s, egg_sig = g\<rparr> # es))
         | _ \<Rightarrow> Inl BadEggSig))"
| "parse_eggs C _ = Inr []"

definition parse_tail :: "ext \<Rightarrow> vsf_conv \<Rightarrow> op_version \<Rightarrow> op_kind \<Rightarrow> op_groups \<Rightarrow> vsf list
    \<Rightarrow> wire_error + key_bundle option \<times> byte \<times> bytes option \<times> egg list" where
  "parse_tail W C ver kind g values =
     (case parse_bundle W kind values (gr_i g) of Inl e \<Rightarrow> Inl e | Inr (bundle, i) \<Rightarrow>
      (case parse_plate_kind C ver kind values i of Inl e \<Rightarrow> Inl e | Inr (plate_k, i') \<Rightarrow>
       (case parse_plate ver kind values i' of Inl e \<Rightarrow> Inl e | Inr (plate, i'') \<Rightarrow>
        (case parse_eggs C (drop i'' values) of Inl e \<Rightarrow> Inl e | Inr sigs \<Rightarrow> Inr (bundle, plate_k, plate, sigs)))))"

definition parse_op :: "ext \<Rightarrow> vsf_conv \<Rightarrow> vsf list \<Rightarrow> wire_error + fleet_op" where
  "parse_op W C all =
     (case all of [] \<Rightarrow> Inl NoValues | v0 # _ \<Rightarrow>
      (case parse_version C v0 of Inl e \<Rightarrow> Inl e | Inr (ver, base) \<Rightarrow>
       let values = drop base all in
       if length values < 6 then Inl (TooFew (length values)) else
       (case take_hp32 (values ! 0) ''hp'' of Inl e \<Rightarrow> Inl e | Inr hp \<Rightarrow>
       (case take_hb32 (values ! 1) ''prev'' of Inl e \<Rightarrow> Inl e | Inr prev \<Rightarrow>
       (case parse_kind C (values ! 2) of Inl e \<Rightarrow> Inl e | Inr kind \<Rightarrow>
       (case take_ke32 (values ! 3) ''device'' of Inl e \<Rightarrow> Inl e | Inr device \<Rightarrow>
       (case values ! 4 of
          V_e et \<Rightarrow>
            (case take_ke32 (values ! 5) ''signer'' of Inl e \<Rightarrow> Inl e | Inr sg \<Rightarrow>
            (case parse_groups W C ver kind values of Inl e \<Rightarrow> Inl e | Inr g \<Rightarrow>
            (case parse_tail W C ver kind g values of Inl e \<Rightarrow> Inl e | Inr (bundle, plate_k, plate, sigs) \<Rightarrow>
               Inr \<lparr>op_handle_proof = hp, op_prev_hash = prev, op_kind = kind, op_device = device,
                    op_time = et_to_osc et, op_signer = sg, op_identity_pubkey = gr_identity_pubkey g,
                    op_identity_sig = gr_identity_sig g, op_consent_t = gr_consent_t g, op_consent = gr_consent g,
                    op_ckpt_k = gr_ckpt_k g, op_ckpt_commit = gr_ckpt_commit g,
                    op_ckpt_fanout_epoch = gr_ckpt_fanout_epoch g, op_sigs = sigs, op_version = ver,
                    op_bundle = bundle, op_plate = plate, op_plate_kind = plate_k\<rparr>)))
        | _ \<Rightarrow> Inl BadTime)))))))"

section \<open>Reading back what was written\<close>

lemma vget_simps [simp]:
  "vget [] i = None" "vget (x # xs) 0 = Some x" "vget (x # xs) (Suc i) = vget xs i"
  "vget (x # xs) (numeral k) = vget xs (pred_numeral k)"
  by (simp_all add: vget_def numeral_eq_Suc)

lemma vget_append: "vget (xs @ ys) (length xs + k) = vget ys k"
  by (simp add: vget_def nth_append)

lemma vget_append0: "vget (xs @ ys) (length xs) = vget ys 0"
  using vget_append [of xs ys 0] by simp

lemma small_ucast [simp]: "(ucast (ucast (b :: byte) :: u64) :: byte) = b"
  by (simp add: ucast_down_ucast_id is_down)

lemma small_read: "conv_ok C \<Longrightarrow> unsigned_of v = Some (ucast b) \<Longrightarrow> as_u8 C v = Some b"
  by (simp add: conv_ok_def)

lemma wide_read: "conv_ok C \<Longrightarrow> unsigned_of v = Some n \<Longrightarrow> as_u64 C v = Some n"
  by (simp add: conv_ok_def conv64_ok_def)

lemma parse_small_u: "conv_ok C \<Longrightarrow> unsigned_of v = Some (ucast b) \<Longrightarrow> parse_small C err v = Inr b"
  using small_read [of C v b] by (cases v rule: unsigned_of.cases) (simp_all add: parse_small_def)

lemma parse_kind_u: "conv_ok C \<Longrightarrow> unsigned_of v = Some (ucast (op_kind_byte k)) \<Longrightarrow> parse_kind C v = Inr k"
  using small_read [of C v "op_kind_byte k"] by (cases v rule: unsigned_of.cases) (simp_all add: parse_kind_def)

lemma take_u64_u: "conv_ok C \<Longrightarrow> unsigned_of v = Some n \<Longrightarrow> take_u64 C v what = Inr n"
  using wide_read [of C v n] by (cases v rule: unsigned_of.cases) (simp_all add: take_u64_def)

lemma parse_version_u:
  "conv_ok C \<Longrightarrow> unsigned_of v = Some (ucast (op_version_byte ver)) \<Longrightarrow> ver \<noteq> V1 \<Longrightarrow> parse_version C v = Inr (ver, 1)"
  using small_read [of C v "op_version_byte ver"] by (cases v rule: unsigned_of.cases) (simp_all add: parse_version_def)

lemmas values_related = list_all2_append1 list_all2_Cons1

lemma parse_eggs_values: "conv_ok C \<Longrightarrow> list_all2 same_value (egg_values es) vs \<Longrightarrow> parse_eggs C vs = Inr es"
  by (induction es arbitrary: vs) (auto simp: egg_values_def list_all2_Cons1 parse_small_u)

text \<open>A type other than an integer is found at the same place on both sides.\<close>

lemma vget_related: "list_all2 same_value xs ys \<Longrightarrow> vget ys i = Some y \<Longrightarrow> \<exists>x. vget xs i = Some x \<and> same_value x y"
  by (auto simp: vget_def list_all2_conv_all_nth split: if_splits)

lemma vget_unrelated:
  assumes "list_all2 same_value xs ys"
  shows "vget xs i \<noteq> Some (V_ge g) \<Longrightarrow> vget ys i \<noteq> Some (V_ge g)" "vget xs i \<noteq> Some (V_e t) \<Longrightarrow> vget ys i \<noteq> Some (V_e t)"
    "vget xs i \<noteq> Some (V_hb g) \<Longrightarrow> vget ys i \<noteq> Some (V_hb g)"
  using vget_related [OF assms, of i] by fastforce+

text \<open>What the fold's structural checks and the Rust types give about an op on the wire. The last
  clause is the v1 rule: a v1 op that carries consent carries one Ed25519 signature.\<close>

definition wire_ok :: "ext \<Rightarrow> fleet_op \<Rightarrow> bool" where
  "wire_ok W p \<longleftrightarrow> wf_op W p \<and>
     (op_kind p \<noteq> Genesis \<longrightarrow> op_identity_pubkey p = zero32 \<and> op_identity_sig p = []) \<and>
     (op_kind p \<noteq> Add \<and> op_kind p \<noteq> Remove \<longrightarrow> op_consent_t p = 0 \<and> op_consent p = []) \<and>
     (op_kind p = Remove \<and> op_consent p = [] \<longrightarrow> op_consent_t p = 0) \<and>
     (op_kind p \<noteq> Checkpoint \<longrightarrow> op_ckpt_k p = 0 \<and> op_ckpt_commit p = zero32 \<and> op_ckpt_fanout_epoch p = 0) \<and>
     (op_bundle p \<noteq> None \<longrightarrow> op_kind p = Add \<or> op_kind p = Declare) \<and>
     (op_plate p \<noteq> None \<longrightarrow> plate_kind_op (op_kind p) \<and> plated (op_version p)) \<and>
     (op_plate_kind p \<noteq> UNSTATED \<longrightarrow> plate_kind_op (op_kind p) \<and> op_version p = V4) \<and>
     (\<not> framed (op_version p) \<longrightarrow> (op_kind p = Add \<longrightarrow> op_consent p \<noteq> []) \<and>
        (op_consent p \<noteq> [] \<longrightarrow> (\<exists>s. op_consent p = [\<lparr>egg_scheme = ED25519 W, egg_sig = s\<rparr>])))"

lemma consent_wire:
  assumes "ext_ok W" "wire_ok W p" "op_kind p = Add \<or> op_kind p = Remove \<and> op_consent p \<noteq> []"
  shows "consent_from_wire W (op_version p) (consent_to_wire W p) = Inr (op_consent p)"
proof (cases "framed (op_version p)")
  case True
  then show ?thesis using assms by (simp add: consent_from_wire_def consent_to_wire_def wire_ok_def wf_op_def ext_ok_def)
next
  case False
  then obtain s where "op_consent p = [\<lparr>egg_scheme = ED25519 W, egg_sig = s\<rparr>]"
    using assms(2,3) by (auto simp: wire_ok_def)
  with False show ?thesis by (simp add: consent_from_wire_def consent_to_wire_def)
qed

text \<open>The values after the groups never begin with the type that would extend the group.\<close>

definition tail_values :: "fleet_op \<Rightarrow> vsf list" where
  "tail_values p = op_bundle_values p @ op_plate_values p @ egg_values (op_sigs p)"

lemma egg_values_first: "vget (egg_values es) 0 = None \<or> (\<exists>n. vget (egg_values es) 0 = Some (V_u n False))"
  by (cases es) (simp_all add: egg_values_def)

lemma plate_values_first:
  "vget (op_plate_values p @ egg_values es) 0 \<noteq> Some (V_ge g) \<and> vget (op_plate_values p @ egg_values es) 0 \<noteq> Some (V_e et)"
  using egg_values_first [of es] by (auto simp: op_plate_values_def split: option.splits)

lemma tail_first_genesis: "wire_ok W p \<Longrightarrow> op_kind p = Genesis \<Longrightarrow> vget (tail_values p) 0 \<noteq> Some (V_ge g)"
  using plate_values_first by (auto simp: tail_values_def op_bundle_values_def wire_ok_def split: option.splits)

lemma tail_first_remove: "wire_ok W p \<Longrightarrow> op_kind p = Remove \<Longrightarrow> vget (tail_values p) 0 \<noteq> Some (V_e et)"
  using plate_values_first by (auto simp: tail_values_def op_bundle_values_def wire_ok_def split: option.splits)

lemma length_Six: "length h = 6 \<Longrightarrow> \<exists>a b c d e f. h = [a, b, c, d, e, f]"
  by (auto simp: numeral_eq_Suc length_Suc_conv)

lemma parse_groups_values:
  assumes W: "ext_ok W" and C: "conv_ok C" and ok: "wire_ok W p" and h: "length h = 6"
    and g: "list_all2 same_value (op_group_values W p) g" and t: "list_all2 same_value (tail_values p) t"
  shows "parse_groups W C (op_version p) (op_kind p) (h @ g @ t) =
    Inr \<lparr>gr_i = 6 + length (op_group_values W p), gr_identity_pubkey = op_identity_pubkey p,
         gr_identity_sig = op_identity_sig p, gr_consent_t = op_consent_t p, gr_consent = op_consent p,
         gr_ckpt_k = op_ckpt_k p, gr_ckpt_commit = op_ckpt_commit p, gr_ckpt_fanout_epoch = op_ckpt_fanout_epoch p\<rparr>"
proof -
  obtain a b c d e f where six: "h = [a, b, c, d, e, f]" using length_Six [OF h] by blast
  show ?thesis
  proof (cases "op_kind p")
    case Genesis
    then have "vget t 0 \<noteq> Some (V_ge g)" for g using tail_first_genesis [OF ok] vget_unrelated(1) [OF t] by blast
    then show ?thesis using ok Genesis g unfolding six
      by (cases "op_identity_sig p = []")
         (auto simp: parse_groups_def op_group_values_def list_all2_Cons1 no_groups_def wire_ok_def wf_op_def
           split: option.splits vsf.splits)
  next
    case Add
    then show ?thesis using ok consent_wire [OF W ok] g unfolding six
      by (auto simp: parse_groups_def parse_consent_def op_group_values_def list_all2_Cons1 no_groups_def wire_ok_def)
  next
    case Remove
    then have "vget t 0 \<noteq> Some (V_e et)" for et using tail_first_remove [OF ok] vget_unrelated(2) [OF t] by blast
    then show ?thesis using ok consent_wire [OF W ok] Remove g unfolding six
      by (cases "op_consent p = []")
         (auto simp: parse_groups_def parse_consent_def op_group_values_def list_all2_Cons1 no_groups_def wire_ok_def
           split: option.splits vsf.splits)
  next
    case Checkpoint
    then show ?thesis using ok g take_u64_u [OF C] unfolding six
      by (auto simp: parse_groups_def parse_checkpoint_def op_group_values_def list_all2_Cons1 no_groups_def
          wire_ok_def wf_op_def)
  qed (use ok g six in \<open>simp_all add: parse_groups_def op_group_values_def no_groups_def wire_ok_def\<close>)
qed

lemma parse_bundle_values:
  assumes W: "ext_ok W" and ok: "wire_ok W p" and t: "list_all2 same_value (tail_values p) t"
  shows "parse_bundle W (op_kind p) (pre @ t) (length pre) = Inr (op_bundle p, length pre + length (op_bundle_values p))"
proof (cases "op_bundle p")
  case None
  then have "vget (tail_values p) 0 \<noteq> Some (V_ge g)" for g
    using plate_values_first by (simp add: tail_values_def op_bundle_values_def)
  then have "vget t 0 \<noteq> Some (V_ge g)" for g using vget_unrelated(1) [OF t] by blast
  then show ?thesis using None
    by (auto simp: parse_bundle_def vget_append0 op_bundle_values_def split: option.splits vsf.splits)
next
  case (Some b)
  then have b: "wf_bundle W b" "op_kind p = Add \<or> op_kind p = Declare" using ok by (auto simp: wire_ok_def wf_op_def)
  then have "vget t 0 = Some (V_ge (bundle_to_bytes b))"
    using t Some by (auto simp: tail_values_def op_bundle_values_def list_all2_Cons1)
  then show ?thesis using Some b bundle_roundtrip [OF W, of b]
    by (simp add: parse_bundle_def vget_append0 op_bundle_values_def)
qed

lemma parse_plate_kind_values:
  assumes "conv_ok C" "wire_ok W p"
    and "list_all2 same_value (if op_version p = V4 \<and> plate_kind_op (op_kind p) then [V_u (ucast (op_plate_kind p)) False] else []) k"
  shows "parse_plate_kind C (op_version p) (op_kind p) (pre @ k @ r) (length pre) = Inr (op_plate_kind p, length pre + length k)"
proof (cases "op_version p = V4 \<and> plate_kind_op (op_kind p)")
  case True
  then obtain v where v: "k = [v]" "unsigned_of v = Some (ucast (op_plate_kind p))" using assms(3) by (auto simp: list_all2_Cons1)
  from parse_small_u [OF assms(1) v(2)] show ?thesis using True by (simp add: parse_plate_kind_def vget_append0 v(1))
next
  case False
  then have "k = []" using assms(3) by auto
  moreover have "op_plate_kind p = UNSTATED" using False assms(2) unfolding wire_ok_def by blast
  ultimately show ?thesis by (simp only: parse_plate_kind_def if_not_P [OF False]) simp
qed

lemma parse_plate_values:
  assumes "wire_ok W p" "\<And>q. vget es 0 \<noteq> Some (V_hb q)"
  shows "parse_plate (op_version p) (op_kind p)
      (pre @ (case op_plate p of Some q \<Rightarrow> [V_hb q] | None \<Rightarrow> []) @ es) (length pre)
    = Inr (op_plate p, length pre + (case op_plate p of Some q \<Rightarrow> 1 | None \<Rightarrow> 0))"
proof (cases "op_plate p")
  case None
  then show ?thesis using assms(2) by (auto simp: parse_plate_def vget_append0 split: option.splits vsf.splits)
next
  case (Some q)
  then have "length q = 32" "plate_kind_op (op_kind p)" "plated (op_version p)"
    using assms(1) by (auto simp: wire_ok_def wf_op_def)
  then show ?thesis by (simp add: Some parse_plate_def vget_append0)
qed

lemma drop_length_append: "drop (length xs) (xs @ ys) = ys"
  by simp

lemma parse_tail_values:
  assumes W: "ext_ok W" and C: "conv_ok C" and ok: "wire_ok W p" and i: "gr_i g = length pre"
    and t: "list_all2 same_value (tail_values p) t"
  shows "parse_tail W C (op_version p) (op_kind p) g (pre @ t) = Inr (op_bundle p, op_plate_kind p, op_plate p, op_sigs p)"
proof -
  let ?pk = "if op_version p = V4 \<and> plate_kind_op (op_kind p) then [V_u (ucast (op_plate_kind p)) False] else []"
  let ?pl = "case op_plate p of Some q \<Rightarrow> [V_hb q] | None \<Rightarrow> []"
  have "tail_values p = op_bundle_values p @ ?pk @ ?pl @ egg_values (op_sigs p)"
    using ok by (auto simp: tail_values_def op_plate_values_def wire_ok_def split: option.splits)
  then obtain b k l es where vals: "t = b @ k @ l @ es" and rel: "list_all2 same_value (op_bundle_values p) b"
    "list_all2 same_value ?pk k" "list_all2 same_value ?pl l" "list_all2 same_value (egg_values (op_sigs p)) es"
    using t by (auto simp: list_all2_append1)
  have l: "l = ?pl" using rel(3) by (auto simp: list_all2_Cons1 split: option.splits)
  let ?pre1 = "pre @ b"
  have lb: "length b = length (op_bundle_values p)" using list_all2_lengthD [OF rel(1)] by simp
  have k: "parse_plate_kind C (op_version p) (op_kind p) (pre @ t) (length ?pre1) = Inr (op_plate_kind p, length (?pre1 @ k))"
    using parse_plate_kind_values [OF C ok rel(2), of ?pre1 "l @ es"] unfolding vals by simp
  have nb: "vget es 0 \<noteq> Some (V_hb q)" for q
    using egg_values_first [of "op_sigs p"] vget_unrelated(3) [OF rel(4), of 0 q] by auto
  have pl: "parse_plate (op_version p) (op_kind p) (pre @ t) (length (?pre1 @ k)) = Inr (op_plate p, length (?pre1 @ k @ l))"
    using parse_plate_values [OF ok nb, of "?pre1 @ k"] unfolding vals l by (simp split: option.split)
  have "drop (length (?pre1 @ k @ l)) (pre @ t) = es"
    unfolding vals by (simp only: append_assoc [symmetric] drop_length_append)
  then show ?thesis
    using parse_bundle_values [OF W ok t, of pre] k pl parse_eggs_values [OF C rel(4)]
    by (simp add: parse_tail_def i lb)
qed

lemma parse_op_related:
  assumes W: "ext_ok W" and C: "conv_ok C" and ok: "wire_ok W p" and vs: "list_all2 same_value (op_field_values W p) vs"
  shows "parse_op W C vs = Inr p"
proof -
  have "op_field_values W p =
      (if op_version p \<noteq> V1 then [V_u (ucast (op_version_byte (op_version p))) False] else [])
      @ op_head_values p @ op_group_values W p @ tail_values p"
    by (simp add: op_field_values_def tail_values_def)
  with vs have "list_all2 same_value ((if op_version p \<noteq> V1 then [V_u (ucast (op_version_byte (op_version p))) False] else [])
      @ op_head_values p @ op_group_values W p @ tail_values p) vs" by (simp only:)
  then obtain ve h g t where all: "vs = ve @ h @ g @ t"
    and ve: "list_all2 same_value (if op_version p \<noteq> V1 then [V_u (ucast (op_version_byte (op_version p))) False] else []) ve"
    and h: "list_all2 same_value (op_head_values p) h" and g: "list_all2 same_value (op_group_values W p) g"
    and t: "list_all2 same_value (tail_values p) t"
    unfolding list_all2_append1 by blast
  let ?vs = "h @ g @ t"
  have l6: "length h = 6" using list_all2_lengthD [OF h] by (simp add: op_head_values_def)
  obtain kv where hd: "h = [V_hP (op_handle_proof p), V_hb (op_prev_hash p), kv, V_ke (op_device p), V_e (E6 (op_time p)), V_ke (op_signer p)]"
    and kv: "unsigned_of kv = Some (ucast (op_kind_byte (op_kind p)))"
    using h by (auto simp: op_head_values_def list_all2_Cons1)
  note gr = parse_groups_values [OF W C ok l6 g t]
  have "gr_i \<lparr>gr_i = 6 + length (op_group_values W p), gr_identity_pubkey = op_identity_pubkey p,
         gr_identity_sig = op_identity_sig p, gr_consent_t = op_consent_t p, gr_consent = op_consent p,
         gr_ckpt_k = op_ckpt_k p, gr_ckpt_commit = op_ckpt_commit p, gr_ckpt_fanout_epoch = op_ckpt_fanout_epoch p\<rparr> = length (h @ g)"
    (is "gr_i ?g = _") using list_all2_lengthD [OF g] l6 by simp
  from parse_tail_values [OF W C ok this t]
  have tl: "parse_tail W C (op_version p) (op_kind p) ?g ?vs = Inr (op_bundle p, op_plate_kind p, op_plate p, op_sigs p)"
    by simp
  have v: "\<exists>v0 rest base. vs = v0 # rest \<and> parse_version C v0 = Inr (op_version p, base) \<and> drop base vs = ?vs"
    using ve parse_version_u [OF C] unfolding all
    by (cases "op_version p = V1") (auto simp: hd parse_version_def list_all2_Cons1)
  have len: "length (op_handle_proof p) = 32" "length (op_prev_hash p) = 32" "length (op_device p) = 32"
    "length (op_signer p) = 32" using ok by (simp_all add: wire_ok_def wf_op_def)
  have sel: "?vs ! 0 = V_hP (op_handle_proof p)" "?vs ! 1 = V_hb (op_prev_hash p)" "?vs ! 2 = kv" "?vs ! 3 = V_ke (op_device p)"
    "?vs ! 4 = V_e (E6 (op_time p))" "?vs ! 5 = V_ke (op_signer p)"
    unfolding hd by simp_all
  have six: "\<not> length ?vs < 6" by (simp add: l6)
  obtain v0 rest base where v0: "vs = v0 # rest" "parse_version C v0 = Inr (op_version p, base)" "drop base vs = ?vs"
    using v by blast
  show ?thesis
    unfolding parse_op_def v0(1) list.case v0(2) sum.case prod.case Let_def v0(3) [unfolded v0(1)] sel
    by (simp only: six if_False, simp add: len parse_kind_u [OF C kv] gr tl)
qed

lemma parse_op_values: "ext_ok W \<Longrightarrow> conv_ok C \<Longrightarrow> wire_ok W p \<Longrightarrow> parse_op W C (op_field_values W p) = Inr p"
  by (rule parse_op_related) simp_all

section \<open>Properties\<close>

text \<open>The fold's structural checks, the consent an Add must carry and the v1 typing of consent make an
  accepted op encodable.\<close>

definition v1_consent_typed :: "ext \<Rightarrow> fleet_op \<Rightarrow> bool" where
  "v1_consent_typed W p \<longleftrightarrow> framed (op_version p) \<or> op_consent p = [] \<or>
     (\<exists>s. op_consent p = [\<lparr>egg_scheme = ED25519 W, egg_sig = s\<rparr>])"

lemma step_wire_ok:
  assumes s: "fleet_step W hp i p w = Inr w'" and wf: "wf_op W p" and v1: "v1_consent_typed W p"
  shows "wire_ok W p"
proof -
  have sh: "check_shape hp i p w = None" using s by (simp add: fleet_step_Inr)
  have "op_consent p \<noteq> []" if "op_kind p = Add"
  proof -
    have "verify_consent W p (joined_bundle W p) (bundle_mask (joined_bundle W p) OR w_floor w)"
      using s that by (auto simp: fleet_step_Inr apply_add_Inr)
    then show ?thesis unfolding verify_consent_def by (rule verify_eggs_nonempty)
  qed
  with sh wf v1 show ?thesis
    by (cases "op_kind p") (auto simp: wire_ok_def v1_consent_typed_def check_shape_def split: if_splits)
qed

lemma walk_before_wire_ok:
  "walk_before W hp ops = Inr w \<Longrightarrow> \<forall>p \<in> set ops. wf_op W p \<and> v1_consent_typed W p \<Longrightarrow> p \<in> set ops \<Longrightarrow> wire_ok W p"
proof (induction ops arbitrary: w rule: rev_induct)
  case (snoc q ops)
  then show ?case by (auto simp: walk_before_def fold_steps_snoc split: sum.splits intro: step_wire_ok)
qed simp

text \<open>The wire is lossless on accepted chains: every op of a chain that folds, written with
  \<open>op_field_values\<close> and read with \<open>parse_op\<close>, is the same op, for every version and kind.\<close>

theorem accepted_chain_roundtrips:
  assumes "ext_ok W" and "conv_ok C" and "fold_inner W ops = Inr w"
    and "\<forall>p \<in> set ops. wf_op W p \<and> v1_consent_typed W p"
  shows "map (\<lambda>p. parse_op W C (op_field_values W p)) ops = map Inr ops"
  using parse_op_values [OF assms(1,2) walk_before_wire_ok [OF fold_inner_walk [OF assms(3)] assms(4)]]
  by simp

text \<open>Nothing signs the bundle of a v1 op: the fold accepts a v1 Declare that carries a bundle, and
  swapping the bundle for another one of the same schemes under which the same signatures verify
  gives a chain that also folds, has the same head, and declares the other bundle.\<close>

theorem v1_declare_bundle_unsigned:
  assumes "fold_inner W (pre @ [p]) = Inr w" and "op_version p = V1" and "op_kind p = Declare"
    and "op_bundle p = Some b" and "bundle_ed25519 W b' = op_device p" and "bundle_mask b' = bundle_mask b"
    and "verify_sigs W (p\<lparr>op_bundle := Some b'\<rparr>) b'"
  shows "\<exists>w'. fold_inner W (pre @ [p\<lparr>op_bundle := Some b'\<rparr>]) = Inr w'
    \<and> head W (pre @ [p\<lparr>op_bundle := Some b'\<rparr>]) = head W (pre @ [p])
    \<and> declared_bundle W (pre @ [p]) (op_device p) = Some b
    \<and> declared_bundle W (pre @ [p\<lparr>op_bundle := Some b'\<rparr>]) (op_device p) = Some b'"
proof -
  let ?q = "p\<lparr>op_bundle := Some b'\<rparr>"
  obtain v v' where s: "fleet_step W (op_handle_proof (hd (pre @ [p]))) (length pre) p v = Inr v'"
    and f: "fold_inner W (pre @ [p]) = Inr v'" and pre: "pre \<noteq> [] \<Longrightarrow> fold_inner W pre = Inr v"
    and w0: "walk_before W (op_handle_proof (hd (pre @ [p]))) pre = Inr v"
    using fold_inner_split [OF assms(1)] by blast
  let ?hp = "op_handle_proof (hd (pre @ [p]))"
  obtain v2 where k: "apply_declare (length pre) p (note_plate p v) = Inr v2"
    and sh: "check_shape ?hp (length pre) p v = None" and a: "check_authority W (length pre) p (note_plate p v) = None"
    and v': "v' = ratchet W p v2" using s assms(3) by (auto simp: fleet_step_Inr)
  have sb: "signing_bytes W ?q = signing_bytes W p"
    using assms(2) by (simp add: signing_bytes_def consent_part_def ckpt_part_def bundle_part_def plate_part_def framed_def)
  then have ch: "chain_hash W ?q = chain_hash W p" by (simp add: chain_hash_def chain_preimage_def)
  have np: "note_plate ?q v = note_plate p v" by (simp add: note_plate_def split: option.split)
  have "check_shape ?hp (length pre) ?q v = None"
    using sh assms(3) by (auto simp: check_shape_def split: if_splits)
  moreover have "check_authority W (length pre) ?q (note_plate ?q v) = None"
    using a assms(3,5,7) by (simp add: check_authority_None np verify_with_def)
  moreover obtain v3 where v3: "apply_declare (length pre) ?q (note_plate ?q v) = Inr v3" "w_bundles v3 = AList.update (op_device p) b' (w_bundles v)"
    using k assms(4,6) by (simp add: np apply_declare_Inr)
  ultimately have sq: "fleet_step W ?hp (length pre) ?q v = Inr (ratchet W ?q v3)"
    using assms(3) by (simp add: fleet_step_Inr)
  have b: "w_bundles v2 = AList.update (op_device p) b (w_bundles v)"
    using k assms(4) by (auto simp: apply_declare_Inr)
  have "fold_inner W (pre @ [?q]) = Inr (ratchet W ?q v3)"
  proof (cases "pre = []")
    case True
    then show ?thesis using sq w0 by (simp add: fold_inner_hd walk_before_def)
  next
    case False
    then show ?thesis using sq pre by (simp add: fold_inner_snoc)
  qed
  then show ?thesis
    using f v' b v3(2) ch by (simp add: head_def declared_bundle_def update_conv)
qed

end
