(* ===== verification/Demo_Wire.thy ===== *)
theory Demo_Wire
  imports Fleet_Wire Demo_Fleet
begin

text \<open>
  Concrete inputs for the codec properties: a conversion that reads unsigned values of every width, a
  container's narrowing of an integer to the width that fits, and, for
  the v1 declaration, a variant of the example world in which a Falcon signature verifies under
  more than one key (a scheme need not bind the key).
\<close>

definition demo_conv :: vsf_conv where
  "demo_conv = \<lparr>as_u8 = (\<lambda>v. case unsigned_of v of Some n \<Rightarrow> if n < 256 then Some (ucast n) else None | None \<Rightarrow> None),
     as_u64 = unsigned_of\<rparr>"

lemma small_word: "(ucast (b :: byte) :: u64) < 256"
proof -
  have "unat b < 2 ^ LENGTH(8)" by (rule unsigned_less)
  then show ?thesis by (simp add: word_less_nat_alt unsigned_ucast_eq take_bit_nat_eq_self)
qed

lemma demo_conv_ok: "conv_ok demo_conv" and demo_conv64: "conv64_ok demo_conv"
  by (simp_all add: conv_ok_def conv64_ok_def demo_conv_def small_word)

definition narrow_value :: "vsf \<Rightarrow> vsf" where
  "narrow_value v = (case v of V_u n False \<Rightarrow> if n < 256 then V_u3 (ucast n) else V_u6 n | _ \<Rightarrow> v)"

lemma narrow_small: "n < 256 \<Longrightarrow> (ucast (ucast n :: byte) :: u64) = n"
  by (rule word_unat_eq_iff [THEN iffD2])
    (simp add: word_less_nat_alt unsigned_ucast_eq unsigned_take_bit_eq take_bit_nat_eq_self)

lemma same_value_narrow [simp]: "same_value v (narrow_value v)"
  by (cases "(v, v)" rule: same_value.cases) (simp_all add: narrow_value_def narrow_small)

lemma demo_g_v1: "p \<in> set demo_g \<Longrightarrow> v1_consent_typed demo_ext p"
  using demo_g_wf by (simp add: v1_consent_typed_def)

theorem accepted_chain_roundtrips_witness:
  "map (\<lambda>p. parse_op demo_ext demo_conv (op_field_values demo_ext p)) demo_g = map Inr demo_g"
proof -
  obtain w where w: "fold_inner demo_ext demo_g = Inr w" using demo_g_fold by blast
  have "\<forall>p \<in> set demo_g. wf_op demo_ext p \<and> v1_consent_typed demo_ext p"
    using demo_g_wf demo_g_v1 by blast
  from accepted_chain_roundtrips [OF demo_ext_ok demo_conv_ok w this] show ?thesis .
qed

section \<open>A v1 declaration\<close>

definition weak_ext :: ext where
  "weak_ext = demo_ext\<lparr>falcon_verify := (\<lambda>pk m s. True)\<rparr>"

definition weak_g :: blob where
  "weak_g = build_genesis_v2_plated weak_ext (demo_device 1) demo_hp (demo_seed 8) 5 None UNSTATED"

definition two_keys :: "byte \<Rightarrow> key_bundle" where
  "two_keys b = \<lparr>bundle_keys = [(0, demo_seed 1), (1, demo_seed b)]\<rparr>"

definition weak_unsigned :: fleet_op where
  "weak_unsigned = (unsigned_op demo_hp (head weak_ext weak_g) Declare (demo_seed 1) 7 (demo_seed 1) zero32
     None None (Some (two_keys 2)) None UNSTATED)\<lparr>op_version := V1\<rparr>"

definition weak_declare :: fleet_op where
  "weak_declare = weak_unsigned\<lparr>op_sigs := [\<lparr>egg_scheme = 0, egg_sig = demo_sig (demo_seed 1) (signing_bytes weak_ext weak_unsigned)\<rparr>,
     \<lparr>egg_scheme = 1, egg_sig = [7]\<rparr>]\<rparr>"

lemma weak_sel [simp]: "ED25519 weak_ext = 0" "FALCON512 weak_ext = 1" "SPHINCS_PLUS weak_ext = 2"
  "ed_verify weak_ext pk m s \<longleftrightarrow> s = demo_sig pk m" "falcon_verify weak_ext pk m s"
  "ed_public weak_ext = pad32"
  by (simp_all add: weak_ext_def demo_ext_def)

lemma weak_genesis: "\<exists>v. fold_inner weak_ext weak_g = Inr v \<and> w_members v = [demo_seed 1] \<and> w_locked v = []
    \<and> w_bundles v = [] \<and> covers (MASK_BASE weak_ext) (w_floor v) \<and> w_prev v = head weak_ext weak_g"
proof -
  have sk: "signer_ok weak_ext (demo_device 1) (ed25519_only weak_ext (sg_public (demo_device 1))) (MASK_BASE weak_ext)"
    by (auto simp: signer_ok_def wf_ed25519_only verify_eggs_def demo_device_def keypair_signer_def ed25519_only_def
        pubkey_def verify_egg_def verify_ed25519_def covers_bits MASK_BASE_def bit_scheme_bit bit_egg_mask
        bundle_ed25519_def wf_bundle_def pubkey_len_def)
      (simp_all add: demo_ext_def)
  have ip: "ed_public weak_ext (demo_seed 8) \<noteq> zero32" by (simp add: pad32_id)
  obtain p where g: "weak_g = [p]" and f: "fold_inner weak_ext [p] =
      Inr (ratchet weak_ext p ((note_plate p (walk_init weak_ext))\<lparr>w_members := [demo_seed 1]\<rparr>))" (is "_ = Inr (ratchet _ _ ?w)")
    using genesis_step [OF refl sk _ _ ip disjI1 [OF refl], of 5 UNSTATED demo_hp None]
    by (simp add: weak_g_def build_genesis_v2_plated_def)
  have lm: "live_mask weak_ext ?w = MASK_ALL weak_ext AND MASK_BASE weak_ext"
    by (simp add: live_mask_def known_bundle_def walk_init_def)
  have "covers (MASK_BASE weak_ext) (MASK_BASE weak_ext OR (MASK_ALL weak_ext AND MASK_BASE weak_ext))"
    by (auto simp: covers_bits bit_or_iff bit_and_iff)
  then have "covers (MASK_BASE weak_ext) (w_floor (ratchet weak_ext p ?w))"
    by (simp add: lm) (simp add: walk_init_def)
  moreover have "fold_inner weak_ext weak_g = Inr (ratchet weak_ext p ?w)" using f by (simp add: g [symmetric])
  moreover have "head weak_ext weak_g = chain_hash weak_ext p" unfolding g by (simp add: head_def)
  ultimately show ?thesis by (intro exI [of _ "ratchet weak_ext p ?w"]) (simp add: walk_init_def)
qed

lemma weak_sigs: "verify_sigs weak_ext (weak_declare\<lparr>op_bundle := b\<rparr>) (two_keys k)"
proof -
  have "signing_bytes weak_ext (weak_declare\<lparr>op_bundle := b\<rparr>) = signing_bytes weak_ext weak_unsigned"
    by (simp add: signing_bytes_def consent_part_def ckpt_part_def bundle_part_def plate_part_def
        weak_declare_def weak_unsigned_def unsigned_op_def framed_def plated_def)
  then show ?thesis
    by (simp add: verify_sigs_def verify_sig_egg_def weak_declare_def pubkey_def two_keys_def verify_egg_def
        verify_ed25519_def weak_unsigned_def unsigned_op_def)
qed

lemma weak_fold: "\<exists>w. fold_inner weak_ext (weak_g @ [weak_declare]) = Inr w"
proof -
  obtain v where v: "fold_inner weak_ext weak_g = Inr v" "w_members v = [demo_seed 1]" "w_locked v = []"
    "w_bundles v = []" "covers (MASK_BASE weak_ext) (w_floor v)" "w_prev v = head weak_ext weak_g"
    using weak_genesis by blast
  let ?d = weak_declare
  have sel: "op_kind ?d = Declare" "op_device ?d = demo_seed 1" "op_signer ?d = demo_seed 1" "op_bundle ?d = Some (two_keys 2)"
    by (simp_all add: weak_declare_def weak_unsigned_def unsigned_op_def)
  have ne: "weak_g \<noteq> []" and hp: "op_handle_proof (hd weak_g) = demo_hp"
    by (simp_all add: weak_g_def build_genesis_v2_plated_def)
  have m: "bit (egg_mask (op_sigs ?d)) n \<longleftrightarrow> n = 0 \<or> n = 1" for n
    by (auto simp: bit_egg_mask weak_declare_def)
  have "covers (egg_mask (op_sigs ?d)) (MASK_BASE weak_ext)"
    by (simp add: covers_bits m MASK_BASE_def bit_scheme_bit)
  then have fl: "covers (egg_mask (op_sigs ?d)) (w_floor v)" using covers_trans v(5) by blast
  have bm: "covers (egg_mask (op_sigs ?d)) (bundle_mask (two_keys 2))"
    by (auto simp: covers_bits m bit_bundle_mask two_keys_def)
  have vs: "verify_sigs weak_ext ?d (two_keys 2)" using weak_sigs [of "op_bundle ?d" 2] by simp
  have "bundle_ed25519 weak_ext (two_keys 2) = demo_seed 1" by (simp add: bundle_ed25519_def two_keys_def pubkey_def)
  then have a: "check_authority weak_ext (length weak_g) ?d (note_plate ?d v) = None"
    unfolding check_authority_None known_bundle_note_plate using v(3) fl vs by (simp add: sel verify_with_def)
  have "apply_kind weak_ext Declare (length weak_g) ?d (note_plate ?d v)
      = Inr ((note_plate ?d v)\<lparr>w_bundles := AList.update (demo_seed 1) (two_keys 2) (w_bundles v)\<rparr>)"
    using v bm by (simp add: apply_declare_Inr sel)
  moreover have "check_shape demo_hp (length weak_g) ?d v = None"
    by (simp add: check_shape_def weak_declare_def weak_unsigned_def unsigned_op_def v(6) OP_TIME_MAX_OSC_def)
  ultimately have "fleet_step weak_ext demo_hp (length weak_g) ?d v = Inr (ratchet weak_ext ?d
      ((note_plate ?d v)\<lparr>w_bundles := AList.update (demo_seed 1) (two_keys 2) (w_bundles v)\<rparr>))"
    using a by (simp add: fleet_step_Inr sel)
  then show ?thesis by (simp add: fold_inner_snoc [OF ne] v(1) hp)
qed

theorem v1_declare_bundle_unsigned_witness:
  "\<exists>p q. p \<noteq> q \<and> head weak_ext (weak_g @ [p]) = head weak_ext (weak_g @ [q])
     \<and> declared_bundle weak_ext (weak_g @ [p]) (demo_seed 1) = Some (two_keys 2)
     \<and> declared_bundle weak_ext (weak_g @ [q]) (demo_seed 1) = Some (two_keys 4)"
proof -
  obtain w where w: "fold_inner weak_ext (weak_g @ [weak_declare]) = Inr w" using weak_fold by blast
  have sel: "op_version weak_declare = V1" "op_kind weak_declare = Declare" "op_bundle weak_declare = Some (two_keys 2)"
    "op_device weak_declare = demo_seed 1"
    by (simp_all add: weak_declare_def weak_unsigned_def unsigned_op_def)
  have b: "bundle_ed25519 weak_ext (two_keys 4) = op_device weak_declare"
    by (simp add: sel bundle_ed25519_def two_keys_def pubkey_def)
  have m: "bundle_mask (two_keys 4) = bundle_mask (two_keys 2)" by (simp add: bundle_mask_def two_keys_def)
  have ne: "weak_declare \<noteq> weak_declare\<lparr>op_bundle := Some (two_keys 4)\<rparr>"
  proof
    assume eq: "weak_declare = weak_declare\<lparr>op_bundle := Some (two_keys 4)\<rparr>"
    from arg_cong [OF eq, of op_bundle] have "two_keys 2 = two_keys 4" by (simp add: sel)
    then show False by (simp add: two_keys_def)
  qed
  note r = v1_declare_bundle_unsigned [OF w sel(1,2,3) b m weak_sigs, unfolded sel(4)]
  show ?thesis using r ne
    by (intro exI [of _ weak_declare] exI [of _ "weak_declare\<lparr>op_bundle := Some (two_keys 4)\<rparr>"]) (elim exE conjE, simp)
qed

end
