(* ===== verification/Phonebook_Record.thy ===== *)
theory Phonebook_Record
  imports Pq
begin

text \<open>
  src/src/phonebook.rs, the records: domain-separated keys, the slice and slot bit-fields of a key, the
  256-byte layouts with their readers and constructors, the signed bytes of each kind, and the egg
  blobs that hold the signatures. A record is its 256 bytes, as in the code.
\<close>

section \<open>Keys\<close>

definition STRIDE :: nat where "STRIDE = 256"
definition SLICE_SLOTS :: nat where "SLICE_SLOTS = 4096"
definition SLOT_BITS :: nat where "SLOT_BITS = 12"
definition EGGS_BLOB_MAX :: nat where "EGGS_BLOB_MAX = 32 * 1024"

datatype record_kind = Empty | IdentityCount | DevicePointer | DeviceAddress | DeviceAddressSet

definition record_kind_from_byte :: "byte \<Rightarrow> record_kind option" where
  "record_kind_from_byte b =
     (if b = 0 then Some Empty else if b = 1 then Some IdentityCount else if b = 2 then Some DevicePointer
      else if b = 3 then Some DeviceAddress else if b = 4 then Some DeviceAddressSet else None)"

fun record_kind_byte :: "record_kind \<Rightarrow> byte" where
  "record_kind_byte Empty = 0"
| "record_kind_byte IdentityCount = 1"
| "record_kind_byte DevicePointer = 2"
| "record_kind_byte DeviceAddress = 3"
| "record_kind_byte DeviceAddressSet = 4"

lemma record_kind_roundtrip [simp]: "record_kind_from_byte (record_kind_byte k) = Some k"
  by (cases k) (simp_all add: record_kind_from_byte_def)

definition key_identity :: "ext \<Rightarrow> bytes \<Rightarrow> bytes" where
  "key_identity W hp = blake3 W (ascii ''PHOTON_PB_IDENTITY_v1'' @ hp)"

definition key_pointer :: "ext \<Rightarrow> bytes \<Rightarrow> u32 \<Rightarrow> bytes" where
  "key_pointer W hp i = blake3 W (ascii ''PHOTON_PB_POINTER_v1'' @ hp @ u32_le i)"

definition key_address :: "ext \<Rightarrow> bytes \<Rightarrow> bytes" where
  "key_address W d = blake3 W (ascii ''PHOTON_PB_ADDRESS_v1'' @ d)"

definition key_address_set :: "ext \<Rightarrow> bytes \<Rightarrow> bytes" where
  "key_address_set W d = blake3 W (ascii ''PHOTON_PB_ADDRSET_v1'' @ d)"

text \<open>The bit-fields of a key. The shifts of the code need \<open>slice_bits <= 32\<close> (\<open>32 - slice_bits\<close> and
  \<open>64 - slice_bits - SLOT_BITS\<close> underflow above that); the lemmas carry that bound.\<close>

definition slice_of :: "bytes \<Rightarrow> nat \<Rightarrow> u32" where
  "slice_of key slice_bits =
     (if slice_bits = 0 then 0 else drop_bit (32 - slice_bits) (u32_of_be (take 4 key)))"

definition slot_of :: "bytes \<Rightarrow> nat \<Rightarrow> nat" where
  "slot_of key slice_bits =
     unat (drop_bit (64 - slice_bits - SLOT_BITS) (u64_of_be (take 8 key)) AND (2 ^ SLOT_BITS - 1))"

definition address_of :: "bytes \<Rightarrow> nat \<Rightarrow> u64" where
  "address_of key slice_bits = drop_bit (64 - slice_bits - SLOT_BITS) (u64_of_be (take 8 key))"

section \<open>Reading and writing fields\<close>

definition read_at :: "nat \<Rightarrow> nat \<Rightarrow> bytes \<Rightarrow> bytes" where
  "read_at n at b = take n (drop at b)"

definition patch :: "nat \<Rightarrow> bytes \<Rightarrow> bytes \<Rightarrow> bytes" where
  "patch at bs b = take at b @ bs @ drop (at + length bs) b"

definition rd32 :: "bytes \<Rightarrow> nat \<Rightarrow> bytes" where "rd32 b at = read_at 32 at b"
definition rd_u32 :: "bytes \<Rightarrow> nat \<Rightarrow> u32" where "rd_u32 b at = u32_of_le (read_at 4 at b)"
definition rd_i64 :: "bytes \<Rightarrow> nat \<Rightarrow> i64" where "rd_i64 b at = u64_of_le (read_at 8 at b)"

lemma length_patch [simp]: "at + length bs \<le> length b \<Longrightarrow> length (patch at bs b) = length b"
  by (simp add: patch_def)

lemma read_patch_same: "length bs = n \<Longrightarrow> at + n \<le> length b \<Longrightarrow> read_at n at (patch at bs b) = bs"
  by (simp add: read_at_def patch_def)

lemma read_patch_other:
  assumes "at + length bs \<le> length b" "p + n \<le> at \<or> at + length bs \<le> p"
  shows "read_at n p (patch at bs b) = read_at n p b"
proof -
  have at: "min (length b) at = at" using assms(1) by simp
  from assms(2) show ?thesis
  proof
    assume l: "p + n \<le> at"
    then have "take n (drop p (take at b @ bs @ drop (at + length bs) b)) = take n (drop p (take at b))"
      using at by simp
    also have "\<dots> = take n (drop p b)" using l by (simp add: drop_take min_def)
    finally show ?thesis by (simp add: read_at_def patch_def)
  next
    assume r: "at + length bs \<le> p"
    then have "drop p (take at b @ bs @ drop (at + length bs) b) = drop p b"
      using at by (simp add: min.commute)
    then show ?thesis by (simp add: read_at_def patch_def)
  qed
qed

lemma nth_patch_other: "at + length bs \<le> length b \<Longrightarrow> i < at \<Longrightarrow> patch at bs b ! i = b ! i"
  by (simp add: patch_def nth_append)

section \<open>Records\<close>

definition empty_record :: bytes where "empty_record = replicate STRIDE 0"

definition rec_ok :: "bytes \<Rightarrow> bool" where "rec_ok r \<longleftrightarrow> length r = STRIDE"

definition rec_kind :: "bytes \<Rightarrow> record_kind" where
  "rec_kind r = (case record_kind_from_byte (r ! 0) of Some k \<Rightarrow> k | None \<Rightarrow> Empty)"

definition rec_is_empty :: "bytes \<Rightarrow> bool" where "rec_is_empty r \<longleftrightarrow> rec_kind r = Empty"

definition rec_key :: "ext \<Rightarrow> bytes \<Rightarrow> bytes option" where
  "rec_key W r =
     (case rec_kind r of
        Empty \<Rightarrow> None
      | IdentityCount \<Rightarrow> Some (key_identity W (rd32 r 1))
      | DevicePointer \<Rightarrow> Some (key_pointer W (rd32 r 1) (rd_u32 r 33))
      | DeviceAddress \<Rightarrow> Some (key_address W (rd32 r 1))
      | DeviceAddressSet \<Rightarrow> Some (key_address_set W (rd32 r 1)))"

definition rec_epoch :: "bytes \<Rightarrow> i64" where
  "rec_epoch r =
     (case rec_kind r of
        Empty \<Rightarrow> word_of_int (- (2 ^ 63))
      | IdentityCount \<Rightarrow> rd_i64 r 37
      | DevicePointer \<Rightarrow> rd_i64 r 69
      | DeviceAddress \<Rightarrow> rd_i64 r 99
      | DeviceAddressSet \<Rightarrow> rd_i64 r 99)"

definition new_identity_count :: "bytes \<Rightarrow> u32 \<Rightarrow> i64 \<Rightarrow> bytes \<Rightarrow> bytes option \<Rightarrow> bytes \<Rightarrow> bytes" where
  "new_identity_count hp cnt epoch witness departing eggs_ptr =
     patch 109 eggs_ptr
       ((case departing of Some dev \<Rightarrow> patch 77 dev | None \<Rightarrow> (\<lambda>b. b))
         (patch 45 witness (patch 37 (u64_le epoch) (patch 33 (u32_le cnt) (patch 1 hp
            (patch 0 [record_kind_byte IdentityCount] empty_record))))))"

definition rec_count :: "bytes \<Rightarrow> u32" where "rec_count r = rd_u32 r 33"
definition rec_witness :: "bytes \<Rightarrow> bytes" where "rec_witness r = rd32 r 45"

definition rec_departing :: "bytes \<Rightarrow> bytes option" where
  "rec_departing r = (let d = rd32 r 77 in if d = zero32 then None else Some d)"

definition new_device_pointer :: "bytes \<Rightarrow> u32 \<Rightarrow> bytes \<Rightarrow> i64 \<Rightarrow> bytes \<Rightarrow> bytes \<Rightarrow> bytes" where
  "new_device_pointer hp index device epoch placer eggs_ptr =
     patch 109 eggs_ptr (patch 77 placer (patch 69 (u64_le epoch) (patch 37 device (patch 33 (u32_le index)
       (patch 1 hp (patch 0 [record_kind_byte DevicePointer] empty_record))))))"

definition rec_index :: "bytes \<Rightarrow> u32" where "rec_index r = rd_u32 r 33"

definition rec_device :: "bytes \<Rightarrow> bytes" where
  "rec_device r = (if rec_kind r = DeviceAddress \<or> rec_kind r = DeviceAddressSet then rd32 r 1 else rd32 r 37)"

definition rec_placer :: "bytes \<Rightarrow> bytes" where "rec_placer r = rd32 r 77"

definition rec_eggs_ptr :: "bytes \<Rightarrow> bytes" where
  "rec_eggs_ptr r =
     (case rec_kind r of
        IdentityCount \<Rightarrow> rd32 r 109 | DevicePointer \<Rightarrow> rd32 r 109
      | DeviceAddress \<Rightarrow> rd32 r 107 | DeviceAddressSet \<Rightarrow> rd32 r 107 | Empty \<Rightarrow> zero32)"

definition new_device_address ::
  "bytes \<Rightarrow> bytes \<Rightarrow> bytes \<Rightarrow> u16 \<Rightarrow> bytes \<Rightarrow> u16 \<Rightarrow> i64 \<Rightarrow> bytes \<Rightarrow> bytes" where
  "new_device_address device hp ip port local_ip local_port timestamp eggs_ptr =
     patch 107 eggs_ptr (patch 99 (u64_le timestamp) (patch 139 (u16_le local_port) (patch 83 local_ip
       (patch 81 (u16_le port) (patch 65 ip (patch 33 hp (patch 1 device
         (patch 0 [record_kind_byte DeviceAddress] empty_record))))))))"

definition new_device_address_set :: "bytes \<Rightarrow> bytes \<Rightarrow> bytes \<Rightarrow> i64 \<Rightarrow> bytes \<Rightarrow> bytes" where
  "new_device_address_set device hp set_ptr timestamp eggs_ptr =
     patch 107 eggs_ptr (patch 99 (u64_le timestamp) (patch 65 set_ptr (patch 33 hp (patch 1 device
         (patch 0 [record_kind_byte DeviceAddressSet] empty_record)))))"

definition rec_handle_proof :: "bytes \<Rightarrow> bytes" where
  "rec_handle_proof r = (if rec_kind r = DeviceAddress \<or> rec_kind r = DeviceAddressSet then rd32 r 33 else rd32 r 1)"

definition rec_ip :: "bytes \<Rightarrow> bytes" where "rec_ip r = read_at 16 65 r"
definition rec_port :: "bytes \<Rightarrow> u16" where "rec_port r = u16_of_le (read_at 2 81 r)"
definition rec_local_ip :: "bytes \<Rightarrow> bytes" where "rec_local_ip r = read_at 16 83 r"
definition rec_local_port :: "bytes \<Rightarrow> u16" where "rec_local_port r = u16_of_le (read_at 2 139 r)"
definition rec_set_ptr :: "bytes \<Rightarrow> bytes" where "rec_set_ptr r = rd32 r 65"

section \<open>Signed bytes\<close>

definition address_signing_bytes :: "bytes \<Rightarrow> bytes" where
  "address_signing_bytes r =
     ascii ''PHOTON_PB_ADDR_SIG_v2'' @ rd32 r 33 @ rd32 r 1 @ rec_ip r @ u16_le (rec_port r) @ rec_local_ip r
     @ u64_le (rec_epoch r)
     @ (if rec_local_port r \<noteq> 0 then ascii ''local_port'' @ u16_le (rec_local_port r) else [])"

definition address_set_signing_bytes :: "bytes \<Rightarrow> bytes" where
  "address_set_signing_bytes r =
     ascii ''PHOTON_PB_ADDRSET_SIG_v1'' @ rd32 r 33 @ rd32 r 1 @ rec_set_ptr r @ u64_le (rec_epoch r)"

definition placement_signing_bytes :: "bytes \<Rightarrow> bytes" where
  "placement_signing_bytes r =
     ascii ''PHOTON_PB_PLACE_SIG_v2'' @ rd32 r 1 @ u32_le (rec_index r) @ u64_le (rec_epoch r) @ rd32 r 37"

definition count_signing_bytes :: "bytes \<Rightarrow> bytes" where
  "count_signing_bytes r =
     ascii ''PHOTON_PB_COUNT_SIG_v2'' @ rd32 r 1 @ u32_le (rec_count r) @ u64_le (rec_epoch r) @ rd32 r 77"

definition departure_signing_bytes :: "bytes \<Rightarrow> bytes \<Rightarrow> i64 \<Rightarrow> bytes" where
  "departure_signing_bytes hp device epoch = ascii ''PHOTON_PB_DEPART_SIG_v2'' @ hp @ device @ u64_le epoch"

section \<open>Egg blobs\<close>

definition eggs_blob_part :: "ext \<Rightarrow> egg list \<Rightarrow> bytes" where
  "eggs_blob_part W l = (let bs = (if l = [] then [] else eggs_to_bytes W l) in u16_le (of_nat (length bs)) @ bs)"

definition eggs_blob :: "ext \<Rightarrow> egg list list \<Rightarrow> bytes" where
  "eggs_blob W ls = concat (map (eggs_blob_part W) ls)"

fun eggs_blob_run :: "ext \<Rightarrow> bytes \<Rightarrow> nat \<Rightarrow> (egg list list \<times> bytes) option" where
  "eggs_blob_run W rest 0 = Some ([], rest)"
| "eggs_blob_run W rest (Suc n) =
     (if length rest < 2 then None
      else let len = unat (u16_of_le (take 2 rest)); r = drop 2 rest in
        if length r < len then None
        else (case (if len = 0 then Some [] else eggs_from_bytes W (take len r)) of
                None \<Rightarrow> None
              | Some es \<Rightarrow>
                  (case eggs_blob_run W (drop len r) n of None \<Rightarrow> None
                   | Some (ls, rest') \<Rightarrow> Some (es # ls, rest'))))"

definition eggs_blob_lists :: "ext \<Rightarrow> bytes \<Rightarrow> nat \<Rightarrow> egg list list option" where
  "eggs_blob_lists W blob n =
     (case eggs_blob_run W blob n of None \<Rightarrow> None
      | Some (ls, rest) \<Rightarrow> if rest \<noteq> [] then None else Some ls)"

definition eggs_ptr :: "ext \<Rightarrow> bytes \<Rightarrow> bytes" where
  "eggs_ptr W blob = blake3_derive W ''PHOTON_PB_EGGS_v1'' blob"

definition address_set_ptr :: "ext \<Rightarrow> bytes \<Rightarrow> bytes" where
  "address_set_ptr W blob = blake3_derive W ''PHOTON_PB_ADDRSET_BLOB_v1'' blob"

section \<open>Verification\<close>

text \<open>\<open>EggPolicy\<close>: what a reader demands of a signer, None for the anchor alone.\<close>

type_synonym egg_policy = "bytes \<Rightarrow> (key_bundle \<times> u16) option"

definition anchor_only :: egg_policy where "anchor_only = (\<lambda>_. None)"

definition judge :: "ext \<Rightarrow> egg_policy \<Rightarrow> bytes \<Rightarrow> key_bundle \<times> u16" where
  "judge W policy sg = (case policy sg of Some x \<Rightarrow> x | None \<Rightarrow> (ed25519_only W sg, MASK_BASE W))"

definition verify_list :: "ext \<Rightarrow> bytes \<Rightarrow> bytes \<Rightarrow> nat \<Rightarrow> nat \<Rightarrow> bytes \<Rightarrow> bytes \<Rightarrow> egg_policy \<Rightarrow> bool" where
  "verify_list W r blob idx n_lists sg msg policy =
     (if length blob > EGGS_BLOB_MAX \<or> eggs_ptr W blob \<noteq> rec_eggs_ptr r then False
      else (case eggs_blob_lists W blob n_lists of None \<Rightarrow> False
            | Some ls \<Rightarrow> let (bundle, required) = judge W policy sg in
                verify_eggs_declared W (ls ! idx) bundle msg required))"

definition verify_address_with :: "ext \<Rightarrow> bytes \<Rightarrow> bytes \<Rightarrow> egg_policy \<Rightarrow> bool" where
  "verify_address_with W r blob policy \<longleftrightarrow>
     rec_kind r = DeviceAddress \<and> verify_list W r blob 0 1 (rec_device r) (address_signing_bytes r) policy"

definition verify_placement_with :: "ext \<Rightarrow> bytes \<Rightarrow> bytes \<Rightarrow> egg_policy \<Rightarrow> bool" where
  "verify_placement_with W r blob policy \<longleftrightarrow>
     rec_kind r = DevicePointer \<and> verify_list W r blob 0 1 (rec_placer r) (placement_signing_bytes r) policy"

definition verify_count_with :: "ext \<Rightarrow> bytes \<Rightarrow> bytes \<Rightarrow> egg_policy \<Rightarrow> bool" where
  "verify_count_with W r blob policy \<longleftrightarrow>
     rec_kind r = IdentityCount \<and> verify_list W r blob 0 2 (rec_witness r) (count_signing_bytes r) policy"

definition verify_departure_with :: "ext \<Rightarrow> bytes \<Rightarrow> bytes \<Rightarrow> egg_policy \<Rightarrow> bool" where
  "verify_departure_with W r blob policy =
     (if rec_kind r \<noteq> IdentityCount then False
      else case rec_departing r of None \<Rightarrow> True
      | Some dev \<Rightarrow>
          verify_list W r blob 1 2 dev (departure_signing_bytes (rec_handle_proof r) dev (rec_epoch r)) policy)"

definition sign_device_address ::
  "ext \<Rightarrow> signer \<Rightarrow> u16 \<Rightarrow> bytes \<Rightarrow> bytes \<Rightarrow> u16 \<Rightarrow> bytes \<Rightarrow> u16 \<Rightarrow> i64 \<Rightarrow> bytes \<times> bytes" where
  "sign_device_address W s m hp ip port local_ip local_port timestamp =
     (let mk = new_device_address (sg_public s) hp ip port local_ip local_port timestamp;
          eggs = sg_eggs s (address_signing_bytes (mk zero32)) m;
          blob = eggs_blob W [eggs]
      in (mk (eggs_ptr W blob), blob))"

section \<open>What the layouts give\<close>

lemma length_empty_record [simp]: "length empty_record = 256"
  by (simp add: empty_record_def STRIDE_def)

lemma zeros_read: "p + n \<le> 256 \<Longrightarrow> read_at n p empty_record = replicate n 0"
  by (simp add: read_at_def empty_record_def STRIDE_def)

lemma rec_kind_read: "r \<noteq> [] \<Longrightarrow> rec_kind r = (case record_kind_from_byte (read_at 1 0 r ! 0) of Some k \<Rightarrow> k | None \<Rightarrow> Empty)"
  by (cases r) (simp_all add: rec_kind_def read_at_def)

lemma identity_count_fields:
  fixes c :: u32 and ep :: i64
  assumes "length hp = 32" "length w = 32" "length e = 32" "\<forall>d. dep = Some d \<longrightarrow> length d = 32 \<and> d \<noteq> zero32"
  defines "r \<equiv> new_identity_count hp c ep w dep e"
  shows "rec_ok r" "rec_kind r = IdentityCount" "rd32 r 1 = hp" "rec_handle_proof r = hp" "rec_count r = c" "rec_epoch r = ep" "rec_witness r = w"
    "rec_departing r = dep" "rec_eggs_ptr r = e" "rd32 r 77 = (case dep of Some d \<Rightarrow> d | None \<Rightarrow> zero32)"
proof -
  have len: "length r = 256" using assms by (simp add: new_identity_count_def split: option.split)
  then show "rec_ok r" by (simp add: rec_ok_def STRIDE_def)
  have ne: "r \<noteq> []" using len by auto
  have rd: "read_at 1 0 r = [record_kind_byte IdentityCount]" "read_at 32 1 r = hp" "read_at 4 33 r = u32_le c"
    "read_at 8 37 r = u64_le ep" "read_at 32 45 r = w" "read_at 32 109 r = e"
    "read_at 32 77 r = (case dep of Some d \<Rightarrow> d | None \<Rightarrow> zero32)"
    using assms by (simp_all add: new_identity_count_def read_patch_same read_patch_other zeros_read zero32_def split: option.split)
  then show k: "rec_kind r = IdentityCount" using rec_kind_read [OF ne] by (simp add: record_kind_from_byte_def)
  show "rd32 r 1 = hp" "rec_count r = c" "rec_epoch r = ep" "rec_witness r = w" "rec_eggs_ptr r = e" "rec_handle_proof r = hp"
    using rd k by (simp_all add: rd32_def rd_u32_def rd_i64_def rec_count_def rec_epoch_def rec_witness_def rec_eggs_ptr_def rec_handle_proof_def)
  show "rd32 r 77 = (case dep of Some d \<Rightarrow> d | None \<Rightarrow> zero32)" using rd by (simp add: rd32_def)
  then show "rec_departing r = dep" using assms(4) by (auto simp: rec_departing_def Let_def split: option.split)
qed

lemma device_pointer_fields:
  fixes i :: u32 and ep :: i64
  assumes "length hp = 32" "length d = 32" "length pl = 32" "length e = 32"
  defines "r \<equiv> new_device_pointer hp i d ep pl e"
  shows "rec_ok r" "rec_kind r = DevicePointer" "rd32 r 1 = hp" "rec_index r = i" "rec_device r = d" "rd32 r 37 = d"
    "rec_epoch r = ep" "rec_placer r = pl" "rec_eggs_ptr r = e" "rec_handle_proof r = hp"
proof -
  have len: "length r = 256" using assms by (simp add: new_device_pointer_def)
  then show "rec_ok r" by (simp add: rec_ok_def STRIDE_def)
  have ne: "r \<noteq> []" using len by auto
  have rd: "read_at 1 0 r = [record_kind_byte DevicePointer]" "read_at 32 1 r = hp" "read_at 4 33 r = u32_le i"
    "read_at 32 37 r = d" "read_at 8 69 r = u64_le ep" "read_at 32 77 r = pl" "read_at 32 109 r = e"
    using assms by (simp_all add: new_device_pointer_def read_patch_same read_patch_other)
  then show k: "rec_kind r = DevicePointer" using rec_kind_read [OF ne] by (simp add: record_kind_from_byte_def)
  show "rd32 r 1 = hp" "rec_index r = i" "rec_device r = d" "rd32 r 37 = d" "rec_epoch r = ep" "rec_placer r = pl"
    "rec_eggs_ptr r = e" "rec_handle_proof r = hp"
    using rd k by (simp_all add: rd32_def rd_u32_def rd_i64_def rec_index_def rec_device_def rec_epoch_def rec_placer_def
        rec_eggs_ptr_def rec_handle_proof_def)
qed

lemma device_address_fields:
  fixes port lport :: u16 and ts :: i64
  assumes "length d = 32" "length hp = 32" "length ip = 16" "length lip = 16" "length e = 32"
  defines "r \<equiv> new_device_address d hp ip port lip lport ts e"
  shows "rec_ok r" "rec_kind r = DeviceAddress" "rec_device r = d" "rd32 r 1 = d" "rec_handle_proof r = hp" "rd32 r 33 = hp"
    "rec_ip r = ip" "rec_port r = port" "rec_local_ip r = lip" "rec_local_port r = lport" "rec_epoch r = ts" "rec_eggs_ptr r = e"
proof -
  have len: "length r = 256" using assms by (simp add: new_device_address_def)
  then show "rec_ok r" by (simp add: rec_ok_def STRIDE_def)
  have ne: "r \<noteq> []" using len by auto
  have rd: "read_at 1 0 r = [record_kind_byte DeviceAddress]" "read_at 32 1 r = d" "read_at 32 33 r = hp"
    "read_at 16 65 r = ip" "read_at 2 81 r = u16_le port" "read_at 16 83 r = lip" "read_at 2 139 r = u16_le lport"
    "read_at 8 99 r = u64_le ts" "read_at 32 107 r = e"
    using assms by (simp_all add: new_device_address_def read_patch_same read_patch_other)
  then show k: "rec_kind r = DeviceAddress" using rec_kind_read [OF ne] by (simp add: record_kind_from_byte_def)
  show "rec_device r = d" "rd32 r 1 = d" "rec_handle_proof r = hp" "rd32 r 33 = hp" "rec_ip r = ip" "rec_port r = port"
    "rec_local_ip r = lip" "rec_local_port r = lport" "rec_epoch r = ts" "rec_eggs_ptr r = e"
    using rd k by (simp_all add: rd32_def rd_i64_def rec_device_def rec_handle_proof_def rec_ip_def rec_port_def
        rec_local_ip_def rec_local_port_def rec_epoch_def rec_eggs_ptr_def)
qed

lemma device_address_set_fields:
  fixes ts :: i64
  assumes "length d = 32" "length hp = 32" "length sp = 32" "length e = 32"
  defines "r \<equiv> new_device_address_set d hp sp ts e"
  shows "rec_ok r" "rec_kind r = DeviceAddressSet" "rec_device r = d" "rec_handle_proof r = hp" "rec_set_ptr r = sp"
    "rec_epoch r = ts" "rec_eggs_ptr r = e"
proof -
  have len: "length r = 256" using assms by (simp add: new_device_address_set_def)
  then show "rec_ok r" by (simp add: rec_ok_def STRIDE_def)
  have ne: "r \<noteq> []" using len by auto
  have rd: "read_at 1 0 r = [record_kind_byte DeviceAddressSet]" "read_at 32 1 r = d" "read_at 32 33 r = hp"
    "read_at 32 65 r = sp" "read_at 8 99 r = u64_le ts" "read_at 32 107 r = e"
    using assms by (simp_all add: new_device_address_set_def read_patch_same read_patch_other)
  then show k: "rec_kind r = DeviceAddressSet" using rec_kind_read [OF ne] by (simp add: record_kind_from_byte_def)
  show "rec_device r = d" "rec_handle_proof r = hp" "rec_set_ptr r = sp" "rec_epoch r = ts" "rec_eggs_ptr r = e"
    using rd k by (simp_all add: rd32_def rd_i64_def rec_device_def rec_handle_proof_def rec_set_ptr_def rec_epoch_def rec_eggs_ptr_def)
qed

text \<open>A blob unpacks to the lists it was packed from.\<close>

definition blob_list_ok :: "ext \<Rightarrow> egg list \<Rightarrow> bool" where
  "blob_list_ok W l \<longleftrightarrow> wf_eggs l \<and>
     (l \<noteq> [] \<longrightarrow> 0 < length (eggs_to_bytes W l) \<and> length (eggs_to_bytes W l) < 65536)"

lemma u16_len: "n < 65536 \<Longrightarrow> unat (u16_of_le (u16_le (of_nat n))) = n"
  by (simp add: unat_of_nat)

lemma eggs_blob_run_part:
  assumes "ext_ok W" "blob_list_ok W l"
  shows "eggs_blob_run W (eggs_blob_part W l @ rest) (Suc n) =
    (case eggs_blob_run W rest n of None \<Rightarrow> None | Some (ls, r) \<Rightarrow> Some (l # ls, r))"
proof (cases "l = []")
  case True
  have "unat (u16_of_le (u16_le 0)) = 0" by simp
  then show ?thesis unfolding True by (simp add: eggs_blob_part_def Let_def)
next
  case False
  let ?b = "eggs_to_bytes W l"
  have b: "0 < length ?b" "length ?b < 65536" "eggs_from_bytes W ?b = Some l"
    using assms False by (auto simp: blob_list_ok_def ext_ok_def)
  have "unat (u16_of_le (u16_le (of_nat (length ?b)))) = length ?b" by (rule u16_len [OF b(2)])
  then show ?thesis using b False by (simp add: eggs_blob_part_def Let_def)
qed

lemma eggs_blob_roundtrip:
  assumes "ext_ok W" "list_all (blob_list_ok W) ls"
  shows "eggs_blob_lists W (eggs_blob W ls) (length ls) = Some ls"
proof -
  have "eggs_blob_run W (eggs_blob W ls @ rest) (length ls) = Some (ls, rest)" for rest
    using assms(2)
    by (induction ls) (simp_all add: eggs_blob_def eggs_blob_run_part [OF assms(1)] del: eggs_blob_run.simps(2))
  from this [of "[]"] show ?thesis by (simp add: eggs_blob_lists_def)
qed

end
