(* ===== verification/Probe.thy ===== *)
theory Probe
  imports Fgtw_Prelude
begin

text \<open>
  Gapped sorted arrays, the mathematics behind the slice of src/src/phonebook.rs: \<open>kf t\<close> is the key
  in slot \<open>t\<close> (None for a gap), \<open>ideal\<close> the slot a key hashes to, \<open>N\<close> the number of slots. The
  invariant is \<open>canon\<close>: sorted, and no gap between a key's ideal slot and the slot it is in. The
  lemmas are about the three array updates the code makes; the locale states what they need of
  \<open>ideal\<close>, monotonicity on the keys of the slice.
\<close>

definition canon :: "('k::linorder \<Rightarrow> nat) \<Rightarrow> nat \<Rightarrow> 'k set \<Rightarrow> (nat \<Rightarrow> 'k option) \<Rightarrow> bool" where
  "canon ideal N K kf \<longleftrightarrow>
     (\<forall>s t a b. s < t \<longrightarrow> t < N \<longrightarrow> kf s = Some a \<longrightarrow> kf t = Some b \<longrightarrow> a < b) \<and>
     (\<forall>t k. t < N \<longrightarrow> kf t = Some k \<longrightarrow>
        k \<in> K \<and> ideal k \<le> t \<and> (\<forall>u. ideal k \<le> u \<longrightarrow> u < t \<longrightarrow> kf u \<noteq> None))"

lemma canon_sorted: "canon i N K kf \<Longrightarrow> s < t \<Longrightarrow> t < N \<Longrightarrow> kf s = Some a \<Longrightarrow> kf t = Some b \<Longrightarrow> a < b"
  unfolding canon_def by blast

lemma canon_key: "canon i N K kf \<Longrightarrow> t < N \<Longrightarrow> kf t = Some k \<Longrightarrow> k \<in> K \<and> i k \<le> t"
  unfolding canon_def by blast

lemma canon_nogap: "canon i N K kf \<Longrightarrow> t < N \<Longrightarrow> kf t = Some k \<Longrightarrow> i k \<le> u \<Longrightarrow> u < t \<Longrightarrow> kf u \<noteq> None"
  unfolding canon_def by blast

lemma canon_inj: "canon i N K kf \<Longrightarrow> s < N \<Longrightarrow> t < N \<Longrightarrow> kf s = Some k \<Longrightarrow> kf t = Some k \<Longrightarrow> s = t"
  by (metis canon_sorted linorder_neqE_nat less_irrefl)

lemma canonI:
  assumes "\<And>s t a b. s < t \<Longrightarrow> t < N \<Longrightarrow> kf s = Some a \<Longrightarrow> kf t = Some b \<Longrightarrow> a < b"
    and "\<And>t k. t < N \<Longrightarrow> kf t = Some k \<Longrightarrow> k \<in> K \<and> i k \<le> t"
    and "\<And>t k u. t < N \<Longrightarrow> kf t = Some k \<Longrightarrow> i k \<le> u \<Longrightarrow> u < t \<Longrightarrow> kf u \<noteq> None"
  shows "canon i N K kf"
  using assms unfolding canon_def by blast

locale probing =
  fixes ideal :: "'k::linorder \<Rightarrow> nat" and K :: "'k set"
  assumes ideal_mono: "a \<in> K \<Longrightarrow> b \<in> K \<Longrightarrow> a \<le> b \<Longrightarrow> ideal a \<le> ideal b"
begin

text \<open>The state of a walk that has reached slot \<open>s\<close> on the way to \<open>k\<close>: only smaller keys since the
  ideal slot.\<close>

definition walked :: "(nat \<Rightarrow> 'k option) \<Rightarrow> 'k \<Rightarrow> nat \<Rightarrow> bool" where
  "walked kf k s \<longleftrightarrow> k \<in> K \<and> ideal k \<le> s \<and> (\<forall>u. ideal k \<le> u \<longrightarrow> u < s \<longrightarrow> (\<exists>a. kf u = Some a \<and> a < k))"

lemma walked_start: "k \<in> K \<Longrightarrow> walked kf k (ideal k)"
  by (simp add: walked_def)

lemma walked_step: "walked kf k s \<Longrightarrow> kf s = Some a \<Longrightarrow> a < k \<Longrightarrow> walked kf k (Suc s)"
  by (auto simp: walked_def less_Suc_eq)

text \<open>Everything left of a walk is smaller than its target.\<close>

lemma walked_left:
  assumes "canon ideal N K kf" "walked kf k s" "t < s" "s \<le> N" "kf t = Some a"
  shows "a < k"
proof (cases "ideal k \<le> t")
  case True
  then show ?thesis using assms by (auto simp: walked_def)
next
  case False
  have "a \<in> K" "ideal a \<le> t" using canon_key [OF assms(1) _ assms(5)] assms(3,4) by auto
  then show ?thesis using False ideal_mono [of k a] assms(2) by (auto simp: walked_def not_less [symmetric])
qed

text \<open>Everything right of a gap the walk has reached is larger.\<close>

lemma walked_gap_right:
  assumes "canon ideal N K kf" "walked kf k s" "kf s = None" "s < t" "t < N" "kf t = Some b"
  shows "k < b"
proof (rule ccontr)
  assume "\<not> k < b"
  then have "b \<le> k" by simp
  have "b \<in> K" using canon_key [OF assms(1,5,6)] by simp
  then have "ideal b \<le> s" using ideal_mono [OF _ _ \<open>b \<le> k\<close>] assms(2) by (auto simp: walked_def)
  then show False using canon_nogap [OF assms(1,5,6) _ assms(4)] assms(3) by simp
qed

lemma absent_at_gap:
  assumes "canon ideal N K kf" "walked kf k s" "s < N" "kf s = None" "t < N"
  shows "kf t \<noteq> Some k"
  using walked_left [OF assms(1,2), of t k] walked_gap_right [OF assms(1,2,4), of t k] assms(3-5)
  by (cases t s rule: linorder_cases) auto

lemma absent_at_larger:
  assumes "canon ideal N K kf" "walked kf k s" "s < N" "kf s = Some b" "k < b" "t < N"
  shows "kf t \<noteq> Some k"
  using walked_left [OF assms(1,2), of t k] canon_sorted [OF assms(1), of s t b k] assms(3-6)
  by (cases t s rule: linorder_cases) auto

lemma absent_at_end:
  assumes "canon ideal N K kf" "walked kf k s" "s = N" "t < N"
  shows "kf t \<noteq> Some k"
  using walked_left [OF assms(1,2), of t k] assms(3,4) by auto

text \<open>Dropping a new key into the gap the walk ends in.\<close>

lemma canon_fill_gap:
  assumes c: "canon ideal N K kf" and w: "walked kf k s" and s: "s < N" "kf s = None"
  shows "canon ideal N K (kf(s := Some k))"
proof (rule canonI)
  fix x t a b assume x: "x < t" "t < N" "(kf(s := Some k)) x = Some a" "(kf(s := Some k)) t = Some b"
  show "a < b"
  proof (cases "x = s")
    case True
    then show ?thesis using x walked_gap_right [OF c w s(2), of t b] by simp
  next
    case False
    then show ?thesis using x walked_left [OF c w, of x a] s canon_sorted [OF c, of x t a b]
      by (cases "t = s") auto
  qed
next
  fix t b assume "t < N" "(kf(s := Some k)) t = Some b"
  then show "b \<in> K \<and> ideal b \<le> t" using canon_key [OF c, of t b] w by (auto simp: walked_def split: if_splits)
next
  fix t b u assume t: "t < N" "(kf(s := Some k)) t = Some b" "ideal b \<le> u" "u < t"
  show "(kf(s := Some k)) u \<noteq> None"
  proof (cases "t = s")
    case True
    then show ?thesis using t w by (auto simp: walked_def)
  next
    case False
    then show ?thesis using t canon_nogap [OF c, of t b u] by auto
  qed
qed

text \<open>Shifting the run that starts at a larger key one slot right, into the first gap \<open>g\<close>, and
  dropping the new key in.\<close>

definition shifted :: "(nat \<Rightarrow> 'a) \<Rightarrow> nat \<Rightarrow> nat \<Rightarrow> 'a \<Rightarrow> nat \<Rightarrow> 'a" where
  "shifted f s g x t = (if t = s then x else if s < t \<and> t \<le> g then f (t - 1) else f t)"

lemma canon_shift:
  assumes c: "canon ideal N K kf" and w: "walked kf k s" and s: "kf s = Some b" "k < b"
    and g: "s < g" "g < N" "kf g = None" "\<forall>u. s \<le> u \<longrightarrow> u < g \<longrightarrow> kf u \<noteq> None"
  shows "canon ideal N K (shifted kf s g (Some k))"
proof -
  have run: "k < a" if "s \<le> t" "t < N" "kf t = Some a" for t a
    using that s canon_sorted [OF c, of s t b a] by (cases "t = s") auto
  have nonempty: "shifted kf s g (Some k) u \<noteq> None" if "s \<le> u" "u \<le> g" for u
  proof (cases "u = s")
    case False
    then have "kf (u - 1) \<noteq> None" using that g(4) by (auto simp: Suc_le_eq)
    then show ?thesis using False that by (simp add: shifted_def)
  qed (simp add: shifted_def)
  show ?thesis
  proof (rule canonI)
    fix x t a d assume x: "x < t" "t < N" "shifted kf s g (Some k) x = Some a" "shifted kf s g (Some k) t = Some d"
    have X: "x = s \<and> a = k \<or> s < x \<and> x \<le> g \<and> kf (x - 1) = Some a \<or> (x < s \<or> g < x) \<and> kf x = Some a"
      using x(3) g(1) by (auto simp: shifted_def split: if_splits)
    have T: "t = s \<and> d = k \<or> s < t \<and> t \<le> g \<and> kf (t - 1) = Some d \<or> (t < s \<or> g < t) \<and> kf t = Some d"
      using x(4) g(1) by (auto simp: shifted_def split: if_splits)
    have le: "y < z \<Longrightarrow> z < N \<Longrightarrow> kf y = Some a \<Longrightarrow> kf z = Some d \<Longrightarrow> a < d" for y z
      using canon_sorted [OF c] by blast
    have L: "x < s \<Longrightarrow> kf x = Some a \<Longrightarrow> a < k" using walked_left [OF c w, of x a] g by simp
    have R: "s \<le> z \<Longrightarrow> z < N \<Longrightarrow> kf z = Some d \<Longrightarrow> k < d" for z using run by blast
    show "a < d"
    proof (cases "x = s")
      case True
      then have ak: "a = k" using X g(1) by auto
      have "\<exists>z. s \<le> z \<and> z < N \<and> kf z = Some d"
        using T True x(1,2) by (auto intro: exI [of _ "t - 1"] exI [of _ t])
      then show ?thesis using R ak by blast
    next
      case False
      show ?thesis
      proof (cases "t = s")
        case True
        then show ?thesis using X T False x(1) L g(1) by auto
      next
        case tF: False
        have "\<exists>y. y \<le> x \<and> kf y = Some a \<and> (x < s \<longrightarrow> y = x) \<and> (s < x \<longrightarrow> x \<le> g \<longrightarrow> y = x - 1) \<and> (g < x \<longrightarrow> y = x)"
          using X False by auto
        moreover have "\<exists>z. z < N \<and> kf z = Some d \<and> (t < s \<longrightarrow> z = t) \<and> (s < t \<longrightarrow> t \<le> g \<longrightarrow> z = t - 1) \<and> (g < t \<longrightarrow> z = t)"
          using T tF x(2) by auto
        ultimately obtain y z where yz: "kf y = Some a" "kf z = Some d" "z < N"
          "x < s \<longrightarrow> y = x" "s < x \<longrightarrow> x \<le> g \<longrightarrow> y = x - 1" "g < x \<longrightarrow> y = x"
          "t < s \<longrightarrow> z = t" "s < t \<longrightarrow> t \<le> g \<longrightarrow> z = t - 1" "g < t \<longrightarrow> z = t" by blast
        have "y < z" using yz(4-9) x(1) False tF g(1) by arith
        then show ?thesis using le yz(1-3) by blast
      qed
    qed
  next
    fix t d assume t: "t < N" "shifted kf s g (Some k) t = Some d"
    show "d \<in> K \<and> ideal d \<le> t"
    proof (cases "s < t \<and> t \<le> g")
      case True
      then have "kf (t - 1) = Some d" "t - 1 < N" using t by (auto simp: shifted_def)
      then show ?thesis using canon_key [OF c, of "t - 1" d] by auto
    next
      case False
      then show ?thesis using t canon_key [OF c, of t d] w by (auto simp: shifted_def walked_def split: if_splits)
    qed
  next
    fix t d u assume t: "t < N" "shifted kf s g (Some k) t = Some d" "ideal d \<le> u" "u < t"
    show "shifted kf s g (Some k) u \<noteq> None"
    proof (cases "s \<le> u \<and> u \<le> g")
      case True
      then show ?thesis using nonempty by blast
    next
      case False
      then have u: "u < s \<or> g < u" by auto
      then have ku: "shifted kf s g (Some k) u = kf u" using g by (auto simp: shifted_def)
      have "kf u \<noteq> None"
      proof (cases "t = s")
        case True
        then show ?thesis using t u w by (auto simp: shifted_def walked_def)
      next
        case tF: False
        show ?thesis
        proof (cases "s < t \<and> t \<le> g")
          case True
          then have "kf (t - 1) = Some d" "u < t - 1" using t tF u by (auto simp: shifted_def)
          then show ?thesis using canon_nogap [OF c, of "t - 1" d u] t by simp
        next
          case nF: False
          then have "kf t = Some d" using t(2) tF by (simp add: shifted_def split: if_splits)
          then show ?thesis using canon_nogap [OF c t(1) _ t(3,4)] by blast
        qed
      qed
      then show ?thesis using ku by simp
    qed
  qed
qed

text \<open>Taking a key out and pulling the run behind it left by one, up to slot \<open>e\<close>.\<close>

definition pulled :: "(nat \<Rightarrow> 'a) \<Rightarrow> nat \<Rightarrow> nat \<Rightarrow> 'a \<Rightarrow> nat \<Rightarrow> 'a" where
  "pulled f s e x t = (if s \<le> t \<and> t < e then f (Suc t) else if t = e then x else f t)"

lemma canon_pull:
  assumes c: "canon ideal N K kf" and e: "s \<le> e" "e < N"
    and mv: "\<forall>t. s < t \<longrightarrow> t \<le> e \<longrightarrow> (\<exists>a. kf t = Some a \<and> ideal a < t)"
    and ks: "kf s \<noteq> None"
    and stop: "\<And>a. Suc e < N \<Longrightarrow> kf (Suc e) = Some a \<Longrightarrow> e < ideal a"
  shows "canon ideal N K (pulled kf s e None)"
proof (rule canonI)
  fix x t a d assume x: "x < t" "t < N" "pulled kf s e None x = Some a" "pulled kf s e None t = Some d"
  obtain y where y: "kf y = Some a" "y = (if s \<le> x \<and> x < e then Suc x else x)"
    using x(3) by (auto simp: pulled_def split: if_splits)
  obtain z where z: "kf z = Some d" "z = (if s \<le> t \<and> t < e then Suc t else t)" "t \<noteq> e"
    using x(4) by (auto simp: pulled_def split: if_splits)
  have "z < N" using z x(2) e by auto
  moreover have "y < z" using y(2) z(2,3) x(1) by auto
  ultimately show "a < d" using canon_sorted [OF c _ _ y(1) z(1)] by blast
next
  fix t d assume t: "t < N" "pulled kf s e None t = Some d"
  show "d \<in> K \<and> ideal d \<le> t"
  proof (cases "s \<le> t \<and> t < e")
    case True
    then have "kf (Suc t) = Some d" using t by (simp add: pulled_def)
    then show ?thesis using True mv e canon_key [OF c, of "Suc t" d] by (auto dest: spec [of _ "Suc t"])
  next
    case False
    then have "kf t = Some d" using t by (auto simp: pulled_def split: if_splits)
    then show ?thesis using canon_key [OF c t(1)] by blast
  qed
next
  fix t d u assume t: "t < N" "pulled kf s e None t = Some d" "ideal d \<le> u" "u < t"
  have run: "kf v \<noteq> None" if "s \<le> v" "v \<le> e" for v
    using that mv [rule_format, of v] ks by (cases "v = s") auto
  show "pulled kf s e None u \<noteq> None"
  proof (cases "s \<le> t \<and> t < e")
    case True
    then have k: "kf (Suc t) = Some d" "Suc t < N" using t e by (auto simp: pulled_def)
    show ?thesis
    proof (cases "s \<le> u")
      case True
      then show ?thesis using run [of "Suc u"] t \<open>s \<le> t \<and> t < e\<close> by (auto simp: pulled_def)
    next
      case False
      then show ?thesis using canon_nogap [OF c k(2,1) t(3)] t(4) e by (simp add: pulled_def)
    qed
  next
    case False
    then have k: "kf t = Some d" "t \<noteq> e" using t(2) by (auto simp: pulled_def split: if_splits)
    show ?thesis
    proof (cases "t < s")
      case True
      then show ?thesis using canon_nogap [OF c t(1) k(1) t(3,4)] t(4) e by (simp add: pulled_def)
    next
      case tF: False
      then have te: "e < t" using False k(2) by auto
      have "e < ideal d"
      proof (rule ccontr)
        assume "\<not> e < ideal d"
        then have di: "ideal d \<le> e" by simp
        show False
        proof (cases "t = Suc e")
          case True
          then show False using stop [of d] k(1) t(1) di by simp
        next
          case ne: False
          then have "Suc e < t" using te by simp
          then have "kf (Suc e) \<noteq> None" using canon_nogap [OF c t(1) k(1), of "Suc e"] di by simp
          then obtain b where b: "kf (Suc e) = Some b" by blast
          have lt: "Suc e < N" using \<open>Suc e < t\<close> t(1) by simp
          have "b < d" using canon_sorted [OF c \<open>Suc e < t\<close> t(1) b k(1)] .
          then have "ideal b \<le> ideal d"
            using ideal_mono canon_key [OF c lt b] canon_key [OF c t(1) k(1)] by auto
          then show False using stop [OF lt b] di by simp
        qed
      qed
      then have "e < u" using t(3) by simp
      then show ?thesis using canon_nogap [OF c t(1) k(1) t(3,4)] by (simp add: pulled_def)
    qed
  qed
qed

end

text \<open>A canonical layout is determined by its contents.\<close>

lemma canon_unique_step:
  assumes f: "canon i N K (\<lambda>t. ky (f t))" and g: "canon i N K (\<lambda>t. ky (g t))"
    and same: "\<forall>r. ky r \<noteq> None \<longrightarrow> (\<exists>t < N. f t = r) \<longrightarrow> (\<exists>t < N. g t = r)"
      "\<forall>r. ky r \<noteq> None \<longrightarrow> (\<exists>t < N. g t = r) \<longrightarrow> (\<exists>t < N. f t = r)"
    and IH: "\<forall>u < t. ky (f u) \<noteq> None \<or> ky (g u) \<noteq> None \<longrightarrow> f u = g u" and t: "t < N" and k: "ky (f t) = Some k"
  shows "f t = g t"
proof -
  obtain t' where t': "t' < N" "g t' = f t" using same(1) k t by (metis option.distinct(1))
  then have gk: "ky (g t') = Some k" using k by simp
  have ik: "i k \<le> t" using canon_key [OF f t k] by simp
  show ?thesis
  proof (cases t' t rule: linorder_cases)
    case less
    have "f t' = g t'" by (rule IH [rule_format, OF less]) (simp add: gk)
    then have "ky (f t') = Some k" using gk by simp
    then show ?thesis using canon_sorted [OF f less t _ k] by auto
  next
    case equal
    then show ?thesis using t' by simp
  next
    case greater
    then have "ky (g t) \<noteq> None" using canon_nogap [OF g t'(1) gk ik] by simp
    then obtain k2 where k2: "ky (g t) = Some k2" by blast
    have lt: "k2 < k" using canon_sorted [OF g greater t'(1) k2 gk] .
    obtain u where u: "u < N" "f u = g t" using same(2) k2 t by (metis option.distinct(1))
    then have fu: "ky (f u) = Some k2" using k2 by simp
    have False
    proof (cases u t rule: linorder_cases)
      case less
      have "f u = g u" by (rule IH [rule_format, OF less]) (simp add: fu)
      then have "g u = g t" using u by simp
      then have "ky (g u) = Some k2" using k2 by simp
      then show False using canon_sorted [OF g less t _ k2] by auto
    next
      case equal
      then show False using fu k lt by simp
    next
      case greater
      then show False using canon_sorted [OF f greater u(1) k fu] lt by auto
    qed
    then show ?thesis ..
  qed
qed

lemma canon_unique:
  assumes f: "canon i N K (\<lambda>t. ky (f t))" and g: "canon i N K (\<lambda>t. ky (g t))"
    and same: "\<forall>r. ky r \<noteq> None \<longrightarrow> (\<exists>t < N. f t = r) \<longleftrightarrow> (\<exists>t < N. g t = r)"
  shows "t < N \<Longrightarrow> ky (f t) \<noteq> None \<or> ky (g t) \<noteq> None \<Longrightarrow> f t = g t"
proof (induction t rule: less_induct)
  case (less t)
  have IH: "\<forall>u < t. ky (f u) \<noteq> None \<or> ky (g u) \<noteq> None \<longrightarrow> f u = g u"
    by (intro allI impI less.IH) (use less.prems(1) in auto)
  then have IH': "\<forall>u < t. ky (g u) \<noteq> None \<or> ky (f u) \<noteq> None \<longrightarrow> g u = f u" by (metis (no_types))
  have s1: "\<forall>r. ky r \<noteq> None \<longrightarrow> (\<exists>t < N. f t = r) \<longrightarrow> (\<exists>t < N. g t = r)"
    and s2: "\<forall>r. ky r \<noteq> None \<longrightarrow> (\<exists>t < N. g t = r) \<longrightarrow> (\<exists>t < N. f t = r)" using same by blast+
  show ?case
  proof (cases "ky (f t)")
    case (Some k)
    then show ?thesis using canon_unique_step [OF f g s1 s2 IH less.prems(1)] by simp
  next
    case None
    then obtain k where "ky (g t) = Some k" using less.prems(2) by auto
    then show ?thesis using canon_unique_step [OF g f s2 s1 IH' less.prems(1)] by simp
  qed
qed

end
