(* ===== verification/Slice.thy ===== *)
theory Slice
  imports Phonebook_Record Probe
begin

text \<open>
  src/src/phonebook.rs, \<open>Slice\<close>: 4096 records of 256 bytes in one flat buffer, with lookup, insert and
  remove by linear probing in sorted order. The first part are the definitions, each loop a
  recursive function on the slot index; the second part connects the buffer to a slot function, and
  the third applies the lemmas of \<open>Probe\<close>.
\<close>

section \<open>The slice\<close>

record slice =
  sl_bits :: nat
  sl_id :: u32
  sl_buf :: bytes
  sl_fill :: nat

datatype slice_error = Full | StaleEpoch i64 i64 | WrongSlice u32 u32 | EmptyRecord

definition slice_new :: "nat \<Rightarrow> u32 \<Rightarrow> slice" where
  "slice_new bits id' = \<lparr>sl_bits = bits, sl_id = id', sl_buf = replicate (SLICE_SLOTS * STRIDE) 0, sl_fill = 0\<rparr>"

definition slice_ideal :: "slice \<Rightarrow> bytes \<Rightarrow> nat" where
  "slice_ideal sl key = slot_of key (sl_bits sl)"

definition slice_at :: "slice \<Rightarrow> nat \<Rightarrow> bytes" where
  "slice_at sl slot = read_at STRIDE (slot * STRIDE) (sl_buf sl)"

definition slice_put :: "slice \<Rightarrow> nat \<Rightarrow> bytes \<Rightarrow> slice" where
  "slice_put sl slot r = sl\<lparr>sl_buf := patch (slot * STRIDE) r (sl_buf sl)\<rparr>"

definition slice_clear :: "slice \<Rightarrow> nat \<Rightarrow> slice" where
  "slice_clear sl slot = slice_put sl slot empty_record"

function lookup_from :: "ext \<Rightarrow> slice \<Rightarrow> bytes \<Rightarrow> nat \<Rightarrow> (nat \<times> bytes) option" where
  "lookup_from W sl key s =
     (if s < SLICE_SLOTS
      then (case rec_key W (slice_at sl s) of
              None \<Rightarrow> None
            | Some k \<Rightarrow> if k = key then Some (s, slice_at sl s) else if k > key then None
                        else lookup_from W sl key (Suc s))
      else None)"
  by pat_completeness auto
termination by (relation "measure (\<lambda>(_, _, _, s). SLICE_SLOTS - s)") auto

declare lookup_from.simps [simp del]

definition slice_lookup :: "ext \<Rightarrow> slice \<Rightarrow> bytes \<Rightarrow> (nat \<times> bytes) option" where
  "slice_lookup W sl key = lookup_from W sl key (slice_ideal sl key)"

definition next_gap :: "slice \<Rightarrow> nat \<Rightarrow> nat option" where
  "next_gap sl from_slot = find (\<lambda>s. rec_is_empty (slice_at sl s)) [from_slot..<SLICE_SLOTS]"

text \<open>\<open>while j > s { put(j, at(j - 1)); j -= 1 }\<close>.\<close>

fun shift_right :: "slice \<Rightarrow> nat \<Rightarrow> nat \<Rightarrow> slice" where
  "shift_right sl s 0 = sl"
| "shift_right sl s (Suc j) =
     (if Suc j > s then shift_right (slice_put sl (Suc j) (slice_at sl j)) s j else sl)"

function insert_from :: "ext \<Rightarrow> slice \<Rightarrow> bytes \<Rightarrow> bytes \<Rightarrow> nat \<Rightarrow> slice_error + slice \<times> nat" where
  "insert_from W sl r key s =
     (if s < SLICE_SLOTS
      then (case rec_key W (slice_at sl s) of
              None \<Rightarrow> Inr ((slice_put sl s r)\<lparr>sl_fill := sl_fill sl + 1\<rparr>, s)
            | Some k \<Rightarrow>
                if k = key then
                  (if sint (rec_epoch r) \<le> sint (rec_epoch (slice_at sl s))
                   then Inl (StaleEpoch (rec_epoch (slice_at sl s)) (rec_epoch r))
                   else Inr (slice_put sl s r, s))
                else if k < key then insert_from W sl r key (Suc s)
                else (case next_gap sl s of
                        None \<Rightarrow> Inl Full
                      | Some gap \<Rightarrow> Inr ((slice_put (shift_right sl s gap) s r)\<lparr>sl_fill := sl_fill sl + 1\<rparr>, s)))
      else Inl Full)"
  by pat_completeness auto
termination by (relation "measure (\<lambda>(_, _, _, _, s). SLICE_SLOTS - s)") auto

declare insert_from.simps [simp del]

definition slice_insert :: "ext \<Rightarrow> slice \<Rightarrow> bytes \<Rightarrow> slice_error + slice \<times> nat" where
  "slice_insert W sl r =
     (case rec_key W r of
        None \<Rightarrow> Inl EmptyRecord
      | Some key \<Rightarrow>
          if slice_of key (sl_bits sl) \<noteq> sl_id sl
          then Inl (WrongSlice (sl_id sl) (slice_of key (sl_bits sl)))
          else insert_from W sl r key (slice_ideal sl key))"

text \<open>The pulling loop of \<open>remove\<close>, with the slot that is free and the slot to look at.\<close>

function pull_left :: "ext \<Rightarrow> slice \<Rightarrow> nat \<Rightarrow> nat \<Rightarrow> slice \<times> nat" where
  "pull_left W sl free j =
     (if j < SLICE_SLOTS
      then (case rec_key W (slice_at sl j) of
              None \<Rightarrow> (sl, free)
            | Some k \<Rightarrow> if slice_ideal sl k > free then (sl, free)
                        else pull_left W (slice_put sl free (slice_at sl j)) j (Suc j))
      else (sl, free))"
  by pat_completeness auto
termination by (relation "measure (\<lambda>(_, _, _, j). SLICE_SLOTS - j)") auto

declare pull_left.simps [simp del]

definition slice_remove :: "ext \<Rightarrow> slice \<Rightarrow> bytes \<Rightarrow> slice \<times> bool" where
  "slice_remove W sl key =
     (case slice_lookup W sl key of
        None \<Rightarrow> (sl, False)
      | Some (slot, _) \<Rightarrow>
          let sl1 = (slice_clear sl slot)\<lparr>sl_fill := sl_fill sl - 1\<rparr>;
              (sl2, free) = pull_left W sl1 slot (slot + 1)
          in (slice_clear sl2 free, True))"

definition slice_iter :: "slice \<Rightarrow> (nat \<times> bytes) list" where
  "slice_iter sl = filter (\<lambda>(s, r). \<not> rec_is_empty r) (map (\<lambda>s. (s, slice_at sl s)) [0..<SLICE_SLOTS])"

definition slice_from_bytes :: "nat \<Rightarrow> u32 \<Rightarrow> bytes \<Rightarrow> slice option" where
  "slice_from_bytes bits id' buf =
     (if length buf \<noteq> SLICE_SLOTS * STRIDE then None
      else let sl = \<lparr>sl_bits = bits, sl_id = id', sl_buf = buf, sl_fill = 0\<rparr> in
        Some (sl\<lparr>sl_fill := length (filter (\<lambda>i. \<not> rec_is_empty (slice_at sl i)) [0..<SLICE_SLOTS])\<rparr>))"

datatype invariant_error = NoKey nat | LeftOfIdeal nat | OutOfOrder nat

fun check_from :: "ext \<Rightarrow> slice \<Rightarrow> bytes option \<Rightarrow> (nat \<times> bytes) list \<Rightarrow> invariant_error option" where
  "check_from W sl prev [] = None"
| "check_from W sl prev ((slot, r) # rest) =
     (case rec_key W r of
        None \<Rightarrow> Some (NoKey slot)
      | Some k \<Rightarrow>
          if slice_ideal sl k > slot then Some (LeftOfIdeal slot)
          else if (case prev of Some p \<Rightarrow> k \<le> p | None \<Rightarrow> False) then Some (OutOfOrder slot)
          else check_from W sl (Some k) rest)"

definition check_invariants :: "ext \<Rightarrow> slice \<Rightarrow> invariant_error option" where
  "check_invariants W sl = check_from W sl None (slice_iter sl)"

section \<open>The buffer as a slot function\<close>

definition buf_ok :: "slice \<Rightarrow> bool" where
  "buf_ok sl \<longleftrightarrow> length (sl_buf sl) = SLICE_SLOTS * STRIDE"

lemma slot_room: "s < SLICE_SLOTS \<Longrightarrow> s * STRIDE + STRIDE \<le> SLICE_SLOTS * STRIDE"
  by (metis Suc_leI add.commute mult_Suc mult_le_mono1)

lemma slot_apart: "s \<noteq> t \<Longrightarrow> t * STRIDE + STRIDE \<le> s * STRIDE \<or> s * STRIDE + STRIDE \<le> t * STRIDE"
  by (metis Suc_leI add.commute linorder_neqE_nat mult_Suc mult_le_mono1)

lemma slice_at_put:
  assumes "buf_ok sl" "rec_ok r" "s < SLICE_SLOTS"
  shows "slice_at (slice_put sl s r) t = (if t = s then r else slice_at sl t)"
  using assms slot_room [of s] slot_apart [of s t]
  by (simp add: slice_at_def slice_put_def buf_ok_def rec_ok_def read_patch_same read_patch_other)

lemma buf_ok_put [simp]: "rec_ok r \<Longrightarrow> s < SLICE_SLOTS \<Longrightarrow> buf_ok sl \<Longrightarrow> buf_ok (slice_put sl s r)"
  using slot_room [of s] by (simp add: buf_ok_def slice_put_def rec_ok_def)

lemma rec_ok_at [simp]: "buf_ok sl \<Longrightarrow> s < SLICE_SLOTS \<Longrightarrow> rec_ok (slice_at sl s)"
  using slot_room [of s] by (simp add: rec_ok_def slice_at_def read_at_def buf_ok_def)

lemma rec_ok_empty [simp]: "rec_ok empty_record"
  by (simp add: rec_ok_def STRIDE_def)

lemma put_sel [simp]: "sl_bits (slice_put sl s r) = sl_bits sl" "sl_id (slice_put sl s r) = sl_id sl"
  "sl_fill (slice_put sl s r) = sl_fill sl" "slice_ideal (slice_put sl s r) = slice_ideal sl"
  by (simp_all add: slice_put_def slice_ideal_def [abs_def])

lemma fill_sel [simp]: "slice_at (sl\<lparr>sl_fill := n\<rparr>) = slice_at sl" "buf_ok (sl\<lparr>sl_fill := n\<rparr>) = buf_ok sl"
  "slice_ideal (sl\<lparr>sl_fill := n\<rparr>) = slice_ideal sl"
  by (simp_all add: slice_at_def [abs_def] buf_ok_def slice_ideal_def [abs_def])

text \<open>Two buffers with the same slots are the same.\<close>

lemma buf_eqI:
  assumes "buf_ok a" "buf_ok b" "\<And>t. t < SLICE_SLOTS \<Longrightarrow> slice_at a t = slice_at b t"
  shows "sl_buf a = sl_buf b"
proof (rule nth_equalityI)
  show "length (sl_buf a) = length (sl_buf b)" using assms(1,2) by (simp add: buf_ok_def)
  fix i assume i: "i < length (sl_buf a)"
  let ?t = "i div STRIDE" and ?o = "i mod STRIDE"
  have t: "?t < SLICE_SLOTS" using i assms(1) by (simp add: buf_ok_def less_mult_imp_div_less)
  have io: "?t * STRIDE + ?o = i" by simp
  have o: "?o < STRIDE" by (simp add: STRIDE_def)
  have nth: "slice_at sl ?t ! ?o = sl_buf sl ! i" if "buf_ok sl" for sl
  proof -
    have "?t * STRIDE \<le> length (sl_buf sl)" using that slot_room [OF t] unfolding buf_ok_def by linarith
    then show ?thesis using o io by (simp add: slice_at_def read_at_def)
  qed
  show "sl_buf a ! i = sl_buf b ! i"
    using nth [OF assms(1)] nth [OF assms(2)] assms(3) [OF t] by simp
qed

definition keys_at :: "ext \<Rightarrow> slice \<Rightarrow> nat \<Rightarrow> bytes option" where
  "keys_at W sl t = rec_key W (slice_at sl t)"

lemma shift_right_at:
  "buf_ok sl \<Longrightarrow> g < SLICE_SLOTS \<Longrightarrow> s \<le> g \<Longrightarrow>
     buf_ok (shift_right sl s g) \<and> sl_bits (shift_right sl s g) = sl_bits sl \<and> sl_id (shift_right sl s g) = sl_id sl \<and>
     (\<forall>t. slice_at (shift_right sl s g) t = (if s < t \<and> t \<le> g then slice_at sl (t - 1) else slice_at sl t))"
proof (induction g arbitrary: sl)
  case (Suc g)
  show ?case
  proof (cases "Suc g > s")
    case True
    let ?sl = "slice_put sl (Suc g) (slice_at sl g)"
    have ok: "buf_ok ?sl" "\<And>t. slice_at ?sl t = (if t = Suc g then slice_at sl g else slice_at sl t)"
      using Suc.prems slice_at_put [of sl "slice_at sl g" "Suc g"] by simp_all
    have "buf_ok (shift_right ?sl s g) \<and> sl_bits (shift_right ?sl s g) = sl_bits ?sl \<and> sl_id (shift_right ?sl s g) = sl_id ?sl \<and>
       (\<forall>t. slice_at (shift_right ?sl s g) t = (if s < t \<and> t \<le> g then slice_at ?sl (t - 1) else slice_at ?sl t))"
      using Suc.IH [OF ok(1)] Suc.prems True by simp
    then show ?thesis using True ok(2) by auto
  next
    case False
    then show ?thesis using Suc.prems by auto
  qed
qed auto

section \<open>Slots are monotone in the key\<close>

lemma be_dec_Cons: "be_dec (x # xs) = unat x * 256 ^ length xs + be_dec xs"
proof -
  have "le_dec (ys @ [x]) = le_dec ys + unat x * 256 ^ length ys" for ys
    by (induction ys) (simp_all add: algebra_simps)
  then show ?thesis by (simp add: be_dec_def)
qed

lemma be_dec_bound: "be_dec xs < 256 ^ length xs"
  using le_dec_bound [of "rev xs"] by (simp add: be_dec_def)

lemma be_dec_append: "be_dec (xs @ ys) = be_dec xs * 256 ^ length ys + be_dec ys"
  by (induction xs) (simp_all add: be_dec_Cons algebra_simps power_add, simp add: be_dec_def)

lemma be_dec_mono:
  "length a = length b \<Longrightarrow> (a :: bytes) \<le> b \<Longrightarrow> be_dec (take n a) \<le> be_dec (take n b)"
proof (induction a b arbitrary: n rule: list_induct2)
  case (Cons x xs y ys)
  show ?case
  proof (cases n)
    case (Suc m)
    have len: "length (take m xs) = length (take m ys)" using Cons.hyps by simp
    consider "x < y" | "x = y" "xs \<le> ys" using Cons.prems by (auto simp: Cons_le_Cons)
    then show ?thesis
    proof cases
      case 1
      then have "unat x + 1 \<le> unat y" by (simp add: word_less_nat_alt)
      then have "(unat x + 1) * 256 ^ length (take m xs) \<le> unat y * 256 ^ length (take m ys)"
        unfolding len by (rule mult_le_mono1)
      then show ?thesis using be_dec_bound [of "take m xs"] Suc by (simp add: be_dec_Cons)
    next
      case 2
      then show ?thesis using Cons.IH [of m] Suc len by (simp add: be_dec_Cons)
    qed
  qed simp
qed simp

lemma unat_u64_be: "length bs = 8 \<Longrightarrow> unat (u64_of_be bs) = be_dec bs"
  using be_dec_bound [of bs] by (simp add: u64_of_be_def unat_of_nat)

lemma unat_u32_be: "length bs = 4 \<Longrightarrow> unat (u32_of_be bs) = be_dec bs"
  using be_dec_bound [of bs] by (simp add: u32_of_be_def unat_of_nat)

lemma unat_drop_bit: "unat (drop_bit n (w :: 'a::len word)) = unat w div 2 ^ n"
  by (metis drop_bit_eq_div unat_drop_bit_eq)

lemma slot_of_div:
  assumes "length k = 32" 
  shows "slot_of k b = be_dec (take 8 k) div 2 ^ (64 - b - 12) mod 4096"
proof -
  have "slot_of k b = take_bit 12 (be_dec (take 8 k) div 2 ^ (64 - b - 12))"
    using assms unfolding slot_of_def SLOT_BITS_def
    by (simp only: mask_eq_exp_minus_1 [symmetric] take_bit_eq_mask [symmetric] unsigned_take_bit_eq unat_drop_bit)
      (simp add: unat_u64_be)
  then show ?thesis by (simp add: take_bit_eq_mod)
qed

lemma slice_of_div:
  assumes "length k = 32" "b \<le> 32"
  shows "unat (slice_of k b) = be_dec (take 8 k) div 2 ^ (64 - b - 12) div 4096"
proof -
  have k: "take 8 k = take 4 k @ take 4 (drop 4 k)" using assms by (simp add: take_add [symmetric])
  have Y: "be_dec (take 4 (drop 4 k)) < 2 ^ 32" using be_dec_bound [of "take 4 (drop 4 k)"] assms by simp
  have X: "be_dec (take 4 k) < 2 ^ 32" using be_dec_bound [of "take 4 k"] assms by simp
  have e: "be_dec (take 8 k) = be_dec (take 4 k) * 2 ^ 32 + be_dec (take 4 (drop 4 k))"
    unfolding k be_dec_append using assms by simp
  have "be_dec (take 8 k) div 2 ^ (64 - b - 12) div 4096 = be_dec (take 8 k) div (2 ^ (64 - b - 12) * 2 ^ 12)"
    by (simp add: div_mult2_eq)
  also have "2 ^ (64 - b - 12) * (2::nat) ^ 12 = 2 ^ 32 * 2 ^ (32 - b)"
    unfolding power_add [symmetric] using assms by (intro arg_cong [where f = "(^) 2"]) simp
  also have "be_dec (take 8 k) div (2 ^ 32 * 2 ^ (32 - b)) = be_dec (take 8 k) div 2 ^ 32 div 2 ^ (32 - b)"
    by (rule div_mult2_eq)
  also have "be_dec (take 8 k) div 2 ^ 32 = be_dec (take 4 k)" unfolding e using Y by simp
  finally have r: "be_dec (take 8 k) div 2 ^ (64 - b - 12) div 4096 = be_dec (take 4 k) div 2 ^ (32 - b)" .
  show ?thesis unfolding r slice_of_def using X assms by (auto simp: unat_drop_bit unat_u32_be)
qed

definition slice_keys :: "nat \<Rightarrow> u32 \<Rightarrow> bytes set" where
  "slice_keys bits id' = {k. bits \<le> 32 \<and> length k = 32 \<and> slice_of k bits = id'}"

lemma div_mod_mono:
  fixes q r :: nat
  assumes "q \<le> r" "q div m = r div m"
  shows "q mod m \<le> r mod m"
  using assms by (metis add_le_cancel_left div_mult_mod_eq)

lemma slot_of_mono:
  assumes "a \<in> slice_keys b i" "c \<in> slice_keys b i" "a \<le> c"
  shows "slot_of a b \<le> slot_of c b"
proof -
  let ?q = "\<lambda>k. be_dec (take 8 k) div 2 ^ (64 - b - 12)"
  have len: "length a = 32" "length c = 32" "b \<le> 32" "slice_of a b = slice_of c b"
    using assms(1,2) by (auto simp: slice_keys_def)
  have "?q a \<le> ?q c" using be_dec_mono [of a c 8] len assms(3) by (simp add: div_le_mono)
  moreover have "?q a div 4096 = ?q c div 4096"
    using slice_of_div [OF len(1,3)] slice_of_div [OF len(2,3)] len(4) by simp
  ultimately show ?thesis
    unfolding slot_of_div [OF len(1)] slot_of_div [OF len(2)] by (rule div_mod_mono)
qed

interpretation slice_probe: probing "\<lambda>k. slot_of k b" "slice_keys b i" for b i
  by unfold_locales (rule slot_of_mono)

lemma slot_of_less: "length k = 32 \<Longrightarrow> slot_of k b < SLICE_SLOTS"
  by (simp add: slot_of_div SLICE_SLOTS_def)

lemma rec_key_length: "ext_ok W \<Longrightarrow> rec_key W r = Some k \<Longrightarrow> length k = 32"
  by (auto simp: rec_key_def key_identity_def key_pointer_def key_address_def key_address_set_def ext_ok_def
      split: record_kind.splits)

lemma rec_key_None: "rec_key W r = None \<longleftrightarrow> rec_is_empty r"
  by (simp add: rec_key_def rec_is_empty_def split: record_kind.splits)

section \<open>Well-formed slices\<close>

definition occupied :: "ext \<Rightarrow> slice \<Rightarrow> nat set" where
  "occupied W sl = {t. t < SLICE_SLOTS \<and> keys_at W sl t \<noteq> None}"

definition slice_layout :: "ext \<Rightarrow> slice \<Rightarrow> bool" where
  "slice_layout W sl \<longleftrightarrow> buf_ok sl \<and>
     canon (\<lambda>k. slot_of k (sl_bits sl)) SLICE_SLOTS (slice_keys (sl_bits sl) (sl_id sl)) (keys_at W sl)"

definition wf_slice :: "ext \<Rightarrow> slice \<Rightarrow> bool" where
  "wf_slice W sl \<longleftrightarrow> slice_layout W sl \<and> sl_fill sl = card (occupied W sl) \<and>
     (\<forall>t < SLICE_SLOTS. keys_at W sl t = None \<longrightarrow> slice_at sl t = empty_record)"

text \<open>What a slice holds, as a map from keys to records.\<close>

definition slice_holds :: "ext \<Rightarrow> slice \<Rightarrow> bytes \<Rightarrow> bytes \<Rightarrow> bool" where
  "slice_holds W sl k r \<longleftrightarrow> (\<exists>t < SLICE_SLOTS. slice_at sl t = r \<and> rec_key W r = Some k)"

abbreviation walked_to :: "ext \<Rightarrow> slice \<Rightarrow> bytes \<Rightarrow> nat \<Rightarrow> bool" where
  "walked_to W sl k s \<equiv> probing.walked (\<lambda>k. slot_of k (sl_bits sl)) (slice_keys (sl_bits sl) (sl_id sl))
     (keys_at W sl) k s"

lemma finite_occupied [simp]: "finite (occupied W sl)"
  by (simp add: occupied_def)

lemma lookup_from_spec:
  "slice_layout W sl \<Longrightarrow> walked_to W sl key s \<Longrightarrow> s \<le> SLICE_SLOTS \<Longrightarrow>
     lookup_from W sl key s = Some (t, r) \<longleftrightarrow> t < SLICE_SLOTS \<and> slice_at sl t = r \<and> keys_at W sl t = Some key"
proof (induction W sl key s rule: lookup_from.induct)
  case (1 W sl key s)
  have c: "canon (\<lambda>k. slot_of k (sl_bits sl)) SLICE_SLOTS (slice_keys (sl_bits sl) (sl_id sl)) (keys_at W sl)"
    using 1(2) by (simp add: slice_layout_def)
  show ?case
  proof (cases "s < SLICE_SLOTS")
    case False
    then have "s = SLICE_SLOTS" using 1(4) by simp
    then show ?thesis using slice_probe.absent_at_end [OF c 1(3)] by (simp add: lookup_from.simps)
  next
    case s: True
    show ?thesis
    proof (cases "rec_key W (slice_at sl s)")
      case None
      then show ?thesis using slice_probe.absent_at_gap [OF c 1(3) s] s
        by (simp add: lookup_from.simps keys_at_def) blast
    next
      case (Some k)
      then have kf: "keys_at W sl s = Some k" by (simp add: keys_at_def)
      consider "k = key" | "key < k" | "k < key" by force
      then show ?thesis
      proof cases
        case 1
        then have "lookup_from W sl key s = Some (s, slice_at sl s)"
          by (simp add: lookup_from.simps [of W sl key s] Some s)
        moreover have "t < SLICE_SLOTS \<Longrightarrow> keys_at W sl t = Some key \<Longrightarrow> s = t"
          using canon_inj [OF c s _ kf] 1 by blast
        ultimately show ?thesis using 1 kf s by fastforce
      next
        case 2
        then have "lookup_from W sl key s = None"
          by (simp add: lookup_from.simps [of W sl key s] Some s)
        then show ?thesis using slice_probe.absent_at_larger [OF c 1(3) s kf 2] by auto
      next
        case 3
        then have "\<not> key < k" "k \<noteq> key" by auto
        then have "lookup_from W sl key s = lookup_from W sl key (Suc s)"
          by (simp add: lookup_from.simps [of W sl key s] Some s)
        moreover have "walked_to W sl key (Suc s)"
          by (rule slice_probe.walked_step [OF 1(3) kf 3])
        ultimately show ?thesis using 1(1) [OF s Some] 3 s 1(2) by simp
      qed
    qed
  qed
qed

lemma walked_to_start:
  assumes "sl_bits sl \<le> 32" "length key = 32" "slice_of key (sl_bits sl) = sl_id sl"
  shows "walked_to W sl key (slice_ideal sl key)"
  unfolding slice_ideal_def using assms
  by (intro slice_probe.walked_start) (simp add: slice_keys_def)

lemma slice_lookup_spec:
  assumes "slice_layout W sl" "sl_bits sl \<le> 32" "length key = 32" "slice_of key (sl_bits sl) = sl_id sl"
  shows "slice_lookup W sl key = Some (t, r) \<longleftrightarrow> t < SLICE_SLOTS \<and> slice_at sl t = r \<and> keys_at W sl t = Some key"
  unfolding slice_lookup_def
  using lookup_from_spec [OF assms(1) walked_to_start [OF assms(2-4)]] slot_of_less [OF assms(3)]
  by (simp add: slice_ideal_def less_imp_le)

section \<open>Insert\<close>

lemma find_upt:
  "find P [a..<n] = Some g \<longleftrightarrow> a \<le> g \<and> g < n \<and> P g \<and> (\<forall>u. a \<le> u \<longrightarrow> u < g \<longrightarrow> \<not> P u)"
proof (induction "n - a" arbitrary: a)
  case (Suc m)
  then have u: "[a..<n] = a # [Suc a..<n]" by (simp add: upt_rec)
  show ?case
  proof (cases "P a")
    case True
    then show ?thesis using Suc.hyps(2) unfolding u by (auto simp: not_less_eq_eq le_less)
  next
    case False
    then have "find P [a..<n] = Some g \<longleftrightarrow> Suc a \<le> g \<and> g < n \<and> P g \<and> (\<forall>u. Suc a \<le> u \<longrightarrow> u < g \<longrightarrow> \<not> P u)"
      using Suc.hyps(1) [of "Suc a"] Suc.hyps(2) unfolding u by simp
    then show ?thesis using False by (metis Suc_leI Suc_leD le_neq_implies_less)
  qed
qed simp

lemma next_gap_Some:
  "next_gap sl s = Some g \<longleftrightarrow> s \<le> g \<and> g < SLICE_SLOTS \<and> keys_at W sl g = None \<and>
     (\<forall>u. s \<le> u \<longrightarrow> u < g \<longrightarrow> keys_at W sl u \<noteq> None)"
  by (simp add: next_gap_def find_upt keys_at_def rec_key_None)

lemma next_gap_None:
  "next_gap sl s = None \<longleftrightarrow> (\<forall>u. s \<le> u \<longrightarrow> u < SLICE_SLOTS \<longrightarrow> keys_at W sl u \<noteq> None)"
  by (auto simp: next_gap_def find_None_iff keys_at_def rec_key_None)

text \<open>Where the walk of \<open>insert\<close> ends, and with what.\<close>

datatype walk_end = WalkFull | WalkSame nat | WalkGap nat | WalkLarger nat nat

fun walk_ends :: "ext \<Rightarrow> slice \<Rightarrow> bytes \<Rightarrow> walk_end \<Rightarrow> bool" where
  "walk_ends W sl key WalkFull \<longleftrightarrow>
     (\<exists>s \<le> SLICE_SLOTS. walked_to W sl key s \<and> (\<forall>u. s \<le> u \<longrightarrow> u < SLICE_SLOTS \<longrightarrow> keys_at W sl u \<noteq> None) \<and>
        (s < SLICE_SLOTS \<longrightarrow> (\<exists>b. keys_at W sl s = Some b \<and> key < b)))"
| "walk_ends W sl key (WalkSame t) \<longleftrightarrow> t < SLICE_SLOTS \<and> keys_at W sl t = Some key"
| "walk_ends W sl key (WalkGap t) \<longleftrightarrow> t < SLICE_SLOTS \<and> walked_to W sl key t \<and> keys_at W sl t = None"
| "walk_ends W sl key (WalkLarger t g) \<longleftrightarrow>
     walked_to W sl key t \<and> (\<exists>b. keys_at W sl t = Some b \<and> key < b) \<and> t < g \<and> g < SLICE_SLOTS \<and>
     keys_at W sl g = None \<and> (\<forall>u. t \<le> u \<longrightarrow> u < g \<longrightarrow> keys_at W sl u \<noteq> None)"

fun insert_at_end :: "slice \<Rightarrow> bytes \<Rightarrow> walk_end \<Rightarrow> slice_error + slice \<times> nat" where
  "insert_at_end sl r WalkFull = Inl Full"
| "insert_at_end sl r (WalkSame t) =
     (if sint (rec_epoch r) \<le> sint (rec_epoch (slice_at sl t))
      then Inl (StaleEpoch (rec_epoch (slice_at sl t)) (rec_epoch r)) else Inr (slice_put sl t r, t))"
| "insert_at_end sl r (WalkGap t) = Inr ((slice_put sl t r)\<lparr>sl_fill := sl_fill sl + 1\<rparr>, t)"
| "insert_at_end sl r (WalkLarger t g) =
     Inr ((slice_put (shift_right sl t g) t r)\<lparr>sl_fill := sl_fill sl + 1\<rparr>, t)"

lemma insert_from_walk:
  "walked_to W sl key s \<Longrightarrow> s \<le> SLICE_SLOTS \<Longrightarrow>
     \<exists>e. walk_ends W sl key e \<and> insert_from W sl r key s = insert_at_end sl r e"
proof (induction W sl r key s rule: insert_from.induct)
  case (1 W sl r key s)
  show ?case
  proof (cases "s < SLICE_SLOTS")
    case False
    then have "s = SLICE_SLOTS" using 1(3) by simp
    then have "walk_ends W sl key WalkFull"
      unfolding walk_ends.simps by (intro exI [of _ s]) (use 1(2) in simp)
    then show ?thesis using False
      by (intro exI [of _ WalkFull]) (simp add: insert_from.simps [of W sl r key s])
  next
    case s: True
    show ?thesis
    proof (cases "rec_key W (slice_at sl s)")
      case None
      then have "keys_at W sl s = None" by (simp add: keys_at_def)
      then show ?thesis using 1(2) s None
        by (intro exI [of _ "WalkGap s"]) (simp add: insert_from.simps [of W sl r key s])
    next
      case (Some k)
      then have kf: "keys_at W sl s = Some k" by (simp add: keys_at_def)
      consider "k = key" | "k < key" | "key < k" by force
      then show ?thesis
      proof cases
        case 1
        then show ?thesis using kf s Some
          by (intro exI [of _ "WalkSame s"]) (simp add: insert_from.simps [of W sl r key s])
      next
        case 2
        then have "insert_from W sl r key s = insert_from W sl r key (Suc s)"
          by (simp add: insert_from.simps [of W sl r key s] Some s less_imp_neq)
        moreover have "walked_to W sl key (Suc s)"
          by (rule slice_probe.walked_step [OF 1(2) kf 2])
        ultimately show ?thesis using 1(1) [OF s Some _ 2] 2 s by simp
      next
        case 3
        show ?thesis
        proof (cases "next_gap sl s")
          case None
          have "walk_ends W sl key WalkFull"
            unfolding walk_ends.simps using None 3 kf next_gap_None [of sl s W]
            by (intro exI [of _ s]) (simp add: 1(2,3))
          then show ?thesis using 3 s Some None
            by (intro exI [of _ WalkFull]) (auto simp: insert_from.simps [of W sl r key s])
        next
          case (Some g)
          then have g: "s \<le> g" "g < SLICE_SLOTS" "keys_at W sl g = None"
            "\<forall>u. s \<le> u \<longrightarrow> u < g \<longrightarrow> keys_at W sl u \<noteq> None"
            by (simp_all add: next_gap_Some [of sl s g W])
          then have "s < g" using kf by (cases "s = g") auto
          then show ?thesis using g 3 1(2) s Some kf
            by (intro exI [of _ "WalkLarger s g"])
              (auto simp: insert_from.simps [of W sl r key s] \<open>rec_key W (slice_at sl s) = Some k\<close>)
        qed
      qed
    qed
  qed
qed

end
