(* ===== verification/Slice_Write.thy ===== *)
theory Slice_Write
  imports Slice
begin

text \<open>
  The writes of \<open>Slice\<close>: what insert and remove do to the layout and to the map from keys to records,
  by the array lemmas of \<open>Probe\<close> on the slice's slot function.
\<close>

section \<open>Slot functions after an update\<close>

lemma keys_at_fill [simp]: "keys_at W (sl\<lparr>sl_fill := n\<rparr>) = keys_at W sl"
  by (simp add: keys_at_def [abs_def])

lemma keys_at_put:
  assumes "buf_ok sl" "rec_ok r" "s < SLICE_SLOTS"
  shows "keys_at W (slice_put sl s r) = (keys_at W sl)(s := rec_key W r)"
  by (rule ext) (simp add: keys_at_def slice_at_put [OF assms])

lemma rec_key_empty [simp]: "rec_key W empty_record = None"
  by (simp add: rec_key_None rec_is_empty_def rec_kind_def empty_record_def record_kind_from_byte_def STRIDE_def)

lemma ex_put:
  fixes t N :: nat
  assumes "t < N" "y \<noteq> f t"
  shows "(\<exists>u < N. (if u = t then r else f u) = y) \<longleftrightarrow> y = r \<or> (\<exists>u < N. f u = y)"
  using assms by metis

lemma ex_shifted:
  assumes "s < g" "g < N"
  shows "(\<exists>t < N. slice_probe.shifted f s g x t = y) \<longleftrightarrow> y = x \<or> (\<exists>t < N. t \<noteq> g \<and> f t = y)"
  (is "?L \<longleftrightarrow> ?R")
proof
  assume ?L
  then obtain t where t: "t < N" "slice_probe.shifted f s g x t = y" by blast
  consider "t = s" | "s < t" "t \<le> g" | "t < s \<or> g < t" by linarith
  then show ?R
  proof cases
    case 2
    then show ?thesis using t by (intro disjI2 exI [of _ "t - 1"]) (auto simp: slice_probe.shifted_def)
  qed (use t assms in \<open>auto simp: slice_probe.shifted_def intro!: exI [of _ t]\<close>)
next
  assume ?R
  then show ?L
  proof
    assume "y = x"
    then show ?L using assms by (intro exI [of _ s]) (simp add: slice_probe.shifted_def)
  next
    assume "\<exists>t < N. t \<noteq> g \<and> f t = y"
    then obtain t where t: "t < N" "t \<noteq> g" "f t = y" by blast
    show ?L
    proof (cases "s \<le> t \<and> t < g")
      case True
      then show ?L using t assms by (intro exI [of _ "Suc t"]) (auto simp: slice_probe.shifted_def)
    next
      case False
      then show ?L using t assms by (intro exI [of _ t]) (auto simp: slice_probe.shifted_def)
    qed
  qed
qed

lemma ex_pulled:
  assumes "s \<le> e" "e < N"
  shows "(\<exists>t < N. slice_probe.pulled f s e x t = y) \<longleftrightarrow> y = x \<or> (\<exists>t < N. t \<noteq> s \<and> f t = y)"
  (is "?L \<longleftrightarrow> ?R")
proof
  assume ?L
  then obtain t where t: "t < N" "slice_probe.pulled f s e x t = y" by blast
  consider "t = e" | "s \<le> t" "t < e" | "t < s \<or> e < t" by linarith
  then show ?R
  proof cases
    case 2
    then show ?thesis using t assms by (intro disjI2 exI [of _ "Suc t"]) (auto simp: slice_probe.pulled_def)
  qed (use t assms in \<open>auto simp: slice_probe.pulled_def intro!: exI [of _ t]\<close>)
next
  assume ?R
  then show ?L
  proof
    assume "y = x"
    then show ?L using assms by (intro exI [of _ e]) (simp add: slice_probe.pulled_def)
  next
    assume "\<exists>t < N. t \<noteq> s \<and> f t = y"
    then obtain t where t: "t < N" "t \<noteq> s" "f t = y" by blast
    show ?L
    proof (cases "s < t \<and> t \<le> e")
      case True
      then show ?L using t assms by (intro exI [of _ "t - 1"]) (auto simp: slice_probe.pulled_def)
    next
      case False
      then show ?L using t assms by (intro exI [of _ t]) (auto simp: slice_probe.pulled_def)
    qed
  qed
qed

lemma slice_at_shift_put:
  assumes "buf_ok sl" "rec_ok r" "s < g" "g < SLICE_SLOTS"
  shows "slice_at (slice_put (shift_right sl s g) s r) = slice_probe.shifted (slice_at sl) s g r"
    and "buf_ok (slice_put (shift_right sl s g) s r)"
    and "sl_bits (slice_put (shift_right sl s g) s r) = sl_bits sl"
    and "sl_id (slice_put (shift_right sl s g) s r) = sl_id sl"
proof -
  have sh: "buf_ok (shift_right sl s g)" "sl_bits (shift_right sl s g) = sl_bits sl"
    "sl_id (shift_right sl s g) = sl_id sl"
    "\<And>t. slice_at (shift_right sl s g) t = (if s < t \<and> t \<le> g then slice_at sl (t - 1) else slice_at sl t)"
    using shift_right_at [of sl g s] assms by simp_all
  show "slice_at (slice_put (shift_right sl s g) s r) = slice_probe.shifted (slice_at sl) s g r"
    using assms by (intro ext) (simp add: slice_at_put sh slice_probe.shifted_def)
  show "buf_ok (slice_put (shift_right sl s g) s r)"
    "sl_bits (slice_put (shift_right sl s g) s r) = sl_bits sl"
    "sl_id (slice_put (shift_right sl s g) s r) = sl_id sl"
    using assms sh(1-3) by simp_all
qed

lemma keys_at_image:
  "slice_at sl' = slice_probe.shifted (slice_at sl) s g r \<Longrightarrow>
     keys_at W sl' = slice_probe.shifted (keys_at W sl) s g (rec_key W r)"
  "slice_at sl'' = slice_probe.pulled (slice_at sl) s e r \<Longrightarrow>
     keys_at W sl'' = slice_probe.pulled (keys_at W sl) s e (rec_key W r)"
  by (rule ext, simp add: keys_at_def slice_probe.shifted_def)
    (rule ext, simp add: keys_at_def slice_probe.pulled_def)

lemma occupied_shift:
  assumes "keys_at W sl' = slice_probe.shifted (keys_at W sl) s g (Some k)" "s < g" "g < SLICE_SLOTS"
    and "\<forall>u. s \<le> u \<longrightarrow> u < g \<longrightarrow> keys_at W sl u \<noteq> None" "keys_at W sl g = None"
  shows "card (occupied W sl') = card (occupied W sl) + 1"
proof -
  have "keys_at W sl' t \<noteq> None \<longleftrightarrow> t = g \<or> keys_at W sl t \<noteq> None" for t
  proof -
    consider "t = s" | "s < t" "t \<le> g" | "t < s \<or> g < t" by linarith
    then show ?thesis
    proof cases
      case 2
      then have "s \<le> t - 1" "t - 1 < g" by auto
      then have "keys_at W sl (t - 1) \<noteq> None" using assms(4) by blast
      moreover have "t = g \<or> keys_at W sl t \<noteq> None" using 2 assms(4) by (auto simp: le_less)
      ultimately have "keys_at W sl (t - 1) \<noteq> None" "t = g \<or> keys_at W sl t \<noteq> None" by auto
      then show ?thesis using 2 by (simp add: assms(1) slice_probe.shifted_def)
    qed (use assms in \<open>auto simp: slice_probe.shifted_def\<close>)
  qed
  then have "occupied W sl' = insert g (occupied W sl)" using assms(3) by (auto simp: occupied_def)
  moreover have "g \<notin> occupied W sl" using assms(5) by (simp add: occupied_def)
  ultimately show ?thesis by simp
qed

lemma slice_layoutI:
  "buf_ok sl \<Longrightarrow> canon (\<lambda>k. slot_of k (sl_bits sl)) SLICE_SLOTS (slice_keys (sl_bits sl) (sl_id sl)) (keys_at W sl) \<Longrightarrow>
     slice_layout W sl"
  by (simp add: slice_layout_def)

lemma slice_layoutD:
  "slice_layout W sl \<Longrightarrow> buf_ok sl"
  "slice_layout W sl \<Longrightarrow>
     canon (\<lambda>k. slot_of k (sl_bits sl)) SLICE_SLOTS (slice_keys (sl_bits sl) (sl_id sl)) (keys_at W sl)"
  by (simp_all add: slice_layout_def)

lemma slice_holds_alt: "slice_holds W sl k r \<longleftrightarrow> rec_key W r = Some k \<and> (\<exists>t < SLICE_SLOTS. slice_at sl t = r)"
  by (auto simp: slice_holds_def)

lemma keys_at_holds:
  "t < SLICE_SLOTS \<Longrightarrow> keys_at W sl t = Some k \<Longrightarrow> slice_holds W sl k (slice_at sl t)"
  by (auto simp: slice_holds_def keys_at_def)

lemma slice_holds_unique:
  assumes "slice_layout W sl" "slice_holds W sl k r" "slice_holds W sl k r'"
  shows "r = r'"
  using assms(2,3) canon_inj [OF slice_layoutD(2) [OF assms(1)]] by (auto simp: slice_holds_def keys_at_def)

section \<open>What an insert does\<close>

definition insert_done :: "ext \<Rightarrow> slice \<Rightarrow> bytes \<Rightarrow> bytes \<Rightarrow> slice \<Rightarrow> nat \<Rightarrow> bool" where
  "insert_done W sl key r sl' s \<longleftrightarrow>
     wf_slice W sl' \<and> sl_bits sl' = sl_bits sl \<and> sl_id sl' = sl_id sl \<and> s < SLICE_SLOTS \<and> slice_at sl' s = r \<and>
     (\<forall>k x. slice_holds W sl' k x \<longleftrightarrow> (if k = key then x = r else slice_holds W sl k x)) \<and>
     sl_fill sl' = sl_fill sl + (if \<exists>x. slice_holds W sl key x then 0 else 1)"

lemma insert_same:
  assumes wf: "wf_slice W sl" and r: "rec_ok r" "rec_key W r = Some key" and e: "walk_ends W sl key (WalkSame t)"
  shows "insert_done W sl key r (slice_put sl t r) t"
proof -
  have l: "slice_layout W sl" using wf by (simp add: wf_slice_def)
  note b = slice_layoutD(1) [OF l] and c = slice_layoutD(2) [OF l]
  have t: "t < SLICE_SLOTS" "keys_at W sl t = Some key" using e by simp_all
  let ?sl = "slice_put sl t r"
  have k: "keys_at W ?sl = keys_at W sl"
    unfolding keys_at_put [OF b r(1) t(1)] r(2) using t(2) by (simp add: fun_upd_idem)
  note at = slice_at_put [OF b r(1) t(1)]
  have "wf_slice W ?sl"
    using wf unfolding wf_slice_def slice_layout_def occupied_def by (simp add: k r(1) t(1) at) (use t(2) in auto)
  moreover have "slice_holds W ?sl k' x \<longleftrightarrow> (if k' = key then x = r else slice_holds W sl k' x)" for k' x
  proof (cases "k' = key")
    case True
    have "x = r" if h: "slice_holds W ?sl key x"
    proof -
      obtain u where u: "u < SLICE_SLOTS" "slice_at ?sl u = x" "rec_key W x = Some key"
        using h by (auto simp: slice_holds_def)
      then have "keys_at W ?sl u = Some key" by (auto simp: keys_at_def)
      then have "u = t" using canon_inj [OF c u(1) t(1)] t(2) k by auto
      then show "x = r" using u(2) at by simp
    qed
    moreover have "slice_holds W ?sl key r" using t(1) r(2) at by (auto simp: slice_holds_def)
    ultimately show ?thesis using True by auto
  next
    case False
    have "(\<exists>u < SLICE_SLOTS. slice_at ?sl u = x) \<longleftrightarrow> (\<exists>u < SLICE_SLOTS. slice_at sl u = x)" if "rec_key W x = Some k'"
    proof -
      have ne: "x \<noteq> r" "x \<noteq> slice_at sl t" using that r(2) t(2) False by (auto simp: keys_at_def)
      show ?thesis unfolding at ex_put [where f = "slice_at sl", OF t(1) ne(2)] using ne(1) by simp
    qed
    then show ?thesis using False by (auto simp: slice_holds_alt)
  qed
  moreover have "slice_holds W sl key (slice_at sl t)" by (rule keys_at_holds [OF t])
  ultimately show ?thesis using t at by (auto simp: insert_done_def)
qed

lemma insert_gap:
  assumes wf: "wf_slice W sl" and r: "rec_ok r" "rec_key W r = Some key" and e: "walk_ends W sl key (WalkGap t)"
  shows "insert_done W sl key r ((slice_put sl t r)\<lparr>sl_fill := sl_fill sl + 1\<rparr>) t"
proof -
  have l: "slice_layout W sl" using wf by (simp add: wf_slice_def)
  note b = slice_layoutD(1) [OF l] and c = slice_layoutD(2) [OF l]
  have t: "t < SLICE_SLOTS" "walked_to W sl key t" "keys_at W sl t = None" using e by simp_all
  let ?sl = "(slice_put sl t r)\<lparr>sl_fill := sl_fill sl + 1\<rparr>"
  have k: "keys_at W ?sl = (keys_at W sl)(t := Some key)" using keys_at_put [OF b r(1) t(1), of W] r(2) by simp
  have at: "slice_at ?sl u = (if u = t then r else slice_at sl u)" for u using slice_at_put [OF b r(1) t(1)] by simp
  have absent: "keys_at W sl u \<noteq> Some key" if "u < SLICE_SLOTS" for u
    by (rule slice_probe.absent_at_gap [OF c t(2,1,3) that])
  have occ: "occupied W ?sl = insert t (occupied W sl)" using t(1) by (auto simp: occupied_def k [simplified])
  have "t \<notin> occupied W sl" using t(3) by (simp add: occupied_def)
  then have "card (occupied W ?sl) = card (occupied W sl) + 1" unfolding occ by simp
  moreover have "canon (\<lambda>k. slot_of k (sl_bits sl)) SLICE_SLOTS (slice_keys (sl_bits sl) (sl_id sl)) (keys_at W ?sl)"
    unfolding k by (rule slice_probe.canon_fill_gap [OF c t(2,1,3)])
  ultimately have "wf_slice W ?sl"
    using wf b r(1) t(1) by (auto simp: wf_slice_def slice_layout_def k [simplified] at [simplified])
  moreover have "slice_holds W ?sl k' x \<longleftrightarrow> (if k' = key then x = r else slice_holds W sl k' x)" for k' x
  proof -
    have "(\<exists>u < SLICE_SLOTS. slice_at ?sl u = x) \<longleftrightarrow> x = r \<or> (\<exists>u < SLICE_SLOTS. slice_at sl u = x)"
      if "rec_key W x = Some k'"
    proof -
      have "x \<noteq> slice_at sl t" using that t(3) by (auto simp: keys_at_def)
      then show ?thesis unfolding at by (rule ex_put [OF t(1)])
    qed
    moreover have "\<not> (\<exists>u < SLICE_SLOTS. slice_at sl u = x)" if "rec_key W x = Some key"
      using absent that by (auto simp: keys_at_def)
    ultimately show ?thesis using r(2) by (auto simp: slice_holds_alt)
  qed
  moreover have "\<not> (\<exists>x. slice_holds W sl key x)" using absent by (auto simp: slice_holds_def keys_at_def)
  ultimately show ?thesis using t(1) at by (simp add: insert_done_def)
qed

lemma insert_larger:
  assumes wf: "wf_slice W sl" and r: "rec_ok r" "rec_key W r = Some key" and e: "walk_ends W sl key (WalkLarger t g)"
  shows "insert_done W sl key r ((slice_put (shift_right sl t g) t r)\<lparr>sl_fill := sl_fill sl + 1\<rparr>) t"
proof -
  have l: "slice_layout W sl" using wf by (simp add: wf_slice_def)
  note c = slice_layoutD(2) [OF l]
  obtain d where t: "walked_to W sl key t" "keys_at W sl t = Some d" "key < d" "t < g" "g < SLICE_SLOTS"
    "keys_at W sl g = None" and run: "\<forall>u. t \<le> u \<longrightarrow> u < g \<longrightarrow> keys_at W sl u \<noteq> None"
    using e by auto
  let ?sl = "(slice_put (shift_right sl t g) t r)\<lparr>sl_fill := sl_fill sl + 1\<rparr>"
  note sh = slice_at_shift_put [OF slice_layoutD(1) [OF l] r(1) t(4,5)]
  have at: "slice_at ?sl = slice_probe.shifted (slice_at sl) t g r" by (simp add: sh(1))
  have k: "keys_at W ?sl = slice_probe.shifted (keys_at W sl) t g (Some key)"
    using keys_at_image(1) [OF at, of W] r(2) by simp
  have absent: "keys_at W sl u \<noteq> Some key" if "u < SLICE_SLOTS" for u
    by (rule slice_probe.absent_at_larger [OF c t(1) _ t(2,3) that]) (use t(4,5) in simp)
  have "card (occupied W ?sl) = card (occupied W sl) + 1"
    by (rule occupied_shift [OF k t(4,5) run t(6)])
  moreover have "canon (\<lambda>k. slot_of k (sl_bits sl)) SLICE_SLOTS (slice_keys (sl_bits sl) (sl_id sl)) (keys_at W ?sl)"
    unfolding k by (rule slice_probe.canon_shift [OF c t(1-6) run])
  moreover have "slice_at ?sl u = empty_record" if u: "u < SLICE_SLOTS" "keys_at W ?sl u = None" for u
  proof -
    have "u \<noteq> t" using u(2) unfolding k by (auto simp: slice_probe.shifted_def)
    moreover have "\<not> (t < u \<and> u \<le> g)"
    proof
      assume "t < u \<and> u \<le> g"
      then have "t \<le> u - 1" "u - 1 < g" "t < u" "u \<le> g" by auto
      then show False using run u(2) unfolding k by (auto simp: slice_probe.shifted_def)
    qed
    ultimately have "keys_at W sl u = None" "slice_at ?sl u = slice_at sl u"
      using u(2) unfolding k at by (auto simp: slice_probe.shifted_def split: if_splits)
    then show ?thesis using wf u(1) by (simp add: wf_slice_def)
  qed
  ultimately have "wf_slice W ?sl"
    using wf sh by (auto simp: wf_slice_def slice_layout_def)
  moreover have "slice_holds W ?sl k' x \<longleftrightarrow> (if k' = key then x = r else slice_holds W sl k' x)" for k' x
  proof -
    have "(\<exists>u < SLICE_SLOTS. slice_at ?sl u = x) \<longleftrightarrow> x = r \<or> (\<exists>u < SLICE_SLOTS. slice_at sl u = x)"
      if "rec_key W x = Some k'"
    proof -
      have "x \<noteq> slice_at sl g" using that t(6) by (auto simp: keys_at_def)
      then show ?thesis unfolding at ex_shifted [OF t(4,5)] by auto
    qed
    moreover have "\<not> (\<exists>u < SLICE_SLOTS. slice_at sl u = x)" if "rec_key W x = Some key"
      using absent that by (auto simp: keys_at_def)
    ultimately show ?thesis using r(2) by (auto simp: slice_holds_alt)
  qed
  moreover have "\<not> (\<exists>x. slice_holds W sl key x)" using absent by (auto simp: slice_holds_def keys_at_def)
  ultimately show ?thesis using t(4,5) at sh(3,4) by (simp add: insert_done_def slice_probe.shifted_def)
qed

lemma insert_at_end_done:
  assumes "wf_slice W sl" "rec_ok r" "rec_key W r = Some key" "walk_ends W sl key e" "insert_at_end sl r e = Inr (sl', s)"
  shows "insert_done W sl key r sl' s"
proof (cases e)
  case WalkFull
  then show ?thesis using assms(5) by simp
next
  case (WalkSame t)
  then show ?thesis using assms(5) insert_same [OF assms(1-3), of t] assms(4) by (auto split: if_splits)
next
  case (WalkGap t)
  then show ?thesis using assms(5) insert_gap [OF assms(1-3), of t] assms(4) by auto
next
  case (WalkLarger t g)
  then show ?thesis using assms(5) insert_larger [OF assms(1-3), of t g] assms(4) by auto
qed

lemma slice_insert_walk:
  assumes "sl_bits sl \<le> 32" "ext_ok W" "rec_key W r = Some key" "slice_of key (sl_bits sl) = sl_id sl"
  obtains e where "walk_ends W sl key e" "slice_insert W sl r = insert_at_end sl r e"
proof -
  have len: "length key = 32" using rec_key_length [OF assms(2,3)] .
  then have "walked_to W sl key (slice_ideal sl key)" using walked_to_start assms(1,4) by blast
  moreover have "slice_ideal sl key \<le> SLICE_SLOTS" using slot_of_less [OF len] by (simp add: slice_ideal_def less_imp_le)
  ultimately obtain e where "walk_ends W sl key e" "insert_from W sl r key (slice_ideal sl key) = insert_at_end sl r e"
    using insert_from_walk [where r = r] by blast
  then show thesis using that assms(3,4) by (simp add: slice_insert_def)
qed

lemma slice_insert_done:
  assumes "wf_slice W sl" "sl_bits sl \<le> 32" "ext_ok W" "rec_ok r" "rec_key W r = Some key"
    and "slice_insert W sl r = Inr (sl', s)"
  shows "insert_done W sl key r sl' s"
proof -
  have "slice_of key (sl_bits sl) = sl_id sl" using assms(5,6) by (simp add: slice_insert_def split: if_splits)
  then obtain e where "walk_ends W sl key e" "slice_insert W sl r = insert_at_end sl r e"
    using slice_insert_walk [OF assms(2,3,5)] by blast
  then show ?thesis using insert_at_end_done [OF assms(1,4,5)] assms(6) by simp
qed

text \<open>The refusals, each with its reason.\<close>

lemma slice_insert_refused:
  assumes "wf_slice W sl" "sl_bits sl \<le> 32" "ext_ok W" "rec_key W r = Some key" "slice_of key (sl_bits sl) = sl_id sl"
    and "slice_insert W sl r = Inl e"
  shows "(\<exists>x. slice_holds W sl key x \<and> e = StaleEpoch (rec_epoch x) (rec_epoch r) \<and> sint (rec_epoch r) \<le> sint (rec_epoch x)) \<or>
    e = Full \<and> (\<nexists>x. slice_holds W sl key x)"
proof -
  have l: "slice_layout W sl" using assms(1) by (simp add: wf_slice_def)
  note c = slice_layoutD(2) [OF l]
  obtain w where w: "walk_ends W sl key w" "slice_insert W sl r = insert_at_end sl r w"
    using slice_insert_walk [OF assms(2-5)] .
  show ?thesis
  proof (cases w)
    case WalkFull
    then obtain s where s: "s \<le> SLICE_SLOTS" "walked_to W sl key s"
      "s < SLICE_SLOTS \<longrightarrow> (\<exists>b. keys_at W sl s = Some b \<and> key < b)" using w(1) by auto
    have "keys_at W sl t \<noteq> Some key" if t: "t < SLICE_SLOTS" for t
    proof (cases "s < SLICE_SLOTS")
      case True
      then show ?thesis using s(3) slice_probe.absent_at_larger [OF c s(2) True _ _ t] by blast
    next
      case False
      then show ?thesis using s(1) slice_probe.absent_at_end [OF c s(2) _ t] by simp
    qed
    then show ?thesis using WalkFull w(2) assms(6) by (auto simp: slice_holds_def keys_at_def)
  next
    case (WalkSame t)
    then have "slice_holds W sl key (slice_at sl t)" using w(1) keys_at_holds by simp
    then show ?thesis using WalkSame w(2) assms(6) by (auto split: if_splits)
  qed (use w assms(6) in auto)
qed

section \<open>What a remove does\<close>

lemma pull_left_spec:
  "buf_ok sl \<Longrightarrow> free < SLICE_SLOTS \<Longrightarrow> j = Suc free \<Longrightarrow> pull_left W sl free j = (sl', e) \<Longrightarrow>
     buf_ok sl' \<and> sl_bits sl' = sl_bits sl \<and> sl_id sl' = sl_id sl \<and> sl_fill sl' = sl_fill sl \<and>
     free \<le> e \<and> e < SLICE_SLOTS \<and>
     (\<forall>t. t \<noteq> e \<longrightarrow> slice_at sl' t = slice_probe.pulled (slice_at sl) free e [] t) \<and>
     (\<forall>t. free < t \<longrightarrow> t \<le> e \<longrightarrow> (\<exists>k. keys_at W sl t = Some k \<and> slot_of k (sl_bits sl) < t)) \<and>
     (\<forall>k. Suc e < SLICE_SLOTS \<longrightarrow> keys_at W sl (Suc e) = Some k \<longrightarrow> e < slot_of k (sl_bits sl))"
proof (induction W sl free j rule: pull_left.induct)
  case (1 W sl free j)
  note stop = pull_left.simps [of W sl free j]
  show ?case
  proof (cases "j < SLICE_SLOTS")
    case False
    then show ?thesis using 1(2-5) stop by (auto simp: slice_probe.pulled_def)
  next
    case j: True
    show ?thesis
    proof (cases "rec_key W (slice_at sl j)")
      case None
      then show ?thesis using 1(2-5) stop j by (auto simp: slice_probe.pulled_def keys_at_def)
    next
      case (Some k)
      show ?thesis
      proof (cases "free < slice_ideal sl k")
        case True
        then show ?thesis using 1(2-5) stop j Some by (auto simp: slice_probe.pulled_def keys_at_def slice_ideal_def)
      next
        case False
        let ?sl = "slice_put sl free (slice_at sl j)"
        have at: "slice_at ?sl t = (if t = free then slice_at sl j else slice_at sl t)" for t
          using slice_at_put [OF 1(2) rec_ok_at [OF 1(2) j] 1(3)] .
        then have ka: "keys_at W ?sl t = keys_at W sl t" if "free < t" for t using that by (simp add: keys_at_def)
        have "pull_left W ?sl j (Suc j) = (sl', e)" using 1(5) stop j Some False by simp
        from 1(1) [OF j Some False _ j refl this]
        have ih: "buf_ok sl'" "sl_bits sl' = sl_bits sl" "sl_id sl' = sl_id sl" "sl_fill sl' = sl_fill sl"
          "j \<le> e" "e < SLICE_SLOTS"
          "\<And>t. t \<noteq> e \<Longrightarrow> slice_at sl' t = slice_probe.pulled (slice_at ?sl) j e [] t"
          "\<And>t. j < t \<Longrightarrow> t \<le> e \<Longrightarrow> \<exists>k. keys_at W sl t = Some k \<and> slot_of k (sl_bits sl) < t"
          "\<And>k. Suc e < SLICE_SLOTS \<Longrightarrow> keys_at W sl (Suc e) = Some k \<Longrightarrow> e < slot_of k (sl_bits sl)"
          using 1(2-4) j ka by auto
        have "slice_at sl' t = slice_probe.pulled (slice_at sl) free e [] t" if "t \<noteq> e" for t
          using ih(7) [OF that] that 1(4) ih(5) unfolding slice_probe.pulled_def at by auto
        moreover have "\<exists>k. keys_at W sl t = Some k \<and> slot_of k (sl_bits sl) < t" if "free < t" "t \<le> e" for t
          using ih(8) [of t] that 1(4) Some False by (cases "t = j") (auto simp: keys_at_def slice_ideal_def)
        ultimately show ?thesis using ih 1(4) by auto
      qed
    qed
  qed
qed

lemma slice_clear_eq: "slice_clear sl s = slice_put sl s empty_record"
  by (simp add: slice_clear_def)

definition remove_done :: "ext \<Rightarrow> slice \<Rightarrow> bytes \<Rightarrow> slice \<Rightarrow> bool" where
  "remove_done W sl key sl' \<longleftrightarrow>
     wf_slice W sl' \<and> sl_bits sl' = sl_bits sl \<and> sl_id sl' = sl_id sl \<and>
     (\<forall>k x. slice_holds W sl' k x \<longleftrightarrow> k \<noteq> key \<and> slice_holds W sl k x) \<and> Suc (sl_fill sl') = sl_fill sl"

lemma occupied_pull:
  assumes "keys_at W sl' = slice_probe.pulled (keys_at W sl) s e None" "s \<le> e" "e < SLICE_SLOTS"
    and "\<forall>t. s < t \<longrightarrow> t \<le> e \<longrightarrow> keys_at W sl t \<noteq> None" "keys_at W sl s \<noteq> None"
  shows "Suc (card (occupied W sl')) = card (occupied W sl)"
proof -
  have run: "keys_at W sl t \<noteq> None" if "s \<le> t" "t \<le> e" for t
    using that assms(4,5) by (cases "t = s") auto
  have "keys_at W sl' t \<noteq> None \<longleftrightarrow> t \<noteq> e \<and> keys_at W sl t \<noteq> None" for t
    using run [of t] run [of "Suc t"] unfolding assms(1) slice_probe.pulled_def by auto
  then have "occupied W sl' = occupied W sl - {e}" by (auto simp: occupied_def)
  moreover have "e \<in> occupied W sl" using run [of e] assms(2,3) by (simp add: occupied_def)
  ultimately show ?thesis by (metis card_Suc_Diff1 finite_occupied)
qed

text \<open>Clearing, pulling and clearing again takes the slot out of the slot function.\<close>

lemma slice_remove_pulled:
  assumes b: "buf_ok sl" and s: "s < SLICE_SLOTS"
    and p: "pull_left W ((slice_clear sl s)\<lparr>sl_fill := n\<rparr>) s (Suc s) = (sl2, e)"
  shows "slice_at (slice_clear sl2 e) = slice_probe.pulled (slice_at sl) s e empty_record"
    "buf_ok (slice_clear sl2 e)" "sl_bits sl2 = sl_bits sl" "sl_id sl2 = sl_id sl" "sl_fill sl2 = n"
    "s \<le> e" "e < SLICE_SLOTS"
    "\<forall>t. s < t \<longrightarrow> t \<le> e \<longrightarrow> (\<exists>k. keys_at W sl t = Some k \<and> slot_of k (sl_bits sl) < t)"
    "\<And>k. Suc e < SLICE_SLOTS \<Longrightarrow> keys_at W sl (Suc e) = Some k \<Longrightarrow> e < slot_of k (sl_bits sl)"
proof -
  let ?sl = "(slice_clear sl s)\<lparr>sl_fill := n\<rparr>"
  have at: "slice_at ?sl t = (if t = s then empty_record else slice_at sl t)" for t
    using slice_at_put [OF b rec_ok_empty s] by (simp add: slice_clear_eq)
  have ka: "keys_at W ?sl t = keys_at W sl t" if "s < t" for t using that unfolding keys_at_def at by simp
  have b1: "buf_ok ?sl" using b s by (simp add: slice_clear_eq)
  have spec: "buf_ok sl2" "sl_bits sl2 = sl_bits sl" "sl_id sl2 = sl_id sl" "sl_fill sl2 = n"
    "s \<le> e" "e < SLICE_SLOTS"
    "\<And>t. t \<noteq> e \<Longrightarrow> slice_at sl2 t = slice_probe.pulled (slice_at ?sl) s e [] t"
    "\<And>t. s < t \<Longrightarrow> t \<le> e \<Longrightarrow> \<exists>k. keys_at W sl t = Some k \<and> slot_of k (sl_bits sl) < t"
    "\<And>k. Suc e < SLICE_SLOTS \<Longrightarrow> keys_at W sl (Suc e) = Some k \<Longrightarrow> e < slot_of k (sl_bits sl)"
    using pull_left_spec [OF b1 s refl p] ka by (simp_all add: slice_clear_eq)
  show "slice_at (slice_clear sl2 e) = slice_probe.pulled (slice_at sl) s e empty_record"
  proof
    fix t
    have "slice_at (slice_clear sl2 e) t = (if t = e then empty_record else slice_at sl2 t)"
      unfolding slice_clear_eq by (rule slice_at_put [OF spec(1) rec_ok_empty spec(6)])
    then show "slice_at (slice_clear sl2 e) t = slice_probe.pulled (slice_at sl) s e empty_record t"
      using spec(5) spec(7) [of t] unfolding slice_probe.pulled_def at by auto
  qed
  show "buf_ok (slice_clear sl2 e)" using spec(1,6) by (simp add: slice_clear_eq)
  show "\<forall>t. s < t \<longrightarrow> t \<le> e \<longrightarrow> (\<exists>k. keys_at W sl t = Some k \<and> slot_of k (sl_bits sl) < t)"
    using spec(8) by blast
  show "sl_bits sl2 = sl_bits sl" "sl_id sl2 = sl_id sl" "sl_fill sl2 = n" "s \<le> e" "e < SLICE_SLOTS"
    by (fact spec)+
  show "\<And>k. Suc e < SLICE_SLOTS \<Longrightarrow> keys_at W sl (Suc e) = Some k \<Longrightarrow> e < slot_of k (sl_bits sl)"
    by (fact spec(9))
qed

lemma slice_remove_done:
  assumes wf: "wf_slice W sl" and key: "sl_bits sl \<le> 32" "length key = 32" "slice_of key (sl_bits sl) = sl_id sl"
    and rm: "slice_remove W sl key = (sl', True)"
  shows "remove_done W sl key sl' \<and> (\<exists>x. slice_holds W sl key x)"
proof -
  have l: "slice_layout W sl" using wf by (simp add: wf_slice_def)
  note b = slice_layoutD(1) [OF l] and c = slice_layoutD(2) [OF l]
  obtain s r where lk: "slice_lookup W sl key = Some (s, r)"
    using rm by (auto simp: slice_remove_def split: option.splits prod.splits)
  then have s: "s < SLICE_SLOTS" "slice_at sl s = r" "keys_at W sl s = Some key"
    using slice_lookup_spec [OF l key] by simp_all
  obtain sl2 e where p: "pull_left W ((slice_clear sl s)\<lparr>sl_fill := sl_fill sl - 1\<rparr>) s (Suc s) = (sl2, e)"
    by fastforce
  then have sl': "sl' = slice_clear sl2 e" using rm lk by (simp add: slice_remove_def)
  note q = slice_remove_pulled [OF b s(1) p, folded sl']
  have k: "keys_at W sl' = slice_probe.pulled (keys_at W sl) s e None"
    using keys_at_image(2) [OF q(1), of W] by simp
  have sel: "sl_bits sl' = sl_bits sl" "sl_id sl' = sl_id sl" "sl_fill sl' = sl_fill sl - 1"
    using q(3-5) by (simp_all add: sl' slice_clear_eq)
  have run: "\<forall>t. s < t \<longrightarrow> t \<le> e \<longrightarrow> keys_at W sl t \<noteq> None" using q(8) by auto
  have fill: "Suc (card (occupied W sl')) = card (occupied W sl)"
    by (rule occupied_pull [OF k q(6,7) run]) (simp add: s(3))
  have "canon (\<lambda>k. slot_of k (sl_bits sl)) SLICE_SLOTS (slice_keys (sl_bits sl) (sl_id sl)) (keys_at W sl')"
    unfolding k by (rule slice_probe.canon_pull [OF c q(6,7,8)]) (use s(3) q(9) in auto)
  moreover have "slice_at sl' u = empty_record" if u: "u < SLICE_SLOTS" "keys_at W sl' u = None" for u
  proof (cases "s \<le> u \<and> u < e")
    case True
    then show ?thesis using u run q(7) unfolding k by (auto simp: slice_probe.pulled_def)
  next
    case False
    then show ?thesis using u wf unfolding k q(1) by (auto simp: slice_probe.pulled_def wf_slice_def split: if_splits)
  qed
  ultimately have "wf_slice W sl'"
    using wf fill sel q(2) by (auto simp: wf_slice_def slice_layout_def)
  moreover have "slice_holds W sl' k' x \<longleftrightarrow> k' \<noteq> key \<and> slice_holds W sl k' x" for k' x
  proof -
    have "(\<exists>u < SLICE_SLOTS. slice_at sl' u = x) \<longleftrightarrow> x = empty_record \<or> (\<exists>u < SLICE_SLOTS. u \<noteq> s \<and> slice_at sl u = x)"
      unfolding q(1) by (rule ex_pulled [OF q(6,7)])
    moreover have "u = s \<longleftrightarrow> k' = key" if "u < SLICE_SLOTS" "slice_at sl u = x" "rec_key W x = Some k'" for u
      using that s canon_inj [OF c that(1) s(1)] by (auto simp: keys_at_def)
    ultimately show ?thesis unfolding slice_holds_alt by auto
  qed
  moreover have "sl_fill sl > 0" using wf fill by (simp add: wf_slice_def)
  ultimately show ?thesis using sel keys_at_holds [OF s(1,3)] by (auto simp: remove_done_def)
qed

lemma slice_remove_absent:
  assumes "wf_slice W sl" "sl_bits sl \<le> 32" "length key = 32" "slice_of key (sl_bits sl) = sl_id sl"
  shows "snd (slice_remove W sl key) \<longleftrightarrow> (\<exists>x. slice_holds W sl key x)"
proof -
  have l: "slice_layout W sl" using assms(1) by (simp add: wf_slice_def)
  have "snd (slice_remove W sl key) \<longleftrightarrow> (\<exists>t r. slice_lookup W sl key = Some (t, r))"
    by (auto simp: slice_remove_def Let_def split: option.splits prod.splits)
  also have "\<dots> \<longleftrightarrow> (\<exists>x. slice_holds W sl key x)"
    unfolding slice_lookup_spec [OF l assms(2-4)] by (auto simp: slice_holds_def keys_at_def)
  finally show ?thesis .
qed

end
