(* ===== verification/Slice_Laws.thy ===== *)
theory Slice_Laws
  imports Slice_Write Demo_World
begin

text \<open>
  What the slice promises to its users, on top of the single operations: remove undoes insert, the
  epoch of a key never goes back over any run of writes, and what \<open>check_invariants\<close> checks. The
  contract of a store guarded by epochs is the locale \<open>epoch_store\<close>; the slice is its instance.
\<close>

section \<open>A store guarded by epochs\<close>

locale epoch_store =
  fixes store :: "'s \<Rightarrow> 'r \<Rightarrow> 'e + 's"
    and held :: "'s \<Rightarrow> 'k \<Rightarrow> 'r \<Rightarrow> bool"
    and key_of :: "'r \<Rightarrow> 'k option"
    and epoch_of :: "'r \<Rightarrow> int"
    and inv :: "'s \<Rightarrow> bool"
    and valid :: "'r \<Rightarrow> bool"
  assumes store_inv: "inv s \<Longrightarrow> valid r \<Longrightarrow> store s r = Inr s' \<Longrightarrow> inv s'"
    and store_key: "store s r = Inr s' \<Longrightarrow> \<exists>k. key_of r = Some k"
    and store_held: "inv s \<Longrightarrow> valid r \<Longrightarrow> store s r = Inr s' \<Longrightarrow> key_of r = Some k \<Longrightarrow>
      held s' k' x \<longleftrightarrow> (if k' = k then x = r else held s k' x)"
    and store_newer: "inv s \<Longrightarrow> store s r = Inr s' \<Longrightarrow> key_of r = Some k \<Longrightarrow> held s k x \<Longrightarrow> epoch_of x < epoch_of r"
begin

text \<open>A refused write leaves the store as it was.\<close>

definition attempt :: "'s \<Rightarrow> 'r \<Rightarrow> 's" where
  "attempt s r = (case store s r of Inl _ \<Rightarrow> s | Inr s' \<Rightarrow> s')"

lemma attempt_inv: "inv s \<Longrightarrow> valid r \<Longrightarrow> inv (attempt s r)"
  by (auto simp: attempt_def dest: store_inv split: sum.splits)

lemma run_inv: "inv s \<Longrightarrow> list_all valid rs \<Longrightarrow> inv (foldl attempt s rs)"
  by (induction rs arbitrary: s) (auto intro: attempt_inv)

lemma attempt_grows:
  assumes "inv s" "valid r" "held s k x"
  shows "\<exists>y. held (attempt s r) k y \<and> epoch_of x \<le> epoch_of y \<and> (y = x \<or> y = r)"
proof (cases "store s r")
  case (Inl e)
  then show ?thesis using assms(3) by (auto simp: attempt_def)
next
  case (Inr s')
  then obtain k' where k': "key_of r = Some k'" using store_key by blast
  show ?thesis
  proof (cases "k = k'")
    case True
    then show ?thesis using Inr store_held [OF assms(1,2) Inr k'] store_newer [OF assms(1) Inr k'] assms(3)
      by (intro exI [of _ r]) (auto simp: attempt_def intro: less_imp_le)
  next
    case False
    then show ?thesis using Inr store_held [OF assms(1,2) Inr k'] assms(3)
      by (intro exI [of _ x]) (auto simp: attempt_def)
  qed
qed

lemma run_grows:
  "inv s \<Longrightarrow> list_all valid rs \<Longrightarrow> held s k x \<Longrightarrow>
     \<exists>y. held (foldl attempt s rs) k y \<and> epoch_of x \<le> epoch_of y \<and> (y = x \<or> y \<in> set rs)"
proof (induction rs arbitrary: s x)
  case (Cons r rs)
  obtain y where y: "held (attempt s r) k y" "epoch_of x \<le> epoch_of y" "y = x \<or> y = r"
    using attempt_grows [OF Cons.prems(1) _ Cons.prems(3), of r] Cons.prems(2) by auto
  then obtain z where "held (foldl attempt (attempt s r) rs) k z" "epoch_of y \<le> epoch_of z" "z = y \<or> z \<in> set rs"
    using Cons.IH [OF attempt_inv [OF Cons.prems(1)] _ y(1)] Cons.prems(2) by auto
  then show ?case using y by (intro exI [of _ z]) auto
qed auto

lemma replay_refused:
  assumes "inv s" "list_all valid rs" "held s k x" "key_of r = Some k" "epoch_of r \<le> epoch_of x"
  shows "\<exists>e. store (foldl attempt s rs) r = Inl e"
proof (cases "store (foldl attempt s rs) r")
  case (Inr s')
  obtain y where "held (foldl attempt s rs) k y" "epoch_of x \<le> epoch_of y"
    using run_grows [OF assms(1-3)] by blast
  then show ?thesis using store_newer [OF run_inv [OF assms(1,2)] Inr assms(4)] assms(5) by fastforce
qed blast

end

text \<open>One write of a slice host: the slice after \<open>insert\<close>, unchanged when it is refused.\<close>

definition slice_store :: "ext \<Rightarrow> slice \<Rightarrow> bytes \<Rightarrow> slice_error + slice" where
  "slice_store W sl r = (case slice_insert W sl r of Inl e \<Rightarrow> Inl e | Inr (sl', _) \<Rightarrow> Inr sl')"

definition good_slice :: "ext \<Rightarrow> slice \<Rightarrow> bool" where
  "good_slice W sl \<longleftrightarrow> ext_ok W \<and> wf_slice W sl \<and> sl_bits sl \<le> 32"

lemma slice_store_Inr: "slice_store W sl r = Inr sl' \<longleftrightarrow> (\<exists>s. slice_insert W sl r = Inr (sl', s))"
  by (auto simp: slice_store_def split: sum.splits)

lemma slice_insert_key: "slice_insert W sl r = Inr (sl', s) \<Longrightarrow>
    \<exists>k. rec_key W r = Some k \<and> slice_of k (sl_bits sl) = sl_id sl"
  by (auto simp: slice_insert_def split: option.splits if_splits)

lemma slice_insert_newer:
  assumes "good_slice W sl" "slice_insert W sl r = Inr (sl', s)" "rec_key W r = Some k" "slice_holds W sl k x"
  shows "sint (rec_epoch x) < sint (rec_epoch r)"
proof -
  have g: "ext_ok W" "wf_slice W sl" "sl_bits sl \<le> 32" using assms(1) by (simp_all add: good_slice_def)
  have l: "slice_layout W sl" using g(2) by (simp add: wf_slice_def)
  note c = slice_layoutD(2) [OF l]
  have "slice_of k (sl_bits sl) = sl_id sl" using slice_insert_key [OF assms(2)] assms(3) by simp
  then obtain e where e: "walk_ends W sl k e" "slice_insert W sl r = insert_at_end sl r e"
    using slice_insert_walk [OF g(3,1) assms(3)] by blast
  obtain t where t: "t < SLICE_SLOTS" "slice_at sl t = x" "keys_at W sl t = Some k"
    using assms(4) by (auto simp: slice_holds_def keys_at_def)
  show ?thesis
  proof (cases e)
    case WalkFull
    then show ?thesis using e(2) assms(2) by simp
  next
    case (WalkSame u)
    then have "u < SLICE_SLOTS" "keys_at W sl u = Some k" using e(1) by simp_all
    then have "u = t" using canon_inj [OF c _ t(1) _ t(3)] by blast
    then show ?thesis using WalkSame e(2) assms(2) t(2) by (auto split: if_splits)
  next
    case (WalkGap u)
    then have "u < SLICE_SLOTS" "walked_to W sl k u" "keys_at W sl u = None" using e(1) by simp_all
    then show ?thesis using t(3) slice_probe.absent_at_gap [OF c _ _ _ t(1)] by blast
  next
    case (WalkLarger u g)
    then have w: "walked_to W sl k u" "\<exists>b. keys_at W sl u = Some b \<and> k < b" "u < g" "g < SLICE_SLOTS"
      using e(1) by simp_all
    then obtain b where b: "keys_at W sl u = Some b" "k < b" by blast
    have "u < SLICE_SLOTS" using w(3,4) by simp
    from slice_probe.absent_at_larger [OF c w(1) this b t(1)] show ?thesis using t(3) by simp
  qed
qed

interpretation slice_epochs: epoch_store "slice_store W" "slice_holds W" "rec_key W" "\<lambda>r. sint (rec_epoch r)" "good_slice W" rec_ok
  for W
proof
  fix s r s' assume "good_slice W s" "rec_ok r" "slice_store W s r = Inr s'"
  then show "good_slice W s'" using slice_insert_done [of W s r] slice_insert_key [of W s r]
    by (fastforce simp: good_slice_def slice_store_Inr insert_done_def)
next
  fix s r s' assume "slice_store W s r = Inr s'"
  then show "\<exists>k. rec_key W r = Some k" using slice_insert_key by (fastforce simp: slice_store_Inr)
next
  fix s r s' k k' x
  assume "good_slice W s" "rec_ok r" "slice_store W s r = Inr s'" "rec_key W r = Some k"
  then obtain t where "insert_done W s k r s' t"
    using slice_insert_done [of W s r k s'] by (auto simp: good_slice_def slice_store_Inr)
  then show "slice_holds W s' k' x \<longleftrightarrow> (if k' = k then x = r else slice_holds W s k' x)"
    by (simp add: insert_done_def)
next
  fix s r s' k x
  assume "good_slice W s" "slice_store W s r = Inr s'" "rec_key W r = Some k" "slice_holds W s k x"
  then show "sint (rec_epoch x) < sint (rec_epoch r)" using slice_insert_newer by (auto simp: slice_store_Inr)
qed

section \<open>Equal contents, equal slices\<close>

lemma wf_slice_unique:
  assumes a: "wf_slice W a" and b: "wf_slice W b" and meta: "sl_bits a = sl_bits b" "sl_id a = sl_id b"
    and same: "\<And>k x. slice_holds W a k x \<longleftrightarrow> slice_holds W b k x"
  shows "a = b"
proof -
  have la: "slice_layout W a" and lb: "slice_layout W b" using a b by (simp_all add: wf_slice_def)
  have ca: "canon (\<lambda>k. slot_of k (sl_bits b)) SLICE_SLOTS (slice_keys (sl_bits b) (sl_id b)) (\<lambda>t. rec_key W (slice_at a t))"
    using slice_layoutD(2) [OF la] meta by (simp add: keys_at_def [abs_def])
  have cb: "canon (\<lambda>k. slot_of k (sl_bits b)) SLICE_SLOTS (slice_keys (sl_bits b) (sl_id b)) (\<lambda>t. rec_key W (slice_at b t))"
    using slice_layoutD(2) [OF lb] by (simp add: keys_at_def [abs_def])
  have "\<forall>r. rec_key W r \<noteq> None \<longrightarrow> (\<exists>t < SLICE_SLOTS. slice_at a t = r) \<longleftrightarrow> (\<exists>t < SLICE_SLOTS. slice_at b t = r)"
    using same unfolding slice_holds_alt by (metis not_None_eq)
  note eq = canon_unique [OF ca cb this]
  have slots: "slice_at a t = slice_at b t" if t: "t < SLICE_SLOTS" for t
  proof (cases "rec_key W (slice_at a t) = None \<and> rec_key W (slice_at b t) = None")
    case True
    then have "slice_at a t = empty_record \<and> slice_at b t = empty_record"
      using a b t unfolding wf_slice_def keys_at_def by blast
    then show ?thesis by simp
  next
    case False
    then show ?thesis using eq [OF t] by blast
  qed
  have "sl_buf a = sl_buf b" using slice_layoutD(1) la lb slots by (intro buf_eqI) blast+
  moreover have "occupied W a = occupied W b" using slots by (auto simp: occupied_def keys_at_def)
  then have "sl_fill a = sl_fill b" using a b by (simp add: wf_slice_def)
  ultimately show ?thesis using meta by simp
qed

lemma slice_remove_insert:
  assumes "good_slice W sl" "rec_ok r" "rec_key W r = Some k" "\<nexists>x. slice_holds W sl k x"
    and "slice_insert W sl r = Inr (sl', s)"
  shows "slice_remove W sl' k = (sl, True)"
proof -
  have g: "ext_ok W" "wf_slice W sl" "sl_bits sl \<le> 32" using assms(1) by (simp_all add: good_slice_def)
  have len: "length k = 32" using rec_key_length [OF g(1) assms(3)] .
  have here: "slice_of k (sl_bits sl) = sl_id sl" using slice_insert_key [OF assms(5)] assms(3) by simp
  have d: "insert_done W sl k r sl' s" by (rule slice_insert_done [OF g(2,3,1) assms(2,3,5)])
  then have d': "wf_slice W sl'" "sl_bits sl' = sl_bits sl" "sl_id sl' = sl_id sl"
    "\<And>k' x. slice_holds W sl' k' x \<longleftrightarrow> (if k' = k then x = r else slice_holds W sl k' x)"
    by (simp_all add: insert_done_def)
  have key': "sl_bits sl' \<le> 32" "slice_of k (sl_bits sl') = sl_id sl'" using d'(2,3) g(3) here by simp_all
  have "snd (slice_remove W sl' k)"
    unfolding slice_remove_absent [OF d'(1) key'(1) len key'(2)] d'(4) by simp
  then obtain sl2 where sl2: "slice_remove W sl' k = (sl2, True)" by (metis prod.collapse)
  then have "remove_done W sl' k sl2" using slice_remove_done [OF d'(1) key'(1) len key'(2)] by blast
  then have r: "wf_slice W sl2" "sl_bits sl2 = sl_bits sl" "sl_id sl2 = sl_id sl"
    "\<And>k' x. slice_holds W sl2 k' x \<longleftrightarrow> k' \<noteq> k \<and> slice_holds W sl' k' x"
    using d'(2,3) by (simp_all add: remove_done_def)
  have "slice_holds W sl2 k' x \<longleftrightarrow> slice_holds W sl k' x" for k' x
    using assms(4) unfolding r(4) d'(4) by auto
  then have "sl2 = sl" by (rule wf_slice_unique [OF r(1) g(2) r(2,3)])
  then show ?thesis using sl2 by simp
qed

section \<open>The repair check\<close>

text \<open>\<open>check_invariants\<close> decides exactly: occupied slots in strictly ascending key order, none left of its
  ideal slot.\<close>

fun ascending :: "bytes option \<Rightarrow> bytes list \<Rightarrow> bool" where
  "ascending p [] = True"
| "ascending p (k # ks) \<longleftrightarrow> (case p of Some q \<Rightarrow> q < k | None \<Rightarrow> True) \<and> ascending (Some k) ks"

lemma ascending_Some: "ascending (Some q) ks \<longleftrightarrow> sorted_wrt (<) (q # ks)"
  by (induction ks arbitrary: q) auto

lemma ascending_None: "ascending None ks \<longleftrightarrow> sorted_wrt (<) ks"
  by (cases ks) (simp_all add: ascending_Some)

lemma check_from_None:
  assumes "\<forall>(s, r) \<in> set xs. rec_key W r \<noteq> None"
  shows "check_from W sl p xs = None \<longleftrightarrow>
    (\<forall>(s, r) \<in> set xs. slice_ideal sl (the (rec_key W r)) \<le> s) \<and> ascending p (map (\<lambda>(s, r). the (rec_key W r)) xs)"
  using assms
proof (induction xs arbitrary: p)
  case (Cons x xs)
  obtain s r where x: "x = (s, r)" by (cases x)
  then obtain k where k: "rec_key W r = Some k" using Cons.prems by auto
  have *: "check_from W sl q xs = None \<longleftrightarrow>
    (\<forall>(s, r) \<in> set xs. slice_ideal sl (the (rec_key W r)) \<le> s) \<and> ascending q (map (\<lambda>(s, r). the (rec_key W r)) xs)" for q
    using Cons by simp
  show ?case by (cases p) (auto simp: x k * not_le not_less)
qed simp

lemma sorted_wrt_filter_map:
  "sorted_wrt R (map f (filter P [0..<n])) \<longleftrightarrow> (\<forall>s t. s < t \<longrightarrow> t < n \<longrightarrow> P s \<longrightarrow> P t \<longrightarrow> R (f s) (f t))"
  by (induction n) (auto simp: sorted_wrt_append less_Suc_eq)

lemma slice_iter_alt:
  "slice_iter sl = map (\<lambda>s. (s, slice_at sl s)) (filter (\<lambda>s. \<not> rec_is_empty (slice_at sl s)) [0..<SLICE_SLOTS])"
  unfolding slice_iter_def by (simp add: filter_map comp_def)

lemma check_invariants_None:
  "check_invariants W sl = None \<longleftrightarrow>
    (\<forall>t k. t < SLICE_SLOTS \<longrightarrow> keys_at W sl t = Some k \<longrightarrow> slice_ideal sl k \<le> t) \<and>
    (\<forall>s t a b. s < t \<longrightarrow> t < SLICE_SLOTS \<longrightarrow> keys_at W sl s = Some a \<longrightarrow> keys_at W sl t = Some b \<longrightarrow> a < b)"
proof -
  have occ: "\<forall>(s, r) \<in> set (slice_iter sl). rec_key W r \<noteq> None"
    by (auto simp: slice_iter_alt rec_key_None)
  have A: "(\<forall>(s, r) \<in> set (slice_iter sl). slice_ideal sl (the (rec_key W r)) \<le> s) \<longleftrightarrow>
    (\<forall>t k. t < SLICE_SLOTS \<longrightarrow> keys_at W sl t = Some k \<longrightarrow> slice_ideal sl k \<le> t)"
    unfolding slice_iter_alt rec_key_None [of W, symmetric] keys_at_def by fastforce
  have B: "ascending None (map (\<lambda>(s, r). the (rec_key W r)) (slice_iter sl)) \<longleftrightarrow>
    (\<forall>s t a b. s < t \<longrightarrow> t < SLICE_SLOTS \<longrightarrow> keys_at W sl s = Some a \<longrightarrow> keys_at W sl t = Some b \<longrightarrow> a < b)"
    unfolding ascending_None slice_iter_alt rec_key_None [of W, symmetric] keys_at_def map_map comp_def prod.case sorted_wrt_filter_map
    by fastforce
  show ?thesis unfolding check_invariants_def check_from_None [OF occ] A B ..
qed

lemma wf_slice_checks: "wf_slice W sl \<Longrightarrow> check_invariants W sl = None"
proof -
  assume "wf_slice W sl"
  then have "slice_layout W sl" by (simp add: wf_slice_def)
  note c = slice_layoutD(2) [OF this]
  show ?thesis
    unfolding check_invariants_None slice_ideal_def using canon_key [OF c] canon_sorted [OF c] by blast
qed

end
