(* ===== verification/Slice_Props.thy ===== *)
theory Slice_Props
  imports Slice_Laws
begin

text \<open>
  The properties of the phonebook's slices and records, and their witnesses on a fresh slice of width
  0 (one slice for the whole key space) with one record in it.
\<close>

section \<open>Properties\<close>

text \<open>C25: \<open>Slice::lookup\<close> is exact: on a well-formed slice it finds the record of a key if and only
  if some slot holds it, and returns that slot. In particular an empty slot or a larger key on the
  way does prove absence.\<close>

theorem slice_lookup_exact:
  assumes "good_slice W sl" "length key = 32" "slice_of key (sl_bits sl) = sl_id sl"
  shows "slice_lookup W sl key = Some (t, r) \<longleftrightarrow> t < SLICE_SLOTS \<and> slice_at sl t = r \<and> rec_key W r = Some key"
  using slice_lookup_spec [of W sl key t r] assms by (auto simp: good_slice_def wf_slice_def keys_at_def)

text \<open>C26: \<open>Slice::insert\<close>, when it succeeds, keeps the slice well-formed (sorted, no gap between a
  record and its ideal slot, fill count right, gaps zeroed), returns the slot of the record, changes
  the contents by exactly this record, and counts a new key once. It never takes a record of another
  slice, and never an epoch that is not newer.\<close>

theorem slice_insert_exact:
  assumes "good_slice W sl" "rec_ok r" "slice_insert W sl r = Inr (sl', s)"
  shows "\<exists>key. rec_key W r = Some key \<and> slice_of key (sl_bits sl) = sl_id sl \<and>
     good_slice W sl' \<and> sl_bits sl' = sl_bits sl \<and> sl_id sl' = sl_id sl \<and>
     s < SLICE_SLOTS \<and> slice_at sl' s = r \<and>
     (\<forall>k x. slice_holds W sl' k x \<longleftrightarrow> (if k = key then x = r else slice_holds W sl k x)) \<and>
     (\<forall>x. slice_holds W sl key x \<longrightarrow> sint (rec_epoch x) < sint (rec_epoch r)) \<and>
     sl_fill sl' = sl_fill sl + (if \<exists>x. slice_holds W sl key x then 0 else 1)"
proof -
  obtain key where k: "rec_key W r = Some key" "slice_of key (sl_bits sl) = sl_id sl"
    using slice_insert_key [OF assms(3)] by blast
  have "insert_done W sl key r sl' s"
    using slice_insert_done [OF _ _ _ assms(2) k(1) assms(3)] assms(1) by (simp add: good_slice_def)
  then show ?thesis using k assms(1) slice_insert_newer [OF assms(1,3) k(1)]
    by (intro exI [of _ key]) (simp add: insert_done_def good_slice_def)
qed

text \<open>\<open>Slice::insert\<close> refuses for the reason it names: an empty record, a key of another slice, a
  stored record whose epoch is not older (with both epochs), or, for a key the slice does not hold,
  no gap between the walk and the end of the slice.\<close>

theorem slice_insert_refusals:
  assumes "good_slice W sl" "slice_insert W sl r = Inl e"
  shows "e = EmptyRecord \<and> rec_is_empty r \<or>
    (\<exists>key. rec_key W r = Some key \<and>
      (e = WrongSlice (sl_id sl) (slice_of key (sl_bits sl)) \<and> slice_of key (sl_bits sl) \<noteq> sl_id sl \<or>
       (\<exists>x. slice_holds W sl key x \<and> e = StaleEpoch (rec_epoch x) (rec_epoch r) \<and>
            sint (rec_epoch r) \<le> sint (rec_epoch x)) \<or>
       e = Full \<and> (\<nexists>x. slice_holds W sl key x)))"
proof (cases "rec_key W r")
  case None
  moreover have "rec_is_empty r" using None by (simp add: rec_key_None)
  ultimately show ?thesis using assms(2) by (simp add: slice_insert_def)
next
  case (Some key)
  show ?thesis
  proof (cases "slice_of key (sl_bits sl) = sl_id sl")
    case True
    then show ?thesis using slice_insert_refused [OF _ _ _ Some True assms(2)] assms(1) Some
      by (simp add: good_slice_def)
  next
    case False
    then show ?thesis using assms(2) Some by (auto simp: slice_insert_def)
  qed
qed

text \<open>C27: \<open>Slice::remove\<close> answers whether the key was there, and takes exactly that record out: the
  slice stays well-formed, with the fill one lower and every other record findable.\<close>

theorem slice_remove_exact:
  assumes "good_slice W sl" "length key = 32" "slice_of key (sl_bits sl) = sl_id sl" "slice_remove W sl key = (sl', gone)"
  shows "(gone \<longleftrightarrow> (\<exists>x. slice_holds W sl key x)) \<and> (\<not> gone \<longrightarrow> sl' = sl) \<and>
    good_slice W sl' \<and> (\<forall>k x. slice_holds W sl' k x \<longleftrightarrow> k \<noteq> key \<and> slice_holds W sl k x) \<and>
    sl_fill sl' + (if gone then 1 else 0) = sl_fill sl"
proof -
  have g: "wf_slice W sl" "sl_bits sl \<le> 32" using assms(1) by (simp_all add: good_slice_def)
  have gone: "gone \<longleftrightarrow> (\<exists>x. slice_holds W sl key x)"
    using slice_remove_absent [OF g assms(2,3)] assms(4) by simp
  show ?thesis
  proof (cases gone)
    case True
    then have "remove_done W sl key sl'" using slice_remove_done [OF g assms(2,3)] assms(4) by simp
    then show ?thesis using True gone assms(1) by (simp add: remove_done_def good_slice_def)
  next
    case False
    then have "sl' = sl" using assms(4) by (auto simp: slice_remove_def Let_def split: option.splits prod.splits)
    then show ?thesis using False gone assms(1) by auto
  qed
qed

text \<open>C28: remove is the exact inverse of insert: inserting a key the slice did not hold and removing
  it gives back the very same slice, byte for byte, wherever the shifts moved the other records.\<close>

theorem remove_undoes_insert:
  assumes "good_slice W sl" "rec_ok r" "rec_key W r = Some k" "\<nexists>x. slice_holds W sl k x"
    and "slice_insert W sl r = Inr (sl', s)"
  shows "slice_remove W sl' k = (sl, True)"
  by (rule slice_remove_insert [OF assms])

text \<open>Over any run of writes by any writers, a key once held stays held and its epoch never goes
  back, and a record that was not newer than what the slice once held is refused for ever: a replay
  can never restore an old record.\<close>

theorem slice_epochs_never_regress:
  assumes "good_slice W sl" "list_all rec_ok rs" "slice_holds W sl k x"
  shows "(\<exists>y. slice_holds W (foldl (slice_epochs.attempt W) sl rs) k y \<and> sint (rec_epoch x) \<le> sint (rec_epoch y)) \<and>
    (\<forall>r. rec_key W r = Some k \<longrightarrow> sint (rec_epoch r) \<le> sint (rec_epoch x) \<longrightarrow>
         (\<exists>e. slice_store W (foldl (slice_epochs.attempt W) sl rs) r = Inl e))"
  using slice_epochs.run_grows [OF assms] slice_epochs.replay_refused [OF assms] by blast

text \<open>A slice that every write kept well-formed passes \<open>check_invariants\<close>, so the repair check
  raises no false alarm.\<close>

theorem well_formed_passes_check:
  assumes "good_slice W sl"
  shows "check_invariants W sl = None"
  using assms by (simp add: good_slice_def wf_slice_checks)

section \<open>A fresh slice, and one with a single record\<close>

lemma read_zeros: "at + n \<le> m \<Longrightarrow> read_at n at (replicate m 0) = replicate n 0"
  by (simp add: read_at_def)

lemma slice_at_new: "t < SLICE_SLOTS \<Longrightarrow> slice_at (slice_new b i) t = empty_record"
  using slot_room [of t] by (simp add: slice_at_def slice_new_def read_zeros empty_record_def)

lemma keys_at_new: "t < SLICE_SLOTS \<Longrightarrow> keys_at W (slice_new b i) t = None"
  by (simp add: keys_at_def slice_at_new)

lemma slice_new_sel [simp]: "sl_bits (slice_new b i) = b" "sl_id (slice_new b i) = i" "sl_fill (slice_new b i) = 0"
  by (simp_all add: slice_new_def)

lemma slice_new_ok: "buf_ok (slice_new b i)"
  by (simp add: buf_ok_def slice_new_def)

lemma slice_new_good: "ext_ok W \<Longrightarrow> b \<le> 32 \<Longrightarrow> good_slice W (slice_new b i)"
proof -
  assume W: "ext_ok W" "b \<le> 32"
  have o: "occupied W (slice_new b i) = {}" by (auto simp: occupied_def keys_at_new)
  have "canon (\<lambda>k. slot_of k b) SLICE_SLOTS (slice_keys b i) (keys_at W (slice_new b i))"
    by (rule canonI) (auto simp: keys_at_new)
  then show ?thesis
    using W o by (simp add: good_slice_def wf_slice_def slice_layout_def slice_new_ok slice_at_new)
qed

lemma slice_new_holds: "\<not> slice_holds W (slice_new b i) k x"
  by (auto simp: slice_holds_def slice_at_new)

lemma slice_of_0 [simp]: "slice_of k 0 = 0"
  by (simp add: slice_of_def)

lemma insert_new:
  assumes "ext_ok W" "rec_key W r = Some k"
  shows "slice_insert W (slice_new 0 0) r =
    Inr ((slice_put (slice_new 0 0) (slot_of k 0) r)\<lparr>sl_fill := 1\<rparr>, slot_of k 0)"
proof -
  have s: "slot_of k 0 < SLICE_SLOTS" using slot_of_less rec_key_length [OF assms] by blast
  show ?thesis
    using assms(2) s by (simp add: slice_insert_def insert_from.simps slice_ideal_def slice_at_new)
qed

definition demo_record :: "i64 \<Rightarrow> bytes" where
  "demo_record epoch = new_identity_count (demo_seed 1) 1 epoch (demo_seed 2) None (demo_seed 3)"

lemma demo_record_ok: "rec_ok (demo_record e)" "rec_key demo_ext (demo_record e) = Some (key_identity demo_ext (demo_seed 1))"
  "rec_epoch (demo_record e) = e"
  using identity_count_fields [of "demo_seed 1" "demo_seed 2" "demo_seed 3" None 1 e]
  by (simp_all add: demo_record_def rec_key_def)

definition demo_slice :: slice where
  "demo_slice = (slice_put (slice_new 0 0) (slot_of (key_identity demo_ext (demo_seed 1)) 0) (demo_record 5))\<lparr>sl_fill := 1\<rparr>"

abbreviation demo_key :: bytes where "demo_key \<equiv> key_identity demo_ext (demo_seed 1)"

lemma demo_insert: "slice_insert demo_ext (slice_new 0 0) (demo_record 5) = Inr (demo_slice, slot_of demo_key 0)"
  unfolding demo_slice_def by (rule insert_new [OF demo_ext_ok demo_record_ok(2)])

lemma demo_key_length: "length demo_key = 32"
  by (rule rec_key_length [OF demo_ext_ok demo_record_ok(2)])

lemma demo_slice_done: "insert_done demo_ext (slice_new 0 0) demo_key (demo_record 5) demo_slice (slot_of demo_key 0)"
  using slice_insert_done [OF _ _ demo_ext_ok demo_record_ok(1,2) demo_insert] slice_new_good [OF demo_ext_ok, of 0 0]
  by (simp add: good_slice_def)

lemma demo_slice_good: "good_slice demo_ext demo_slice"
  and demo_slice_holds: "slice_holds demo_ext demo_slice demo_key x \<longleftrightarrow> x = demo_record 5"
  and demo_slice_sel: "sl_bits demo_slice = 0" "sl_id demo_slice = 0"
  using demo_slice_done demo_ext_ok by (simp_all add: insert_done_def good_slice_def)

section \<open>Witnesses\<close>

theorem slice_lookup_exact_witness:
  "\<exists>t. slice_lookup demo_ext demo_slice demo_key = Some (t, demo_record 5)"
  using slice_lookup_exact [OF demo_slice_good demo_key_length, of _ "demo_record 5"] demo_slice_holds [of "demo_record 5"]
  by (auto simp: demo_slice_sel slice_holds_def)

theorem slice_insert_exact_witness:
  "good_slice demo_ext demo_slice \<and> sl_fill demo_slice = 1"
  using slice_insert_exact [OF slice_new_good [OF demo_ext_ok] demo_record_ok(1) demo_insert]
  by (auto simp: slice_new_holds)

lemma demo_stale: "\<exists>e. slice_insert demo_ext demo_slice (demo_record 5) = Inl e"
proof (cases "slice_insert demo_ext demo_slice (demo_record 5)")
  case (Inr p)
  then show ?thesis
    using slice_insert_newer [OF demo_slice_good, of "demo_record 5" "fst p" "snd p"] demo_record_ok(2) [of 5] demo_slice_holds
    by fastforce
qed blast

theorem slice_insert_refusals_witness:
  "slice_insert demo_ext demo_slice (demo_record 5) = Inl (StaleEpoch 5 5)"
proof -
  obtain e where e: "slice_insert demo_ext demo_slice (demo_record 5) = Inl e" using demo_stale by blast
  have "\<not> rec_is_empty (demo_record 5)" using demo_record_ok(2) [of 5] by (metis option.distinct(1) rec_key_None)
  then show ?thesis
    using slice_insert_refusals [OF demo_slice_good e] e demo_record_ok(2) [of 5] demo_slice_holds demo_slice_sel
      demo_record_ok(3)
    by auto
qed

theorem slice_remove_exact_witness:
  "snd (slice_remove demo_ext demo_slice demo_key)"
  using slice_remove_exact [OF demo_slice_good demo_key_length, of "fst (slice_remove demo_ext demo_slice demo_key)"
      "snd (slice_remove demo_ext demo_slice demo_key)"] demo_slice_holds
  by (simp add: demo_slice_sel)

theorem remove_undoes_insert_witness:
  "slice_remove demo_ext demo_slice demo_key = (slice_new 0 0, True)"
  using remove_undoes_insert [OF slice_new_good [OF demo_ext_ok] demo_record_ok(1,2) _ demo_insert]
  by (simp add: slice_new_holds)

theorem slice_epochs_never_regress_witness:
  "\<exists>e. slice_store demo_ext (foldl (slice_epochs.attempt demo_ext) demo_slice [demo_record 9, demo_record 7]) (demo_record 4) = Inl e"
  using slice_epochs_never_regress [OF demo_slice_good, of "[demo_record 9, demo_record 7]" demo_key "demo_record 5"]
    demo_record_ok demo_slice_holds by simp

theorem well_formed_passes_check_witness:
  "check_invariants demo_ext demo_slice = None \<and> sl_fill demo_slice = 1"
  using well_formed_passes_check [OF demo_slice_good] by (simp add: demo_slice_def)

section \<open>What the repair check does not see\<close>

lemma check_one:
  assumes "rec_ok r" "rec_key W r = Some k" "slot_of k 0 \<le> s" "s < SLICE_SLOTS"
  shows "check_invariants W (slice_put (slice_new 0 0) s r) = None"
proof -
  have "keys_at W (slice_put (slice_new 0 0) s r) t = (if t = s then Some k else None)" if "t < SLICE_SLOTS" for t
    using keys_at_put [OF slice_new_ok assms(1,4)] assms(2) keys_at_new [OF that] by simp
  then show ?thesis unfolding check_invariants_None using assms(3) by (auto simp: slice_ideal_def split: if_splits)
qed

text \<open>\<open>check_invariants\<close> accepts slices in which a stored record cannot be found: it checks the
  order and that no record is left of its ideal slot, not that the slots between the two are
  occupied, which is what a lookup relies on. Any record put one slot right of its ideal slot into an
  empty slice is such a slice.\<close>

theorem check_invariants_admits_lost_record:
  assumes "rec_ok r" "rec_key W r = Some k" "slot_of k 0 < s" "s < SLICE_SLOTS"
  shows "check_invariants W (slice_put (slice_new 0 0) s r) = None \<and>
    slice_holds W (slice_put (slice_new 0 0) s r) k r \<and> slice_lookup W (slice_put (slice_new 0 0) s r) k = None"
proof -
  let ?sl = "slice_put (slice_new 0 0) s r"
  have at: "slice_at ?sl t = (if t = s then r else slice_at (slice_new 0 0) t)" for t
    by (rule slice_at_put [OF slice_new_ok assms(1,4)])
  have "slice_at ?sl (slot_of k 0) = empty_record" using assms(3,4) by (simp add: at slice_at_new)
  then have "slice_lookup W ?sl k = None"
    using assms(3,4) by (simp add: slice_lookup_def lookup_from.simps slice_ideal_def)
  moreover have "slice_holds W ?sl k r" using assms by (auto simp: slice_holds_def at)
  ultimately show ?thesis using check_one [OF assms(1,2) _ assms(4)] assms(3) by simp
qed

lemma demo_slot: "slot_of demo_key 0 < 4095"
proof -
  obtain rest where k: "take 8 demo_key = 1 # rest" "length rest = 7"
    by (simp add: key_identity_def demo_ext_def demo_hash_def)
  have "be_dec (take 8 demo_key) < 2 * 256 ^ 7"
    using be_dec_bound [of rest] k by (simp add: be_dec_Cons)
  then have "be_dec (take 8 demo_key) div 2 ^ 52 < 32" by (simp add: less_mult_imp_div_less)
  then show ?thesis by (simp add: slot_of_div demo_key_length)
qed

theorem check_invariants_admits_lost_record_witness:
  "\<exists>sl. check_invariants demo_ext sl = None \<and> slice_holds demo_ext sl demo_key (demo_record 5) \<and>
     slice_lookup demo_ext sl demo_key = None"
  using check_invariants_admits_lost_record [OF demo_record_ok(1,2) demo_slot, of 5] by (auto simp: SLICE_SLOTS_def)

end
