(* ===== verification/Registry.thy ===== *)
theory Registry
  imports Phonebook_Record "HOL-Library.Multiset"
begin

text \<open>
  src/src/phonebook.rs, the primary registry: \<open>RegistryView\<close> with its verification, and
  \<open>registry_plan\<close>, which turns the folded member set into record writes by pop-and-swap. Storage
  lives outside the repository and is seen as the view it reads back into: \<open>store_write\<close> is the per-key
  storage the comments describe, which refuses a record whose epoch is not newer than the one its key
  holds (\<open>or storage rejects it\<close>, phonebook.rs:1057).
\<close>

section \<open>The view\<close>

record registry_view =
  rv_count :: "bytes option"
  rv_pointers :: "bytes list"
  rv_blobs :: "bytes \<Rightarrow> bytes option"

definition view_default :: registry_view where
  "view_default = \<lparr>rv_count = None, rv_pointers = [], rv_blobs = (\<lambda>_. None)\<rparr>"

definition add_blob :: "ext \<Rightarrow> registry_view \<Rightarrow> bytes \<Rightarrow> registry_view" where
  "add_blob W v blob =
     (if length blob \<le> EGGS_BLOB_MAX then v\<lparr>rv_blobs := (rv_blobs v)(eggs_ptr W blob := Some blob)\<rparr> else v)"

definition view_blob :: "registry_view \<Rightarrow> bytes \<Rightarrow> bytes option" where
  "view_blob v r = rv_blobs v (rec_eggs_ptr r)"

fun verify_pointers :: "ext \<Rightarrow> registry_view \<Rightarrow> bytes \<Rightarrow> egg_policy \<Rightarrow> nat \<Rightarrow> bytes list \<Rightarrow> bool" where
  "verify_pointers W v hp policy i [] = True"
| "verify_pointers W v hp policy i (p # ps) =
     (case view_blob v p of None \<Rightarrow> False
      | Some blob \<Rightarrow>
          if \<not> verify_placement_with W p blob policy \<or> rec_handle_proof p \<noteq> hp \<or> unat (rec_index p) \<noteq> i then False
          else verify_pointers W v hp policy (Suc i) ps)"

definition registry_verify_with :: "ext \<Rightarrow> registry_view \<Rightarrow> bytes \<Rightarrow> egg_policy \<Rightarrow> bool" where
  "registry_verify_with W v hp policy =
     (if (case rv_count v of
            Some c \<Rightarrow>
              (case view_blob v c of None \<Rightarrow> False
               | Some blob \<Rightarrow>
                   \<not> (\<not> verify_count_with W c blob policy \<or> \<not> verify_departure_with W c blob policy \<or> rec_handle_proof c \<noteq> hp) \<and>
                   unat (rec_count c) = length (rv_pointers v))
          | None \<Rightarrow> rv_pointers v = [])
      then verify_pointers W v hp policy 0 (rv_pointers v) else False)"

definition view_devices :: "registry_view \<Rightarrow> bytes list" where
  "view_devices v = map rec_device (rv_pointers v)"

section \<open>The plan\<close>

text \<open>\<open>list.swap(i, last); list.pop()\<close>, without advancing.\<close>

definition swap_out :: "'a list \<Rightarrow> nat \<Rightarrow> 'a list" where
  "swap_out l i = (let last_i = length l - 1 in butlast (l[i := l ! last_i, last_i := l ! i]))"

lemma length_swap_out [simp]: "length (swap_out l i) = length l - 1"
  by (simp add: swap_out_def Let_def)

function pop_swap :: "bytes list \<Rightarrow> bytes list \<Rightarrow> nat \<Rightarrow> bytes list" where
  "pop_swap members l i =
     (if i < length l then if l ! i \<in> set members then pop_swap members l (Suc i) else pop_swap members (swap_out l i) i
      else l)"
  by pat_completeness auto
termination by (relation "measure (\<lambda>(_, l, i). length l - i)") auto

declare pop_swap.simps [simp del]

definition append_new :: "bytes list \<Rightarrow> bytes list \<Rightarrow> bytes list" where
  "append_new l members = foldl (\<lambda>l d. if d \<in> set l then l else l @ [d]) l members"

definition planned_list :: "bytes list \<Rightarrow> bytes list \<Rightarrow> bytes list" where
  "planned_list current members = append_new (pop_swap members current 0) members"

definition slot_get :: "'a list \<Rightarrow> nat \<Rightarrow> 'a option" where
  "slot_get xs i = (if i < length xs then Some (xs ! i) else None)"

definition pointer_write ::
  "ext \<Rightarrow> signer \<Rightarrow> u16 \<Rightarrow> bytes \<Rightarrow> i64 \<Rightarrow> nat \<times> bytes \<Rightarrow> bytes \<times> bytes" where
  "pointer_write W s m hp epoch = (\<lambda>(idx, dev).
     let mk = new_device_pointer hp (of_nat idx) dev epoch (sg_public s);
         eggs = sg_eggs s (placement_signing_bytes (mk zero32)) m;
         blob = eggs_blob W [eggs]
     in (mk (eggs_ptr W blob), blob))"

definition count_write ::
  "ext \<Rightarrow> signer \<Rightarrow> u16 \<Rightarrow> bytes \<Rightarrow> i64 \<Rightarrow> nat \<Rightarrow> (bytes \<times> egg list) option \<Rightarrow> bytes \<times> bytes" where
  "count_write W s m hp epoch n departing =
     (let mk = new_identity_count hp (of_nat n) epoch (sg_public s) (map_option fst departing);
          eggs = sg_eggs s (count_signing_bytes (mk zero32)) m;
          blob = eggs_blob W [eggs, case departing of Some (_, e) \<Rightarrow> e | None \<Rightarrow> []]
      in (mk (eggs_ptr W blob), blob))"

definition registry_plan ::
  "ext \<Rightarrow> signer \<Rightarrow> u16 \<Rightarrow> bytes \<Rightarrow> bytes list \<Rightarrow> registry_view \<Rightarrow> i64 \<Rightarrow> (bytes \<times> egg list) option
    \<Rightarrow> (bytes \<times> bytes) list" where
  "registry_plan W s m hp members v epoch departing =
     (let current = view_devices v;
          l = planned_list current members;
          out = map (pointer_write W s m hp epoch) (filter (\<lambda>(idx, dev). slot_get current idx \<noteq> Some dev) (enumerate 0 l));
          count_stale = (case rv_count v of Some c \<Rightarrow> unat (rec_count c) \<noteq> length l | None \<Rightarrow> True)
      in if out \<noteq> [] \<or> count_stale then out @ [count_write W s m hp epoch (length l) departing] else out)"

text \<open>The storage: every blob is filed under its content address; a pointer lands at its index and a
  count replaces the count, unless the key holds a record whose epoch is the same or later. A reader sees
  the run the count attests.\<close>

definition place_pointer :: "bytes list \<Rightarrow> nat \<Rightarrow> bytes \<Rightarrow> bytes list" where
  "place_pointer ps i r =
     (if i < length ps \<and> ps ! i \<noteq> empty_record \<and> sint (rec_epoch r) \<le> sint (rec_epoch (ps ! i)) then ps
      else (ps @ replicate (Suc i - length ps) empty_record)[i := r])"

definition place_count :: "bytes option \<Rightarrow> bytes \<Rightarrow> bytes option" where
  "place_count c r = (case c of None \<Rightarrow> Some r | Some c' \<Rightarrow> if sint (rec_epoch r) \<le> sint (rec_epoch c') then c else Some r)"

definition store_write :: "ext \<Rightarrow> registry_view \<Rightarrow> bytes \<times> bytes \<Rightarrow> registry_view" where
  "store_write W v = (\<lambda>(r, blob).
     let v1 = add_blob W v blob in
     (case rec_kind r of
        IdentityCount \<Rightarrow> v1\<lparr>rv_count := place_count (rv_count v1) r\<rparr>
      | DevicePointer \<Rightarrow> v1\<lparr>rv_pointers := place_pointer (rv_pointers v1) (unat (rec_index r)) r\<rparr>
      | _ \<Rightarrow> v1))"

definition store_plan :: "ext \<Rightarrow> registry_view \<Rightarrow> (bytes \<times> bytes) list \<Rightarrow> registry_view" where
  "store_plan W v plan =
     (let v1 = foldl (store_write W) v plan;
          n = (case rv_count v1 of Some c \<Rightarrow> unat (rec_count c) | None \<Rightarrow> 0)
      in v1\<lparr>rv_pointers := take n (rv_pointers v1)\<rparr>)"

text \<open>The caller's duty: an epoch strictly newer than any stored.\<close>

definition newer_epoch :: "i64 \<Rightarrow> registry_view \<Rightarrow> bool" where
  "newer_epoch epoch v \<longleftrightarrow>
     (\<forall>c. rv_count v = Some c \<longrightarrow> sint (rec_epoch c) < sint epoch) \<and> (\<forall>p \<in> set (rv_pointers v). sint (rec_epoch p) < sint epoch)"

section \<open>Pop and swap keeps the members, and the run dense\<close>

lemma mset_swap_out:
  assumes "i < length l"
  shows "mset (swap_out l i) + {#l ! i#} = mset l"
proof -
  let ?k = "length l - 1" and ?m = "l[i := l ! (length l - 1), length l - 1 := l ! i]"
  have k: "?k < length l" using assms by simp
  have "?m \<noteq> []" using assms by auto
  then have "?m = butlast ?m @ [?m ! ?k]" by (metis append_butlast_last_id last_conv_nth length_list_update)
  moreover have "?m ! ?k = l ! i" using k by simp
  ultimately have "mset ?m = mset (swap_out l i) + {#l ! i#}"
    unfolding swap_out_def Let_def by (metis mset.simps mset_append)
  then show ?thesis using mset_swap [OF k assms] by simp
qed

lemma mset_pop_swap:
  "\<forall>j < i. j < length l \<longrightarrow> l ! j \<in> set members \<Longrightarrow> mset (pop_swap members l i) = filter_mset (\<lambda>d. d \<in> set members) (mset l)"
proof (induction members l i rule: pop_swap.induct)
  case (1 members l i)
  show ?case
  proof (cases "i < length l")
    case False
    then have "\<forall>x \<in> set l. x \<in> set members" using 1(3) by (auto simp: in_set_conv_nth)
    then have "filter (\<lambda>d. d \<in> set members) l = l" by (simp add: filter_id_conv)
    then have "filter_mset (\<lambda>d. d \<in> set members) (mset l) = mset l" by (metis mset_filter)
    then show ?thesis using False by (simp add: pop_swap.simps [of members l i])
  next
    case i: True
    show ?thesis
    proof (cases "l ! i \<in> set members")
      case True
      then show ?thesis using 1(1) [OF i True] 1(3) i by (simp add: pop_swap.simps [of members l i] less_Suc_eq)
    next
      case False
      have "\<forall>j < i. j < length (swap_out l i) \<longrightarrow> swap_out l i ! j \<in> set members"
        using 1(3) i by (auto simp: swap_out_def Let_def nth_butlast)
      from 1(2) [OF i False this]
      have "mset (pop_swap members l i) = filter_mset (\<lambda>d. d \<in> set members) (mset (swap_out l i))"
        using i False by (simp add: pop_swap.simps [of members l i])
      moreover have "filter_mset (\<lambda>d. d \<in> set members) (mset l) = filter_mset (\<lambda>d. d \<in> set members) (mset (swap_out l i))"
        unfolding mset_swap_out [OF i, symmetric] using False by simp
      ultimately show ?thesis by simp
    qed
  qed
qed

lemma set_append_new: "set (append_new l members) = set l \<union> set members"
  unfolding append_new_def by (induction members arbitrary: l) auto

lemma distinct_append_new: "distinct l \<Longrightarrow> distinct (append_new l members)"
  unfolding append_new_def by (induction members arbitrary: l) auto

lemma append_new_subset: "set members \<subseteq> set l \<Longrightarrow> append_new l members = l"
  unfolding append_new_def by (induction members) auto

lemma set_planned_list: "set (planned_list current members) = set members"
proof -
  have "set (pop_swap members current 0) = set_mset (filter_mset (\<lambda>d. d \<in> set members) (mset current))"
    using mset_pop_swap [of 0 current members] by (metis not_less0 set_mset_mset)
  then show ?thesis by (auto simp: planned_list_def set_append_new)
qed

lemma distinct_append_new_iff: "distinct (append_new l members) \<longleftrightarrow> distinct l"
proof
  have "\<exists>k. append_new l members = l @ k" unfolding append_new_def
    by (induction members rule: rev_induct) (auto simp: append_assoc)
  then show "distinct (append_new l members) \<Longrightarrow> distinct l" by auto
qed (rule distinct_append_new)

text \<open>The new run has one slot per device exactly when the slots it kept had.\<close>

lemma distinct_planned_list:
  "distinct (planned_list current members) \<longleftrightarrow> distinct (filter (\<lambda>d. d \<in> set members) current)"
proof -
  have "mset (pop_swap members current 0) = mset (filter (\<lambda>d. d \<in> set members) current)"
    using mset_pop_swap [of 0 current members] by simp
  then show ?thesis unfolding planned_list_def distinct_append_new_iff by (rule mset_eq_imp_distinct_iff)
qed

lemma pop_swap_id: "set l \<subseteq> set members \<Longrightarrow> pop_swap members l i = l"
proof (induction members l i rule: pop_swap.induct)
  case (1 members l i)
  then show ?case by (subst pop_swap.simps) (auto simp: subset_iff)
qed

lemma planned_list_id: "set l = set members \<Longrightarrow> planned_list l members = l"
  by (simp add: planned_list_def pop_swap_id append_new_subset)

section \<open>Applying the plan\<close>

lemma pointer_write_fields:
  fixes m :: u16 and epoch :: i64
  assumes "length hp = 32" "length dev = 32" "length (sg_public s) = 32" "ext_ok W" "i < 2 ^ 32"
  defines "r \<equiv> fst (pointer_write W s m hp epoch (i, dev))"
  shows "rec_kind r = DevicePointer" "unat (rec_index r) = i" "rec_device r = dev" "rec_handle_proof r = hp"
    "rec_placer r = sg_public s" "rec_eggs_ptr r = eggs_ptr W (snd (pointer_write W s m hp epoch (i, dev)))"
    "rec_epoch r = epoch" "placement_signing_bytes r = placement_signing_bytes (new_device_pointer hp (of_nat i) dev epoch (sg_public s) zero32)"
proof -
  let ?mk = "new_device_pointer hp (of_nat i) dev epoch (sg_public s)"
  let ?b = "snd (pointer_write W s m hp epoch (i, dev))"
  have r: "r = ?mk (eggs_ptr W ?b)" by (simp add: r_def pointer_write_def Let_def)
  have e: "length (eggs_ptr W ?b) = 32" using assms(4) by (simp add: eggs_ptr_def ext_ok_def)
  note f = device_pointer_fields [OF assms(1-3) e, of "of_nat i" epoch]
  note f0 = device_pointer_fields [OF assms(1-3) length_zero32, of "of_nat i" epoch]
  show "rec_kind r = DevicePointer" "rec_device r = dev" "rec_handle_proof r = hp" "rec_placer r = sg_public s"
    "rec_eggs_ptr r = eggs_ptr W ?b" "rec_epoch r = epoch" using f by (simp_all add: r)
  show "unat (rec_index r) = i" using f assms(5) by (simp add: r unat_of_nat)
  show "placement_signing_bytes r = placement_signing_bytes (?mk zero32)"
    unfolding r placement_signing_bytes_def using f f0 by simp
qed

lemma count_write_fields:
  fixes m :: u16 and epoch :: i64
  assumes "length hp = 32" "length (sg_public s) = 32" "ext_ok W" "n < 2 ^ 32"
    and "\<forall>d es. departing = Some (d, es) \<longrightarrow> length d = 32 \<and> d \<noteq> zero32"
  defines "r \<equiv> fst (count_write W s m hp epoch n departing)"
  shows "rec_kind r = IdentityCount" "unat (rec_count r) = n" "rec_handle_proof r = hp" "rec_witness r = sg_public s"
    "rec_departing r = map_option fst departing" "rec_epoch r = epoch"
    "rec_eggs_ptr r = eggs_ptr W (snd (count_write W s m hp epoch n departing))"
    "count_signing_bytes r = count_signing_bytes (new_identity_count hp (of_nat n) epoch (sg_public s) (map_option fst departing) zero32)"
proof -
  let ?mk = "new_identity_count hp (of_nat n) epoch (sg_public s) (map_option fst departing)"
  let ?b = "snd (count_write W s m hp epoch n departing)"
  have r: "r = ?mk (eggs_ptr W ?b)" by (simp add: r_def count_write_def Let_def)
  have e: "length (eggs_ptr W ?b) = 32" using assms(3) by (simp add: eggs_ptr_def ext_ok_def)
  have d: "\<forall>x. map_option fst departing = Some x \<longrightarrow> length x = 32 \<and> x \<noteq> zero32" using assms(5) by auto
  note f = identity_count_fields [OF assms(1,2) e d, of "of_nat n" epoch]
  note f0 = identity_count_fields [OF assms(1,2) length_zero32 d, of "of_nat n" epoch]
  show "rec_kind r = IdentityCount" "rec_handle_proof r = hp" "rec_witness r = sg_public s"
    "rec_departing r = map_option fst departing" "rec_epoch r = epoch" "rec_eggs_ptr r = eggs_ptr W ?b"
    using f by (simp_all add: r)
  show "unat (rec_count r) = n" using f assms(4) by (simp add: r unat_of_nat)
  show "count_signing_bytes r = count_signing_bytes (?mk zero32)"
    unfolding r count_signing_bytes_def using f f0 by simp
qed

lemma add_blob_sel [simp]: "rv_count (add_blob W v b) = rv_count v" "rv_pointers (add_blob W v b) = rv_pointers v"
  by (simp_all add: add_blob_def)

text \<open>The pointer writes of a plan, in one step: the written slots hold the new records, the others are
  as they were.\<close>

lemma enumerate_snoc: "enumerate 0 (l @ [x]) = enumerate 0 l @ [(length l, x)]"
  by (simp add: enumerate_append_eq)

lemma place_count_newer: "\<forall>c'. c = Some c' \<longrightarrow> sint (rec_epoch c') < sint (rec_epoch r) \<Longrightarrow> place_count c r = Some r"
  by (auto simp: place_count_def split: option.splits)

lemma place_pointer_newer:
  "i < length ps \<longrightarrow> sint (rec_epoch (ps ! i)) < sint (rec_epoch r) \<Longrightarrow>
    place_pointer ps i r = (ps @ replicate (Suc i - length ps) empty_record)[i := r]"
  by (auto simp: place_pointer_def)

lemma apply_pointers:
  assumes hp: "length hp = 32" "length (sg_public s) = 32" "ext_ok W" and new: "newer_epoch epoch v"
    and cur: "length current = length (rv_pointers v)"
  shows "length l < 2 ^ 32 \<Longrightarrow> (\<forall>d \<in> set l. length d = 32) \<Longrightarrow>
     (let v' = foldl (store_write W) v (map (pointer_write W s m hp epoch) (filter (\<lambda>(i, d). slot_get current i \<noteq> Some d) (enumerate 0 l)))
      in rv_count v' = rv_count v \<and> length (rv_pointers v') = max (length (rv_pointers v)) (length l) \<and>
          (\<forall>j < length (rv_pointers v'). rv_pointers v' ! j =
             (if j < length l \<and> slot_get current j \<noteq> Some (l ! j) then fst (pointer_write W s m hp epoch (j, l ! j))
              else rv_pointers v ! j)))"
proof (induction l rule: rev_induct)
  case Nil
  then show ?case by simp
next
  case (snoc x l)
  let ?w = "\<lambda>l. map (pointer_write W s m hp epoch) (filter (\<lambda>(i, d). slot_get current i \<noteq> Some d) (enumerate 0 l))"
  let ?v = "foldl (store_write W) v (?w l)"
  have len: "length l < 2 ^ 32" "\<forall>d \<in> set l. length d = 32" "length x = 32" using snoc.prems by auto
  note IH = snoc.IH [OF len(1,2), unfolded Let_def]
  show ?case
  proof (cases "slot_get current (length l) = Some x")
    case True
    then have "?w (l @ [x]) = ?w l" by (simp add: enumerate_snoc)
    moreover have "length l < length current" using True by (simp add: slot_get_def split: if_splits)
    ultimately show ?thesis using IH True cur unfolding Let_def by (auto simp: nth_append max_def less_Suc_eq)
  next
    case False
    obtain r b where w: "pointer_write W s m hp epoch (length l, x) = (r, b)" by fastforce
    note f = pointer_write_fields [OF hp(1) len(3) hp(2,3) len(1), of m epoch, unfolded w fst_conv snd_conv]
    have "sint (rec_epoch (rv_pointers ?v ! length l)) < sint (rec_epoch r)" if lt: "length l < length (rv_pointers ?v)"
    proof -
      have "length l < length (rv_pointers v)" using lt IH by simp
      moreover have "rv_pointers ?v ! length l = rv_pointers v ! length l" using lt IH by simp
      ultimately show ?thesis using new f(7) by (simp add: newer_epoch_def)
    qed
    then have place: "place_pointer (rv_pointers ?v) (length l) r =
        (rv_pointers ?v @ replicate (Suc (length l) - length (rv_pointers ?v)) empty_record)[length l := r]"
      by (simp add: place_pointer_newer)
    have "?w (l @ [x]) = ?w l @ [(r, b)]" using False by (simp add: enumerate_snoc w)
    then have v': "foldl (store_write W) v (?w (l @ [x])) = (add_blob W ?v b)
        \<lparr>rv_pointers := (rv_pointers ?v @ replicate (Suc (length l) - length (rv_pointers ?v)) empty_record)[length l := r]\<rparr>"
      by (simp add: store_write_def Let_def f(1,2) place)
    show ?thesis
      unfolding Let_def v' using IH False w
      by (auto simp: nth_append nth_list_update max_def less_Suc_eq)
  qed
qed

lemma length_pop_swap: "length (pop_swap members l i) \<le> length l"
proof (induction members l i rule: pop_swap.induct)
  case (1 members l i)
  then show ?case by (subst pop_swap.simps) auto
qed

lemma length_append_new: "length (append_new l members) \<le> length l + length members"
  unfolding append_new_def by (induction members rule: rev_induct) auto

lemma length_planned_list: "length (planned_list current members) \<le> length current + length members"
  using length_append_new [of "pop_swap members current 0" members] length_pop_swap [of members current 0]
  by (simp add: planned_list_def)

text \<open>What the caller of \<open>registry_plan\<close> supplies, at its Rust types.\<close>

definition plan_args :: "ext \<Rightarrow> signer \<Rightarrow> bytes \<Rightarrow> bytes list \<Rightarrow> registry_view \<Rightarrow> (bytes \<times> egg list) option \<Rightarrow> bool" where
  "plan_args W s hp members v departing \<longleftrightarrow>
     ext_ok W \<and> length hp = 32 \<and> length (sg_public s) = 32 \<and> (\<forall>d \<in> set members. length d = 32) \<and>
     length (rv_pointers v) + length members < 2 ^ 32 \<and>
     (\<forall>d es. departing = Some (d, es) \<longrightarrow> length d = 32 \<and> d \<noteq> zero32)"

lemma plan_applied:
  fixes m :: u16 and epoch :: i64
  assumes a: "plan_args W s hp members v departing" and new: "newer_epoch epoch v"
  defines "l \<equiv> planned_list (view_devices v) members"
    and "v' \<equiv> store_plan W v (registry_plan W s m hp members v epoch departing)"
  shows "length (rv_pointers v') = length l"
    "j < length l \<Longrightarrow> rv_pointers v' ! j =
       (if slot_get (view_devices v) j \<noteq> Some (l ! j) then fst (pointer_write W s m hp epoch (j, l ! j)) else rv_pointers v ! j)"
    "\<exists>c. rv_count v' = Some c \<and> unat (rec_count c) = length l \<and>
       (c = fst (count_write W s m hp epoch (length l) departing) \<and>
          count_write W s m hp epoch (length l) departing \<in> set (registry_plan W s m hp members v epoch departing)
        \<or> rv_count v = Some c \<and> v' = v\<lparr>rv_pointers := take (length l) (rv_pointers v)\<rparr>)"
proof -
  let ?cur = "view_devices v"
  let ?out = "map (pointer_write W s m hp epoch) (filter (\<lambda>(i, d). slot_get ?cur i \<noteq> Some d) (enumerate 0 l))"
  let ?v = "foldl (store_write W) v ?out"
  have args: "ext_ok W" "length hp = 32" "length (sg_public s) = 32" "\<forall>d es. departing = Some (d, es) \<longrightarrow> length d = 32 \<and> d \<noteq> zero32"
    using a by (simp_all add: plan_args_def)
  have cur: "length ?cur = length (rv_pointers v)" by (simp add: view_devices_def)
  have len: "length l < 2 ^ 32" using length_planned_list [of ?cur members] a cur by (simp add: l_def plan_args_def)
  have dev: "\<forall>d \<in> set l. length d = 32" using a by (simp add: l_def set_planned_list plan_args_def)
  note ap = apply_pointers [OF args(2,3,1) new cur len dev, of m, unfolded Let_def]
  have ps: "length (rv_pointers ?v) = max (length (rv_pointers v)) (length l)"
    "\<And>j. j < length l \<Longrightarrow> rv_pointers ?v ! j =
       (if slot_get ?cur j \<noteq> Some (l ! j) then fst (pointer_write W s m hp epoch (j, l ! j)) else rv_pointers v ! j)"
    using ap by auto
  let ?stale = "case rv_count v of Some c \<Rightarrow> unat (rec_count c) \<noteq> length l | None \<Rightarrow> True"
  have plan: "registry_plan W s m hp members v epoch departing =
      (if ?out \<noteq> [] \<or> ?stale then ?out @ [count_write W s m hp epoch (length l) departing] else ?out)"
    unfolding registry_plan_def Let_def l_def by (rule refl)
  have main: "length (rv_pointers v') = length l \<and>
    (\<forall>j < length l. rv_pointers v' ! j =
       (if slot_get ?cur j \<noteq> Some (l ! j) then fst (pointer_write W s m hp epoch (j, l ! j)) else rv_pointers v ! j)) \<and>
    (\<exists>c. rv_count v' = Some c \<and> unat (rec_count c) = length l \<and>
       (c = fst (count_write W s m hp epoch (length l) departing) \<and>
          count_write W s m hp epoch (length l) departing \<in> set (registry_plan W s m hp members v epoch departing)
        \<or> rv_count v = Some c \<and> v' = v\<lparr>rv_pointers := take (length l) (rv_pointers v)\<rparr>))"
  proof (cases "?out \<noteq> [] \<or> ?stale")
    case True
    obtain r b where cw: "count_write W s m hp epoch (length l) departing = (r, b)" by fastforce
    note f = count_write_fields [OF args(2,3,1) len args(4), of m epoch, unfolded cw fst_conv snd_conv]
    have "rv_count ?v = rv_count v" using ap by simp
    then have "place_count (rv_count ?v) r = Some r"
      using new f(6) by (intro place_count_newer) (simp add: newer_epoch_def)
    then have "foldl (store_write W) v (registry_plan W s m hp members v epoch departing) = (add_blob W ?v b)\<lparr>rv_count := Some r\<rparr>"
      unfolding plan if_P [OF True] cw by (simp add: store_write_def Let_def f(1))
    then have "v' = (add_blob W ?v b)\<lparr>rv_count := Some r, rv_pointers := take (length l) (rv_pointers ?v)\<rparr>"
      by (simp add: v'_def store_plan_def f(2))
    moreover have "(r, b) \<in> set (registry_plan W s m hp members v epoch departing)"
      unfolding plan if_P [OF True] cw by simp
    ultimately show ?thesis using ps f(2) cw by simp
  next
    case False
    then obtain c where c: "rv_count v = Some c" "unat (rec_count c) = length l" by (auto split: option.splits)
    have "foldl (store_write W) v (registry_plan W s m hp members v epoch departing) = v"
      unfolding plan if_not_P [OF False] using False by simp
    then have v': "v' = v\<lparr>rv_pointers := take (length l) (rv_pointers v)\<rparr>"
      using c by (simp add: v'_def store_plan_def)
    have "?v = v" using False by simp
    then have "length l \<le> length (rv_pointers v)" "\<And>j. j < length l \<Longrightarrow> rv_pointers v ! j =
       (if slot_get ?cur j \<noteq> Some (l ! j) then fst (pointer_write W s m hp epoch (j, l ! j)) else rv_pointers v ! j)"
      using ps by (simp_all only:) (simp add: max_def split: if_splits)?
    then show ?thesis using c v' by simp
  qed
  show "length (rv_pointers v') = length l" using main by blast
  show "j < length l \<Longrightarrow> rv_pointers v' ! j =
       (if slot_get ?cur j \<noteq> Some (l ! j) then fst (pointer_write W s m hp epoch (j, l ! j)) else rv_pointers v ! j)"
    using main by blast
  show "\<exists>c. rv_count v' = Some c \<and> unat (rec_count c) = length l \<and>
       (c = fst (count_write W s m hp epoch (length l) departing) \<and>
          count_write W s m hp epoch (length l) departing \<in> set (registry_plan W s m hp members v epoch departing)
        \<or> rv_count v = Some c \<and> v' = v\<lparr>rv_pointers := take (length l) (rv_pointers v)\<rparr>)"
    using main by blast
qed

lemma plan_devices:
  fixes m :: u16 and epoch :: i64
  assumes a: "plan_args W s hp members v departing" and new: "newer_epoch epoch v"
  shows "view_devices (store_plan W v (registry_plan W s m hp members v epoch departing)) =
    planned_list (view_devices v) members"
proof (rule nth_equalityI)
  let ?l = "planned_list (view_devices v) members"
  note p = plan_applied [OF a new, where m = m]
  show "length (view_devices (store_plan W v (registry_plan W s m hp members v epoch departing))) = length ?l"
    using p(1) by (simp add: view_devices_def)
  fix j assume "j < length (view_devices (store_plan W v (registry_plan W s m hp members v epoch departing)))"
  then have j: "j < length ?l" using p(1) by (simp add: view_devices_def)
  have len: "length ?l < 2 ^ 32" "length (?l ! j) = 32"
    using length_planned_list [of "view_devices v" members] a nth_mem [OF j]
    by (auto simp: view_devices_def plan_args_def set_planned_list)
  have "rec_device (fst (pointer_write W s m hp epoch (j, ?l ! j))) = ?l ! j"
    using pointer_write_fields(3) [of hp "?l ! j" s W j] a j len by (simp add: plan_args_def)
  moreover have "rec_device (rv_pointers v ! j) = ?l ! j" if "slot_get (view_devices v) j = Some (?l ! j)"
    using that by (simp add: slot_get_def view_devices_def split: if_splits)
  ultimately show "view_devices (store_plan W v (registry_plan W s m hp members v epoch departing)) ! j = ?l ! j"
    using p(1,2) j by (simp add: view_devices_def)
qed

section \<open>The written records verify\<close>

text \<open>A signer whose eggs a reader accepts at its policy, and which fit a blob.\<close>

definition eggs_fit :: "ext \<Rightarrow> egg list \<Rightarrow> bool" where
  "eggs_fit W es \<longleftrightarrow> blob_list_ok W es \<and> length (eggs_to_bytes W es) \<le> 16000"

definition meets_policy :: "ext \<Rightarrow> egg_policy \<Rightarrow> bytes \<Rightarrow> bytes \<Rightarrow> egg list \<Rightarrow> bool" where
  "meets_policy W policy sg msg es \<longleftrightarrow> eggs_fit W es \<and>
     verify_eggs_declared W es (fst (judge W policy sg)) msg (snd (judge W policy sg))"

lemma length_eggs_blob_part: "eggs_fit W es \<Longrightarrow> length (eggs_blob_part W es) \<le> 16002"
  by (simp add: eggs_blob_part_def Let_def eggs_fit_def)

lemma eggs_fit_Nil [simp]: "eggs_fit W [] \<longleftrightarrow> length (eggs_to_bytes W []) \<le> 16000"
  by (simp add: eggs_fit_def blob_list_ok_def wf_eggs_def)

lemma verify_list_minted:
  assumes "ext_ok W" "list_all (blob_list_ok W) ls" "idx < length ls" "meets_policy W policy sg msg (ls ! idx)"
    and "rec_eggs_ptr r = eggs_ptr W (eggs_blob W ls)" "length (eggs_blob W ls) \<le> EGGS_BLOB_MAX" "n = length ls"
  shows "verify_list W r (eggs_blob W ls) idx n sg msg policy"
  using assms eggs_blob_roundtrip [OF assms(1,2)]
  by (simp add: verify_list_def meets_policy_def case_prod_unfold Let_def)

lemma verify_list_ptr: "verify_list W r blob idx n sg msg policy \<Longrightarrow> eggs_ptr W blob = rec_eggs_ptr r"
  by (simp add: verify_list_def split: if_splits)

lemma pointer_write_verifies:
  fixes m :: u16 and epoch :: i64
  assumes "length hp = 32" "length dev = 32" "length (sg_public s) = 32" "ext_ok W" "i < 2 ^ 32"
    and ok: "\<And>msg. meets_policy W policy (sg_public s) msg (sg_eggs s msg m)"
  shows "verify_placement_with W (fst (pointer_write W s m hp epoch (i, dev))) (snd (pointer_write W s m hp epoch (i, dev))) policy"
    "length (snd (pointer_write W s m hp epoch (i, dev))) \<le> EGGS_BLOB_MAX"
proof -
  let ?w = "pointer_write W s m hp epoch (i, dev)"
  let ?msg = "placement_signing_bytes (new_device_pointer hp (of_nat i) dev epoch (sg_public s) zero32)"
  note f = pointer_write_fields [OF assms(1-5), of m epoch]
  have b: "snd ?w = eggs_blob W [sg_eggs s ?msg m]" by (simp add: pointer_write_def Let_def)
  have fit: "eggs_fit W (sg_eggs s ?msg m)" using ok by (simp add: meets_policy_def)
  show len: "length (snd ?w) \<le> EGGS_BLOB_MAX"
    using length_eggs_blob_part [OF fit] unfolding b by (simp add: eggs_blob_def EGGS_BLOB_MAX_def)
  have "verify_list W (fst ?w) (snd ?w) 0 1 (sg_public s) ?msg policy"
    unfolding b by (rule verify_list_minted [OF assms(4)]) (use fit ok f len b in \<open>simp_all add: eggs_fit_def\<close>)
  then show "verify_placement_with W (fst ?w) (snd ?w) policy" using f by (simp add: verify_placement_with_def)
qed

definition departing_ok :: "ext \<Rightarrow> egg_policy \<Rightarrow> bytes \<Rightarrow> i64 \<Rightarrow> (bytes \<times> egg list) option \<Rightarrow> bool" where
  "departing_ok W policy hp epoch departing \<longleftrightarrow>
     (\<forall>d es. departing = Some (d, es) \<longrightarrow> meets_policy W policy d (departure_signing_bytes hp d epoch) es)"

lemma count_write_verifies:
  fixes m :: u16 and epoch :: i64
  assumes "length hp = 32" "length (sg_public s) = 32" "ext_ok W" "n < 2 ^ 32"
    and dep: "\<forall>d es. departing = Some (d, es) \<longrightarrow> length d = 32 \<and> d \<noteq> zero32" "departing_ok W policy hp epoch departing"
    and ok: "\<And>msg. meets_policy W policy (sg_public s) msg (sg_eggs s msg m)"
  shows "verify_count_with W (fst (count_write W s m hp epoch n departing)) (snd (count_write W s m hp epoch n departing)) policy"
    "verify_departure_with W (fst (count_write W s m hp epoch n departing)) (snd (count_write W s m hp epoch n departing)) policy"
    "length (snd (count_write W s m hp epoch n departing)) \<le> EGGS_BLOB_MAX"
proof -
  let ?w = "count_write W s m hp epoch n departing"
  let ?es = "case departing of Some (_, e) \<Rightarrow> e | None \<Rightarrow> []"
  let ?msg = "count_signing_bytes (new_identity_count hp (of_nat n) epoch (sg_public s) (map_option fst departing) zero32)"
  note f = count_write_fields [OF assms(1-5), of m epoch]
  have b: "snd ?w = eggs_blob W [sg_eggs s ?msg m, ?es]" by (simp add: count_write_def Let_def)
  have fit: "eggs_fit W (sg_eggs s ?msg m)" using ok by (simp add: meets_policy_def)
  have part: "blob_list_ok W ?es \<and> length (eggs_blob_part W ?es) \<le> 16002"
  proof (cases departing)
    case None
    then show ?thesis by (simp add: blob_list_ok_def wf_eggs_def eggs_blob_part_def)
  next
    case (Some p)
    then have "eggs_fit W ?es" using dep(2) by (cases p) (simp add: departing_ok_def meets_policy_def)
    then show ?thesis using length_eggs_blob_part by (simp add: eggs_fit_def)
  qed
  show len: "length (snd ?w) \<le> EGGS_BLOB_MAX"
    using length_eggs_blob_part [OF fit] part unfolding b by (simp add: eggs_blob_def EGGS_BLOB_MAX_def)
  have "verify_list W (fst ?w) (snd ?w) 0 2 (sg_public s) ?msg policy"
    unfolding b by (rule verify_list_minted [OF assms(3)]) (use fit ok f len b part in \<open>simp_all add: eggs_fit_def\<close>)
  then show "verify_count_with W (fst ?w) (snd ?w) policy" using f by (simp add: verify_count_with_def)
  show "verify_departure_with W (fst ?w) (snd ?w) policy"
  proof (cases departing)
    case None
    then show ?thesis using f by (simp add: verify_departure_with_def)
  next
    case (Some p)
    then obtain d es where d: "departing = Some (d, es)" by (cases p) simp
    then have "verify_list W (fst ?w) (snd ?w) 1 2 d (departure_signing_bytes hp d epoch) policy"
      unfolding b using dep(2)
      by (intro verify_list_minted [OF assms(3)]) (use fit f len b part in \<open>simp_all add: eggs_fit_def departing_ok_def\<close>)
    then show ?thesis using f d by (simp add: verify_departure_with_def)
  qed
qed

section \<open>Blobs stay filed\<close>

lemma store_write_blobs: "rv_blobs (store_write W v w) = rv_blobs (add_blob W v (snd w))"
  by (cases w) (simp add: store_write_def Let_def split: record_kind.split)

lemma blobs_keep:
  assumes "inj_on (eggs_ptr W) S" "snd ` set ws \<subseteq> S" "b \<in> S" "rv_blobs v (eggs_ptr W b) = Some b"
  shows "rv_blobs (foldl (store_write W) v ws) (eggs_ptr W b) = Some b"
  using assms(2,4)
proof (induction ws arbitrary: v)
  case (Cons w ws)
  have "rv_blobs (store_write W v w) (eggs_ptr W b) = Some b"
    using Cons.prems assms(1,3) by (auto simp: store_write_blobs add_blob_def inj_on_eq_iff)
  then show ?case using Cons by simp
qed simp

lemma blobs_added:
  assumes "inj_on (eggs_ptr W) S" "snd ` set ws \<subseteq> S" "w \<in> set ws" "length (snd w) \<le> EGGS_BLOB_MAX"
  shows "rv_blobs (foldl (store_write W) v ws) (eggs_ptr W (snd w)) = Some (snd w)"
proof -
  obtain us vs where ws: "ws = us @ w # vs" using assms(3) by (auto dest: split_list)
  have "rv_blobs (store_write W (foldl (store_write W) v us) w) (eggs_ptr W (snd w)) = Some (snd w)"
    using assms(4) by (simp add: store_write_blobs add_blob_def)
  then show ?thesis using blobs_keep [OF assms(1), of vs "snd w"] assms(2) ws by auto
qed

lemma verify_pointers_nth:
  "verify_pointers W v hp policy i ps \<longleftrightarrow>
    (\<forall>j < length ps. \<exists>blob. view_blob v (ps ! j) = Some blob \<and> verify_placement_with W (ps ! j) blob policy \<and>
       rec_handle_proof (ps ! j) = hp \<and> unat (rec_index (ps ! j)) = i + j)"
proof (induction ps arbitrary: i)
  case (Cons p ps)
  then show ?case by (auto simp: nth_Cons split: option.splits nat.splits)
qed simp

text \<open>No two of the blobs at hand have the same content address.\<close>

definition no_blob_collision :: "ext \<Rightarrow> registry_view \<Rightarrow> (bytes \<times> bytes) list \<Rightarrow> bool" where
  "no_blob_collision W v plan \<longleftrightarrow> inj_on (eggs_ptr W) (snd ` set plan \<union> ran (rv_blobs v))"

lemma store_plan_blobs: "rv_blobs (store_plan W v plan) = rv_blobs (foldl (store_write W) v plan)"
  by (simp add: store_plan_def Let_def)

lemma plan_blob_kept:
  assumes "no_blob_collision W v plan" "rv_blobs v (rec_eggs_ptr r) = Some b" "eggs_ptr W b = rec_eggs_ptr r"
  shows "view_blob (store_plan W v plan) r = Some b"
  using blobs_keep [OF assms(1) [unfolded no_blob_collision_def], of plan b v] assms(2,3)
  by (auto simp: view_blob_def store_plan_blobs ranI)

lemma plan_blob_added:
  assumes "no_blob_collision W v plan" "w \<in> set plan" "length (snd w) \<le> EGGS_BLOB_MAX" "rec_eggs_ptr (fst w) = eggs_ptr W (snd w)"
  shows "view_blob (store_plan W v plan) (fst w) = Some (snd w)"
  using blobs_added [OF assms(1) [unfolded no_blob_collision_def], of plan w v] assms(2-4)
  by (auto simp: view_blob_def store_plan_blobs)

lemma registry_verifyD:
  assumes "registry_verify_with W v hp policy"
  shows "j < length (rv_pointers v) \<Longrightarrow> \<exists>blob. view_blob v (rv_pointers v ! j) = Some blob \<and>
      verify_placement_with W (rv_pointers v ! j) blob policy \<and> rec_handle_proof (rv_pointers v ! j) = hp \<and>
      unat (rec_index (rv_pointers v ! j)) = j"
    and "rv_count v = Some c \<Longrightarrow> \<exists>blob. view_blob v c = Some blob \<and> verify_count_with W c blob policy \<and>
      verify_departure_with W c blob policy \<and> rec_handle_proof c = hp \<and> unat (rec_count c) = length (rv_pointers v)"
    and "rv_count v = None \<Longrightarrow> rv_pointers v = []"
  using assms unfolding registry_verify_with_def
  by (auto simp: verify_pointers_nth split: if_splits option.splits)

lemma registry_verifyI:
  assumes "\<And>j. j < length (rv_pointers v) \<Longrightarrow> \<exists>blob. view_blob v (rv_pointers v ! j) = Some blob \<and>
      verify_placement_with W (rv_pointers v ! j) blob policy \<and> rec_handle_proof (rv_pointers v ! j) = hp \<and>
      unat (rec_index (rv_pointers v ! j)) = j"
    and "rv_count v = Some c" "view_blob v c = Some blob" "verify_count_with W c blob policy"
      "verify_departure_with W c blob policy" "rec_handle_proof c = hp" "unat (rec_count c) = length (rv_pointers v)"
  shows "registry_verify_with W v hp policy"
  using assms unfolding registry_verify_with_def by (simp add: verify_pointers_nth)

lemma placement_ptr: "verify_placement_with W r blob policy \<Longrightarrow> eggs_ptr W blob = rec_eggs_ptr r"
  and count_ptr: "verify_count_with W r blob policy \<Longrightarrow> eggs_ptr W blob = rec_eggs_ptr r"
  by (auto simp: verify_placement_with_def verify_count_with_def dest: verify_list_ptr)

lemma plan_pointer_mem:
  assumes "j < length l" "l = planned_list (view_devices v) members" "slot_get (view_devices v) j \<noteq> Some (l ! j)"
  shows "pointer_write W s m hp epoch (j, l ! j) \<in> set (registry_plan W s m hp members v epoch departing)"
proof -
  have "(j, l ! j) \<in> set (filter (\<lambda>(i, d). slot_get (view_devices v) i \<noteq> Some d) (enumerate 0 l))"
    using assms(1,3) by (simp add: in_set_enumerate_eq)
  then have "pointer_write W s m hp epoch (j, l ! j) \<in>
      set (map (pointer_write W s m hp epoch) (filter (\<lambda>(i, d). slot_get (view_devices v) i \<noteq> Some d) (enumerate 0 l)))"
    unfolding set_map by (rule imageI)
  moreover have "w \<in> set (if out \<noteq> [] \<or> st then out @ [c] else out)" if "w \<in> set out"
    for w c :: "bytes \<times> bytes" and out st using that by auto
  ultimately show ?thesis unfolding registry_plan_def Let_def assms(2) [symmetric] by blast
qed

lemma plan_verifies:
  fixes m :: u16 and epoch :: i64
  assumes a: "plan_args W s hp members v departing" and new: "newer_epoch epoch v" and v: "registry_verify_with W v hp policy"
    and ok: "\<And>msg. meets_policy W policy (sg_public s) msg (sg_eggs s msg m)" and dep: "departing_ok W policy hp epoch departing"
    and nc: "no_blob_collision W v (registry_plan W s m hp members v epoch departing)"
  shows "registry_verify_with W (store_plan W v (registry_plan W s m hp members v epoch departing)) hp policy"
proof -
  let ?plan = "registry_plan W s m hp members v epoch departing"
  let ?v = "store_plan W v ?plan" and ?cur = "view_devices v"
  let ?l = "planned_list ?cur members"
  note p = plan_applied [OF a new, where m = m]
  have args: "ext_ok W" "length hp = 32" "length (sg_public s) = 32" "\<forall>d es. departing = Some (d, es) \<longrightarrow> length d = 32 \<and> d \<noteq> zero32"
    using a by (simp_all add: plan_args_def)
  have len: "length ?l < 2 ^ 32"
    using length_planned_list [of ?cur members] a by (simp add: plan_args_def view_devices_def)
  have ptr: "\<exists>blob. view_blob ?v (rv_pointers ?v ! j) = Some blob \<and> verify_placement_with W (rv_pointers ?v ! j) blob policy \<and>
      rec_handle_proof (rv_pointers ?v ! j) = hp \<and> unat (rec_index (rv_pointers ?v ! j)) = j"
    if "j < length (rv_pointers ?v)" for j
  proof -
    have j: "j < length ?l" "j < 2 ^ 32" using that p(1) len by simp_all
    show ?thesis
    proof (cases "slot_get ?cur j = Some (?l ! j)")
      case False
      let ?w = "pointer_write W s m hp epoch (j, ?l ! j)"
      have d: "length (?l ! j) = 32" using a nth_mem [OF j(1)] by (simp add: plan_args_def set_planned_list)
      have "?w \<in> set ?plan" by (rule plan_pointer_mem [OF j(1) refl False])
      moreover have "rv_pointers ?v ! j = fst ?w" using p(2) [OF j(1)] False by simp
      ultimately show ?thesis
        using plan_blob_added [OF nc, of ?w] pointer_write_verifies [OF args(2) d args(3,1) j(2) ok, of epoch]
          pointer_write_fields [OF args(2) d args(3,1) j(2), of m epoch] by auto
    next
      case True
      then have jc: "j < length (rv_pointers v)" by (simp add: slot_get_def view_devices_def split: if_splits)
      have "rv_pointers ?v ! j = rv_pointers v ! j" using p(2) [OF j(1)] True by simp
      then show ?thesis
        using registry_verifyD(1) [OF v jc] plan_blob_kept [OF nc] placement_ptr by (metis view_blob_def)
    qed
  qed
  obtain c where c: "rv_count ?v = Some c" "unat (rec_count c) = length ?l"
    "c = fst (count_write W s m hp epoch (length ?l) departing) \<and> count_write W s m hp epoch (length ?l) departing \<in> set ?plan
     \<or> rv_count v = Some c" using p(3) by blast
  have "\<exists>blob. view_blob ?v c = Some blob \<and> verify_count_with W c blob policy \<and> verify_departure_with W c blob policy \<and>
      rec_handle_proof c = hp"
    using c(3)
  proof
    assume new: "c = fst (count_write W s m hp epoch (length ?l) departing) \<and> count_write W s m hp epoch (length ?l) departing \<in> set ?plan"
    let ?w = "count_write W s m hp epoch (length ?l) departing"
    show ?thesis
      using new plan_blob_added [OF nc, of ?w] count_write_verifies [OF args(2,3,1) len args(4) dep ok]
        count_write_fields [OF args(2,3,1) len args(4), of m epoch] by auto
  next
    assume "rv_count v = Some c"
    then show ?thesis
      using registry_verifyD(2) [OF v] plan_blob_kept [OF nc] count_ptr by (metis view_blob_def)
  qed
  then show ?thesis using registry_verifyI [OF ptr c(1)] c(2) p(1) by auto
qed

lemma plan_empty_iff:
  assumes v: "registry_verify_with W v hp policy"
  shows "registry_plan W s m hp members v epoch departing = [] \<longleftrightarrow>
    rv_count v \<noteq> None \<and> set (view_devices v) = set members"
proof -
  let ?cur = "view_devices v"
  let ?l = "planned_list ?cur members"
  have none: "filter (\<lambda>(i, d). slot_get ?cur i \<noteq> Some d) (enumerate 0 ?l) = [] \<longleftrightarrow> (\<forall>i < length ?l. slot_get ?cur i = Some (?l ! i))"
    by (auto simp: filter_empty_conv in_set_enumerate_eq)
  have "registry_plan W s m hp members v epoch departing = [] \<longleftrightarrow>
      (\<forall>i < length ?l. slot_get ?cur i = Some (?l ! i)) \<and> (\<exists>c. rv_count v = Some c \<and> unat (rec_count c) = length ?l)"
    unfolding none [symmetric] by (auto simp: registry_plan_def Let_def split: option.splits)
  also have "\<dots> \<longleftrightarrow> rv_count v \<noteq> None \<and> ?l = ?cur"
  proof (cases "rv_count v")
    case (Some c)
    then have n: "unat (rec_count c) = length ?cur" using registry_verifyD(2) [OF v Some] by (auto simp: view_devices_def)
    have "?l = ?cur" if "\<forall>i < length ?l. slot_get ?cur i = Some (?l ! i)" "length ?cur = length ?l"
      using that by (intro nth_equalityI) (auto simp: slot_get_def split: if_splits)
    moreover have "\<forall>i < length ?l. slot_get ?cur i = Some (?l ! i)" if "?l = ?cur"
      unfolding that by (simp add: slot_get_def)
    moreover have "length ?cur = length ?l" if "?l = ?cur" unfolding that ..
    ultimately show ?thesis unfolding Some using n by (metis option.distinct(1) option.inject)
  qed simp
  also have "?l = ?cur \<longleftrightarrow> set ?cur = set members"
    using planned_list_id [of ?cur members] set_planned_list [of ?cur members] by metis
  finally show ?thesis .
qed

end
