(* ===== verification/Registry_Props.thy ===== *)
theory Registry_Props
  imports Registry Demo_World
begin

text \<open>
  The properties of the registry projection, with a fresh registry for one device as the example.
\<close>

section \<open>Properties\<close>

text \<open>C29: \<open>registry_plan\<close> converges. The storage keeps the newest record of every key, and the caller passes
  an epoch newer than any stored. Then storing the plan leaves a registry that points at exactly the
  folded members, with the count in step; a slot that already held the right device keeps its record, so a
  plan writes only what differs. Every member has one slot exactly when none of them had two before: the
  plan drops slots only for the devices that left, so a member that racing writers left with two slots
  keeps both.\<close>

theorem registry_plan_converges:
  assumes "plan_args W s hp members v departing" "newer_epoch epoch v"
    and "v' = store_plan W v (registry_plan W s m hp members v epoch departing)"
  shows "set (view_devices v') = set members \<and>
     (distinct (view_devices v') \<longleftrightarrow> distinct (filter (\<lambda>d. d \<in> set members) (view_devices v))) \<and>
     (\<exists>c. rv_count v' = Some c \<and> unat (rec_count c) = length (rv_pointers v')) \<and>
     (\<forall>j < length (rv_pointers v'). slot_get (view_devices v) j = Some (view_devices v' ! j) \<longrightarrow>
        rv_pointers v' ! j = rv_pointers v ! j)"
proof -
  have d: "view_devices v' = planned_list (view_devices v) members"
    unfolding assms(3) by (rule plan_devices [OF assms(1,2)])
  note p = plan_applied [OF assms(1,2), where m = m, folded assms(3) d]
  show ?thesis
    using p by (auto simp: d set_planned_list distinct_planned_list)
qed

text \<open>What \<open>registry_plan\<close> writes verifies: if the stored registry verified under the reader's policy,
  the signer and a named leaver meet that policy, and no two blobs share a content address, then the
  registry after the plan verifies again, and any member that plans the same fold once more writes
  nothing.\<close>

theorem registry_plan_verifies:
  assumes "plan_args W s hp members v departing" "newer_epoch epoch v" "registry_verify_with W v hp policy"
    and "\<And>msg. meets_policy W policy (sg_public s) msg (sg_eggs s msg m)"
    and "departing_ok W policy hp epoch departing"
    and "no_blob_collision W v (registry_plan W s m hp members v epoch departing)"
    and "v' = store_plan W v (registry_plan W s m hp members v epoch departing)"
  shows "registry_verify_with W v' hp policy \<and> registry_plan W s2 m2 hp members v' epoch2 departing2 = []"
proof -
  have v': "registry_verify_with W v' hp policy" unfolding assms(7) by (rule plan_verifies [OF assms(1-6)])
  have "set (view_devices v') = set members"
    unfolding assms(7) plan_devices [OF assms(1,2)] set_planned_list ..
  moreover have "rv_count v' \<noteq> None"
    using plan_applied(3) [OF assms(1,2), where m = m, folded assms(7)] by auto
  ultimately show ?thesis using v' plan_empty_iff [OF v'] by blast
qed

text \<open>On a verified registry, \<open>registry_plan\<close> finds nothing to do exactly when there is a count and the
  devices pointed at are the folded members as a set. Two slots that point at the same device do not
  count as a difference, so duplicates that racing writers left behind are never repaired.\<close>

theorem registry_in_sync_as_sets:
  assumes "registry_verify_with W v hp policy"
  shows "registry_plan W s m hp members v epoch departing = [] \<longleftrightarrow>
    rv_count v \<noteq> None \<and> set (view_devices v) = set members"
  by (rule plan_empty_iff [OF assms])

section \<open>A fresh registry\<close>

lemma demo_eggs_fit: "eggs_fit demo_ext [\<lparr>egg_scheme = 0, egg_sig = demo_sig k m\<rparr>]"
  by (simp add: eggs_fit_def blob_list_ok_def wf_eggs_def demo_ext_def demo_eggs_to_bytes_def key_to_bytes_def)

lemma demo_device_eggs: "sg_eggs (demo_device b) msg 1 = [\<lparr>egg_scheme = 0, egg_sig = demo_sig (demo_seed b) msg\<rparr>]"
  by (simp add: demo_device_def keypair_signer_def demo_ext_def)

lemma demo_meets: "meets_policy demo_ext anchor_only (demo_seed b) msg (sg_eggs (demo_device b) msg 1)"
  using demo_eggs_fit
  by (simp add: meets_policy_def demo_device_eggs judge_def anchor_only_def verify_eggs_declared_def)
    (simp add: ed25519_only_def pubkey_def verify_egg_def verify_ed25519_def scheme_bit_def demo_ext_def MASK_BASE_def)

abbreviation demo_members :: "bytes list" where "demo_members \<equiv> [demo_seed 4]"

abbreviation demo_plan :: "(bytes \<times> bytes) list" where
  "demo_plan \<equiv> registry_plan demo_ext (demo_device 9) 1 (demo_seed 1) demo_members view_default 7 None"

lemma demo_plan_args: "plan_args demo_ext (demo_device 9) (demo_seed 1) demo_members view_default None"
  by (simp add: plan_args_def demo_ext_ok view_default_def)

lemma demo_newer: "newer_epoch e view_default"
  by (simp add: newer_epoch_def view_default_def)

lemma demo_plan_eq: "demo_plan =
   [pointer_write demo_ext (demo_device 9) 1 (demo_seed 1) 7 (0, demo_seed 4),
    count_write demo_ext (demo_device 9) 1 (demo_seed 1) 7 1 None]"
  by (simp add: registry_plan_def Let_def view_devices_def view_default_def planned_list_def pop_swap.simps [of _ "[]"]
      append_new_def slot_get_def)

lemma demo_placement_msg:
  "pad32 (placement_signing_bytes (new_device_pointer (demo_seed 1) i (demo_seed 4) e (demo_seed 9) zero32)) =
    ascii ''PHOTON_PB_PLACE_SIG_v2'' @ replicate 10 1"
  using device_pointer_fields [of "demo_seed 1" "demo_seed 4" "demo_seed 9" zero32 i e]
  by (simp add: placement_signing_bytes_def pad32_def) (simp add: demo_seed_def)

lemma demo_count_msg:
  "pad32 (count_signing_bytes (new_identity_count (demo_seed 1) n e (demo_seed 9) None zero32)) =
    ascii ''PHOTON_PB_COUNT_SIG_v2'' @ replicate 10 1"
  using identity_count_fields [of "demo_seed 1" "demo_seed 9" zero32 None n e]
  by (simp add: count_signing_bytes_def pad32_def) (simp add: demo_seed_def)

lemma u16_le_0: "u16_le 0 = [0, 0]"
  by (simp add: u16_le_def numeral_2_eq_2)

lemma demo_no_collision: "no_blob_collision demo_ext view_default demo_plan"
proof -
  have "eggs_ptr demo_ext (snd (pointer_write demo_ext (demo_device 9) 1 (demo_seed 1) 7 (0, demo_seed 4))) \<noteq>
      eggs_ptr demo_ext (snd (count_write demo_ext (demo_device 9) 1 (demo_seed 1) 7 1 None))"
    by (simp add: pointer_write_def count_write_def Let_def demo_device_eggs eggs_ptr_def eggs_blob_def eggs_blob_part_def
        demo_sig_def demo_placement_msg demo_count_msg)
      (simp add: demo_ext_def demo_hash_def demo_eggs_to_bytes_def key_to_bytes_def demo_seed_def ascii_def u16_le_0)
  moreover have "ran (rv_blobs view_default) = {}" by (simp add: view_default_def)
  ultimately show ?thesis unfolding no_blob_collision_def demo_plan_eq by auto
qed

lemma demo_default_verifies: "registry_verify_with demo_ext view_default hp anchor_only"
  by (simp add: registry_verify_with_def view_default_def)

theorem registry_plan_converges_witness:
  "set (view_devices (store_plan demo_ext view_default demo_plan)) = {demo_seed 4}"
  using registry_plan_converges [OF demo_plan_args demo_newer refl, of 1 7]
  by simp

theorem registry_plan_verifies_witness:
  "registry_verify_with demo_ext (store_plan demo_ext view_default demo_plan) (demo_seed 1) anchor_only"
  using registry_plan_verifies [OF demo_plan_args demo_newer demo_default_verifies, where m = 1 and epoch = 7] demo_meets [of 9] demo_no_collision
  by (simp add: departing_ok_def)

theorem registry_in_sync_as_sets_witness:
  "registry_plan demo_ext (demo_device 9) 1 (demo_seed 1) [] view_default 7 None \<noteq> []"
  using registry_in_sync_as_sets [OF demo_default_verifies, of "demo_device 9" 1 "demo_seed 1" "[]" 7 None]
  by (simp add: view_default_def)

text \<open>Two members, one of them in two slots: the state two racing writers leave when one pops the tail
  into a hole while the other appends.\<close>

lemma registry_keeps_duplicates:
  assumes "registry_verify_with W v hp policy" "rv_count v \<noteq> None" "view_devices v = [c, b, c, d]"
  shows "registry_plan W s m hp [b, c, d] v epoch departing = []"
  using plan_empty_iff [OF assms(1)] assms(2,3) by auto

end
