(* ===== verification/Fstate_Merge.thy ===== *)
theory Fstate_Merge
  imports Fgtw_Prelude "HOL-Library.Char_ord"
begin

text \<open>
  src/src/fstate.rs, the merge: the roster and settings entries, \<open>merge_by_key\<close> (stable sort, then a
  pass that keeps the newer of two neighbours with the same key) and the four merges built from it. A
  Rust \<open>String\<close> is its UTF-8 bytes, whose order is the order of \<open>str\<close>; a value of the settings
  (\<open>VsfType\<close>, third-party) is of any type \<open>'v\<close>, with its \<open>flatten\<close> as a parameter.
\<close>

section \<open>Entries\<close>

record roster_entry =
  re_handle_proof :: bytes
  re_handle_hash :: bytes
  re_public_identity :: bytes
  re_avatar_pin :: bytes
  re_added :: i64
  re_updated :: i64
  re_tombstone :: bool
  re_ceremony_owner :: bytes
  re_woven :: bool
  re_trust_level :: byte
  re_published_name :: bytes
  re_consent :: bool

record 'v setting_entry =
  se_key :: bytes
  se_value :: 'v
  se_updated :: i64
  se_tombstone :: bool

record 'v device_setting =
  ds_key :: bytes
  ds_value :: 'v
  ds_updated :: i64
  ds_linked :: bool

record 'v device_settings =
  dm_device :: bytes
  dm_updated :: i64
  dm_entries :: "'v device_setting list"

record 'v fleet_state =
  fs_roster :: "roster_entry list"
  fs_global :: "'v setting_entry list"
  fs_devices :: "'v device_settings list"

section \<open>The merges\<close>

fun dedup_newer :: "('a \<Rightarrow> 'k) \<Rightarrow> ('a \<Rightarrow> 'a \<Rightarrow> bool) \<Rightarrow> 'a list \<Rightarrow> 'a list" where
  "dedup_newer key newer (held # later # xs) =
     (if key later \<noteq> key held then held # dedup_newer key newer (later # xs)
      else dedup_newer key newer ((if newer later held then later else held) # xs))"
| "dedup_newer key newer xs = xs"

definition merge_by_key :: "('a \<Rightarrow> 'k::linorder) \<Rightarrow> ('a \<Rightarrow> 'a \<Rightarrow> bool) \<Rightarrow> 'a list \<Rightarrow> 'a list \<Rightarrow> 'a list" where
  "merge_by_key key newer a b = dedup_newer key newer (sort_key key (a @ b))"

definition roster_entry_canon ::
  "roster_entry \<Rightarrow> bytes \<times> bytes \<times> bytes \<times> int \<times> bytes \<times> bool \<times> byte \<times> bytes \<times> bool" where
  "roster_entry_canon e =
     (re_handle_hash e, re_public_identity e, re_avatar_pin e, sint (re_added e), re_ceremony_owner e, re_woven e,
      re_trust_level e, re_published_name e, re_consent e)"

definition roster_newer :: "roster_entry \<Rightarrow> roster_entry \<Rightarrow> bool" where
  "roster_newer e cur \<longleftrightarrow>
     sint (re_updated e) > sint (re_updated cur) \<or>
     (re_updated e = re_updated cur \<and>
        (re_tombstone e \<and> \<not> re_tombstone cur \<or>
         (re_tombstone e = re_tombstone cur \<and> roster_entry_canon e > roster_entry_canon cur)))"

definition merge_rosters :: "roster_entry list \<Rightarrow> roster_entry list \<Rightarrow> roster_entry list" where
  "merge_rosters = merge_by_key re_handle_proof roster_newer"

definition setting_newer :: "('v \<Rightarrow> bytes) \<Rightarrow> 'v setting_entry \<Rightarrow> 'v setting_entry \<Rightarrow> bool" where
  "setting_newer flatten e cur \<longleftrightarrow>
     sint (se_updated e) > sint (se_updated cur) \<or>
     (se_updated e = se_updated cur \<and>
        (se_tombstone e \<and> \<not> se_tombstone cur \<or>
         (se_tombstone e = se_tombstone cur \<and> flatten (se_value e) > flatten (se_value cur))))"

definition merge_global_settings ::
  "('v \<Rightarrow> bytes) \<Rightarrow> 'v setting_entry list \<Rightarrow> 'v setting_entry list \<Rightarrow> 'v setting_entry list" where
  "merge_global_settings flatten = merge_by_key se_key (setting_newer flatten)"

definition device_map_canon :: "('v \<Rightarrow> bytes) \<Rightarrow> 'v device_settings \<Rightarrow> (bytes \<times> bytes \<times> int \<times> bool) list" where
  "device_map_canon flatten d =
     sort (map (\<lambda>e. (ds_key e, flatten (ds_value e), sint (ds_updated e), ds_linked e)) (dm_entries d))"

definition device_newer :: "('v \<Rightarrow> bytes) \<Rightarrow> 'v device_settings \<Rightarrow> 'v device_settings \<Rightarrow> bool" where
  "device_newer flatten d cur \<longleftrightarrow>
     sint (dm_updated d) > sint (dm_updated cur) \<or>
     (dm_updated d = dm_updated cur \<and> device_map_canon flatten d > device_map_canon flatten cur)"

definition merge_device_settings ::
  "('v \<Rightarrow> bytes) \<Rightarrow> 'v device_settings list \<Rightarrow> 'v device_settings list \<Rightarrow> 'v device_settings list" where
  "merge_device_settings flatten = merge_by_key dm_device (device_newer flatten)"

definition merge_fstate :: "('v \<Rightarrow> bytes) \<Rightarrow> 'v fleet_state \<Rightarrow> 'v fleet_state \<Rightarrow> 'v fleet_state" where
  "merge_fstate flatten a b =
     \<lparr>fs_roster = merge_rosters (fs_roster a) (fs_roster b),
      fs_global = merge_global_settings flatten (fs_global a) (fs_global b),
      fs_devices = merge_device_settings flatten (fs_devices a) (fs_devices b)\<rparr>"

definition empty_fstate :: "'v fleet_state" where
  "empty_fstate = \<lparr>fs_roster = [], fs_global = [], fs_devices = []\<rparr>"

section \<open>Runs of merges\<close>

text \<open>How a state came about: held from the start, or merged from two states that came about somehow. Any
  order, grouping and repetition of merges, on one device or on several, is such a tree.\<close>

datatype 'a merges = Held 'a | Merged "'a merges" "'a merges"

fun outcome :: "('a \<Rightarrow> 'a \<Rightarrow> 'a) \<Rightarrow> 'a merges \<Rightarrow> 'a" where
  "outcome f (Held x) = x"
| "outcome f (Merged l r) = f (outcome f l) (outcome f r)"

definition held_rows :: "('s \<Rightarrow> 'a list) \<Rightarrow> 's merges \<Rightarrow> 'a set" where
  "held_rows rows m = (\<Union>s \<in> set_merges m. set (rows s))"

lemma held_rows_simps [simp]:
  "held_rows rows (Held s) = set (rows s)" "held_rows rows (Merged l r) = held_rows rows l \<union> held_rows rows r"
  by (simp_all add: held_rows_def)

lemma held_rows_map [simp]: "held_rows id (map_merges rows m) = held_rows rows m"
  by (simp add: held_rows_def merges.set_map)

lemma outcome_map: "(\<And>a b. g (f a b) = f' (g a) (g b)) \<Longrightarrow> g (outcome f m) = outcome f' (map_merges g m)"
  by (induction m) simp_all

section \<open>A merge by key and rank\<close>

text \<open>The three \<open>newer\<close> tests compare a rank: the clock first, then the tie-breaks. Of a family of copies
  the merge keeps, for each key, one of the highest rank.\<close>

definition best_copy :: "('a \<Rightarrow> 'k) \<Rightarrow> ('a \<Rightarrow> 'r::linorder) \<Rightarrow> 'a set \<Rightarrow> 'k \<Rightarrow> 'r \<Rightarrow> bool" where
  "best_copy key rank S k r \<longleftrightarrow> (\<exists>x \<in> S. key x = k \<and> rank x = r) \<and> (\<forall>y \<in> S. key y = k \<longrightarrow> rank y \<le> r)"

locale ranked_merge =
  fixes key :: "'a \<Rightarrow> 'k::linorder"
    and newer :: "'a \<Rightarrow> 'a \<Rightarrow> bool"
    and rank :: "'a \<Rightarrow> 'r::linorder"
  assumes newer_rank: "newer x y \<longleftrightarrow> rank y < rank x"
begin

lemma dedup_first_key: "\<exists>y ys. dedup_newer key newer (x # xs) = y # ys \<and> key y = key x"
proof (induction xs arbitrary: x)
  case (Cons z zs)
  show ?case using Cons [of "if newer z x then z else x"] by auto
qed simp

lemma dedup_spec:
  "sorted (map key xs) \<Longrightarrow>
     sorted_wrt (<) (map key (dedup_newer key newer xs)) \<and> set (dedup_newer key newer xs) \<subseteq> set xs \<and>
     (\<forall>x \<in> set xs. \<exists>d \<in> set (dedup_newer key newer xs). key d = key x \<and> rank x \<le> rank d)"
proof (induction "length xs" arbitrary: xs rule: less_induct)
  case less
  consider "xs = []" | x where "xs = [x]" | x y zs where "xs = x # y # zs" by (metis list.exhaust)
  then show ?case
  proof cases
    case (3 x y zs)
    show ?thesis
    proof (cases "key y = key x")
      case False
      let ?d = "dedup_newer key newer (y # zs)"
      have s: "sorted (map key (y # zs))" "key x < key y" using less.prems False 3 by (auto simp: less_le)
      have IH: "sorted_wrt (<) (map key ?d)" "set ?d \<subseteq> set (y # zs)"
        "\<forall>x \<in> set (y # zs). \<exists>d \<in> set ?d. key d = key x \<and> rank x \<le> rank d"
        using less.hyps [of "y # zs"] s(1) 3 by auto
      have "key x < key d" if "d \<in> set ?d" for d
      proof -
        have "key y \<le> key d" using that IH(2) s(1) by auto
        then show ?thesis using s(2) by simp
      qed
      then show ?thesis using IH 3 False by auto
    next
      case True
      let ?h = "if newer y x then y else x" and ?d = "dedup_newer key newer xs"
      have d: "?d = dedup_newer key newer (?h # zs)" using 3 True by simp
      have s: "sorted (map key (?h # zs))" using less.prems True 3 by auto
      have IH: "sorted_wrt (<) (map key ?d)" "set ?d \<subseteq> set (?h # zs)"
        "\<forall>x \<in> set (?h # zs). \<exists>d \<in> set ?d. key d = key x \<and> rank x \<le> rank d"
        unfolding d using less.hyps [of "?h # zs"] s 3 by auto
      obtain e where e: "e \<in> set ?d" "key e = key ?h" "rank ?h \<le> rank e" using IH(3) by auto
      have "key ?h = key x" "rank x \<le> rank ?h" "rank y \<le> rank ?h" using True newer_rank by auto
      then have "rank x \<le> rank e" "rank y \<le> rank e" "key e = key x" "key e = key y" using e True by auto
      then show ?thesis using IH e(1) 3 by (auto split: if_splits)
    qed
  qed auto
qed

lemma merge_sorted: "sorted_wrt (<) (map key (merge_by_key key newer a b))"
  using dedup_spec [of "sort_key key (a @ b)"] by (simp add: merge_by_key_def)

lemma merge_subset: "set (merge_by_key key newer a b) \<subseteq> set a \<union> set b"
  using dedup_spec [of "sort_key key (a @ b)"] by (simp add: merge_by_key_def)

lemma merge_covers:
  "x \<in> set a \<union> set b \<Longrightarrow> \<exists>d \<in> set (merge_by_key key newer a b). key d = key x \<and> rank x \<le> rank d"
  using dedup_spec [of "sort_key key (a @ b)"] by (auto simp: merge_by_key_def)

lemma merge_distinct_keys: "distinct (map key (merge_by_key key newer a b))"
  using merge_sorted by (simp add: strict_sorted_iff)

lemma merge_best:
  "(\<exists>d \<in> set (merge_by_key key newer a b). key d = k \<and> rank d = r) \<longleftrightarrow> best_copy key rank (set a \<union> set b) k r"
  (is "?L \<longleftrightarrow> ?R")
proof
  assume ?L
  then obtain d where d: "d \<in> set (merge_by_key key newer a b)" "key d = k" "rank d = r" by blast
  have "rank y \<le> r" if y: "y \<in> set a \<union> set b" "key y = k" for y
  proof -
    obtain e where e: "e \<in> set (merge_by_key key newer a b)" "key e = k" "rank y \<le> rank e"
      using merge_covers [OF y(1)] y(2) by auto
    then have "e = d" using d(1,2) merge_distinct_keys [of a b] by (auto simp: distinct_map dest: inj_onD)
    then show ?thesis using e(3) d(3) by simp
  qed
  then show ?R using d merge_subset [of a b] by (auto simp: best_copy_def)
next
  assume R: ?R
  then obtain x where x: "x \<in> set a \<union> set b" "key x = k" "rank x = r" by (auto simp: best_copy_def)
  then obtain d where d: "d \<in> set (merge_by_key key newer a b)" "key d = k" "r \<le> rank d"
    using merge_covers [OF x(1)] by auto
  moreover have "rank d \<le> r" using R d(1,2) merge_subset [of a b] by (auto simp: best_copy_def)
  ultimately show ?L by auto
qed

text \<open>So what a merge keeps is determined, key by key, by the copies it was given, in whatever order and
  grouping they arrived.\<close>

definition ranks :: "'a list \<Rightarrow> ('k \<times> 'r) list" where
  "ranks xs = map (\<lambda>x. (key x, rank x)) xs"

lemma ranks_merge_set: "set (ranks (merge_by_key key newer a b)) = {(k, r). best_copy key rank (set a \<union> set b) k r}"
  unfolding ranks_def merge_best [symmetric] by auto

lemma ranks_merge_sorted: "sorted_wrt (<) (ranks (merge_by_key key newer a b))"
proof -
  have "sorted_wrt (\<lambda>x y. key x < key y) (merge_by_key key newer a b)"
    using merge_sorted by (simp add: sorted_wrt_map)
  then show ?thesis unfolding ranks_def sorted_wrt_map by (rule sorted_wrt_mono_rel [rotated]) (simp add: less_prod_def)
qed

lemma ranks_eqI:
  assumes "\<And>k r. best_copy key rank (set a \<union> set b) k r \<longleftrightarrow> best_copy key rank (set c \<union> set d) k r"
  shows "ranks (merge_by_key key newer a b) = ranks (merge_by_key key newer c d)"
  by (rule strict_sorted_equal [OF ranks_merge_sorted ranks_merge_sorted]) (simp add: ranks_merge_set assms)

lemma best_merge_union:
  "best_copy key rank (set (merge_by_key key newer a b) \<union> C) k r \<longleftrightarrow> best_copy key rank (set a \<union> set b \<union> C) k r"
proof -
  let ?m = "set (merge_by_key key newer a b)" and ?u = "set a \<union> set b"
  have sub: "?m \<subseteq> ?u" by (rule merge_subset)
  have cov: "\<And>y. y \<in> ?u \<Longrightarrow> \<exists>d \<in> ?m. key d = key y \<and> rank y \<le> rank d" by (rule merge_covers)
  show ?thesis
  proof
    assume L: "best_copy key rank (?m \<union> C) k r"
    have "rank y \<le> r" if y: "y \<in> ?u \<union> C" "key y = k" for y
    proof (cases "y \<in> ?u")
      case True
      then obtain d where "d \<in> ?m" "key d = k" "rank y \<le> rank d" using cov y(2) by blast
      then show ?thesis using L by (auto simp: best_copy_def intro: order_trans)
    next
      case False
      then show ?thesis using L y by (auto simp: best_copy_def)
    qed
    then show "best_copy key rank (?u \<union> C) k r" using L sub by (auto simp: best_copy_def)
  next
    assume R: "best_copy key rank (?u \<union> C) k r"
    then obtain x where x: "x \<in> ?u \<union> C" "key x = k" "rank x = r" by (auto simp: best_copy_def)
    have ub: "\<forall>y \<in> ?m \<union> C. key y = k \<longrightarrow> rank y \<le> r" using R sub by (auto simp: best_copy_def)
    have "\<exists>x \<in> ?m \<union> C. key x = k \<and> rank x = r"
    proof (cases "x \<in> C")
      case False
      then obtain d where d: "d \<in> ?m" "key d = k" "r \<le> rank d" using cov x by blast
      then have "rank d = r" using ub by (auto intro: order_antisym)
      then show ?thesis using d by blast
    qed (use x in blast)
    then show "best_copy key rank (?m \<union> C) k r" using ub by (simp add: best_copy_def)
  qed
qed

lemma ranks_commute: "ranks (merge_by_key key newer a b) = ranks (merge_by_key key newer b a)"
  by (rule ranks_eqI) (simp add: Un_commute)

lemma ranks_assoc:
  "ranks (merge_by_key key newer (merge_by_key key newer a b) c) = ranks (merge_by_key key newer a (merge_by_key key newer b c))"
proof (rule ranks_eqI)
  fix k r
  have "best_copy key rank (set a \<union> set (merge_by_key key newer b c)) k r \<longleftrightarrow> best_copy key rank (set b \<union> set c \<union> set a) k r"
    using best_merge_union [of b c "set a" k r] by (simp add: Un_commute)
  then show "best_copy key rank (set (merge_by_key key newer a b) \<union> set c) k r \<longleftrightarrow>
      best_copy key rank (set a \<union> set (merge_by_key key newer b c)) k r"
    unfolding best_merge_union by (simp add: Un_ac)
qed

lemma ranks_absorb:
  "ranks (merge_by_key key newer (merge_by_key key newer a b) b) = ranks (merge_by_key key newer a b)"
proof (rule ranks_eqI)
  fix k r
  show "best_copy key rank (set (merge_by_key key newer a b) \<union> set b) k r \<longleftrightarrow> best_copy key rank (set a \<union> set b) k r"
    unfolding best_merge_union by (simp add: Un_assoc)
qed

text \<open>Whatever the run of merges, its outcome has the best copies of the rows it was given.\<close>

lemma best_outcome:
  "best_copy key rank (set (outcome (merge_by_key key newer) m) \<union> C) k r \<longleftrightarrow> best_copy key rank (held_rows id m \<union> C) k r"
proof (induction m arbitrary: C)
  case (Merged l r)
  let ?l = "set (outcome (merge_by_key key newer) l)" and ?r = "set (outcome (merge_by_key key newer) r)"
  have "?l \<union> ?r \<union> C = ?l \<union> (?r \<union> C)" and x: "held_rows id l \<union> (?r \<union> C) = ?r \<union> (held_rows id l \<union> C)"
    and y: "held_rows id (Merged l r) \<union> C = held_rows id r \<union> (held_rows id l \<union> C)" by auto
  then show ?case unfolding outcome.simps best_merge_union y Merged.IH(2) [symmetric] x [symmetric] Merged.IH(1) [symmetric] by simp
qed simp

lemma outcome_ranks:
  assumes "held_rows id (Merged l r) = held_rows id (Merged l' r')"
  shows "ranks (outcome (merge_by_key key newer) (Merged l r)) = ranks (outcome (merge_by_key key newer) (Merged l' r'))"
proof -
  let ?o = "\<lambda>m. set (outcome (merge_by_key key newer) m)"
  have "best_copy key rank (?o l \<union> ?o r) k x \<longleftrightarrow> best_copy key rank (held_rows id l \<union> held_rows id r) k x" for l r k x
    using best_outcome [of l "?o r" k x] best_outcome [of r "held_rows id l" k x] by (simp add: Un_commute)
  then show ?thesis using assms unfolding outcome.simps by (intro ranks_eqI) simp
qed

text \<open>Of each key the merge keeps exactly the row above all others, when no two rows of a key are level.\<close>

lemma merge_exact:
  assumes "inj (\<lambda>x. (key x, rank x))"
  shows "x \<in> set (merge_by_key key newer a b) \<longleftrightarrow>
    x \<in> set a \<union> set b \<and> (\<forall>y \<in> set a \<union> set b. key y = key x \<and> y \<noteq> x \<longrightarrow> rank y < rank x)"
proof -
  have level: "key y = key x \<Longrightarrow> rank y = rank x \<Longrightarrow> y = x" for x y using injD [OF assms, of y x] by simp
  have "x \<in> set (merge_by_key key newer a b) \<longleftrightarrow> best_copy key rank (set a \<union> set b) (key x) (rank x)"
    unfolding merge_best [symmetric] using level by blast
  also have "\<dots> \<longleftrightarrow> x \<in> set a \<union> set b \<and> (\<forall>y \<in> set a \<union> set b. key y = key x \<longrightarrow> rank y \<le> rank x)"
    unfolding best_copy_def using level by blast
  also have "\<dots> \<longleftrightarrow> x \<in> set a \<union> set b \<and> (\<forall>y \<in> set a \<union> set b. key y = key x \<and> y \<noteq> x \<longrightarrow> rank y < rank x)"
    using level by (auto simp: le_less)
  finally show ?thesis .
qed

text \<open>When key and rank together determine the copy, equal ranks are equal lists.\<close>

lemma ranks_inj: "inj (\<lambda>x. (key x, rank x)) \<Longrightarrow> ranks xs = ranks ys \<Longrightarrow> xs = ys"
  unfolding ranks_def by (rule inj_map_eq_map [THEN iffD1])

end

lemma sint_eq_iff: "sint a = sint b \<longleftrightarrow> a = (b :: i64)"
  by (auto intro: signed_word_eqI)

definition roster_rank :: "roster_entry \<Rightarrow> int \<times> bool \<times> bytes \<times> bytes \<times> bytes \<times> int \<times> bytes \<times> bool \<times> byte \<times> bytes \<times> bool" where
  "roster_rank e = (sint (re_updated e), re_tombstone e, roster_entry_canon e)"

definition setting_rank :: "('v \<Rightarrow> bytes) \<Rightarrow> 'v setting_entry \<Rightarrow> int \<times> bool \<times> bytes" where
  "setting_rank flatten e = (sint (se_updated e), se_tombstone e, flatten (se_value e))"

definition device_rank :: "('v \<Rightarrow> bytes) \<Rightarrow> 'v device_settings \<Rightarrow> int \<times> (bytes \<times> bytes \<times> int \<times> bool) list" where
  "device_rank flatten d = (sint (dm_updated d), device_map_canon flatten d)"

interpretation rosters: ranked_merge re_handle_proof roster_newer roster_rank
  by unfold_locales (auto simp: roster_newer_def roster_rank_def less_prod_def sint_eq_iff)

interpretation globals: ranked_merge se_key "setting_newer flatten" "setting_rank flatten" for flatten :: "'v \<Rightarrow> bytes"
  by unfold_locales (auto simp: setting_newer_def setting_rank_def less_prod_def sint_eq_iff)

interpretation devices: ranked_merge dm_device "device_newer flatten" "device_rank flatten" for flatten :: "'v \<Rightarrow> bytes"
  by unfold_locales (auto simp: device_newer_def device_rank_def less_prod_def sint_eq_iff)

lemma roster_rank_inj: "inj (\<lambda>e. (re_handle_proof e, roster_rank e))"
  by (rule injI) (simp add: roster_rank_def roster_entry_canon_def sint_eq_iff)

lemma setting_rank_inj: "inj flatten \<Longrightarrow> inj (\<lambda>e :: 'v setting_entry. (se_key e, setting_rank flatten e))"
  by (rule injI) (auto simp: setting_rank_def sint_eq_iff dest: injD)

section \<open>Properties\<close>

text \<open>C32: merging rosters is a join: it does not matter in which order, in which grouping or how often the
  copies of the fleet's devices are merged, and the outcome is one list, sorted, with one entry per
  friend: exactly the row above all other rows of that friend, by the later stamp, at the same stamp
  by the tombstone, and at the same stamp and tombstone by the greater canonical bytes.\<close>

theorem merge_rosters_join:
  "merge_rosters a b = merge_rosters b a \<and>
   merge_rosters (merge_rosters a b) c = merge_rosters a (merge_rosters b c) \<and>
   merge_rosters (merge_rosters a b) b = merge_rosters a b \<and>
   sorted_wrt (<) (map re_handle_proof (merge_rosters a b)) \<and>
   (\<forall>x. x \<in> set (merge_rosters a b) \<longleftrightarrow> x \<in> set a \<union> set b \<and>
      (\<forall>y \<in> set a \<union> set b. re_handle_proof y = re_handle_proof x \<and> y \<noteq> x \<longrightarrow>
         sint (re_updated y) < sint (re_updated x) \<or>
         re_updated y = re_updated x \<and>
           (\<not> re_tombstone y \<and> re_tombstone x \<or>
            re_tombstone y = re_tombstone x \<and> roster_entry_canon y < roster_entry_canon x)))"
proof -
  have "roster_rank y < roster_rank x \<longleftrightarrow> roster_newer x y" for x y by (simp add: rosters.newer_rank)
  then have exact: "x \<in> set (merge_rosters a b) \<longleftrightarrow> x \<in> set a \<union> set b \<and>
      (\<forall>y \<in> set a \<union> set b. re_handle_proof y = re_handle_proof x \<and> y \<noteq> x \<longrightarrow> roster_newer x y)" for x
    using rosters.merge_exact [OF roster_rank_inj, of x a b] unfolding merge_rosters_def by simp
  have "roster_newer x y \<longleftrightarrow> sint (re_updated y) < sint (re_updated x) \<or> re_updated y = re_updated x \<and>
      (\<not> re_tombstone y \<and> re_tombstone x \<or> re_tombstone y = re_tombstone x \<and> roster_entry_canon y < roster_entry_canon x)" for x y
    by (auto simp: roster_newer_def)
  note exact = exact [unfolded this]
  show ?thesis
    using rosters.ranks_inj [OF roster_rank_inj rosters.ranks_commute [of a b]] rosters.ranks_inj [OF roster_rank_inj rosters.ranks_assoc [of a b c]]
      rosters.ranks_inj [OF roster_rank_inj rosters.ranks_absorb [of a b]] rosters.merge_sorted [of a b] exact
    unfolding merge_rosters_def by (intro conjI allI)
qed

lemma map_eq_list_all2: "map f xs = map f ys \<longleftrightarrow> list_all2 (\<lambda>a b. f a = f b) xs ys"
  by (auto simp: list_all2_conv_all_nth list_eq_iff_nth_eq)

lemma outcome_fstate:
  "fs_roster (outcome (merge_fstate fl) m) = outcome (merge_by_key re_handle_proof roster_newer) (map_merges fs_roster m)"
  "fs_global (outcome (merge_fstate fl) m) = outcome (merge_by_key se_key (setting_newer fl)) (map_merges fs_global m)"
  "fs_devices (outcome (merge_fstate fl) m) = outcome (merge_by_key dm_device (device_newer fl)) (map_merges fs_devices m)"
  by (rule outcome_map; simp add: merge_fstate_def merge_rosters_def merge_global_settings_def merge_device_settings_def)+

text \<open>C31: two devices that merged the same rows agree, whatever the order, the grouping and the repetitions of
  their merges, and whether the states came straight from their owners or merged by others on the way:
  they hold the same roster, the same global settings (key, stamp, tombstone and the canonical bytes of the
  value; the same values outright where different values have different bytes), and for each device the
  same clock and the same settings rows (their order inside one device's map is the only thing the tie-break
  does not see).\<close>

theorem fstate_replicas_agree:
  fixes flatten :: "'v \<Rightarrow> bytes"
  assumes "held_rows fs_roster (Merged l r) = held_rows fs_roster (Merged l' r')"
    and "held_rows fs_global (Merged l r) = held_rows fs_global (Merged l' r')"
    and "held_rows fs_devices (Merged l r) = held_rows fs_devices (Merged l' r')"
  defines "s \<equiv> outcome (merge_fstate flatten) (Merged l r)" and "t \<equiv> outcome (merge_fstate flatten) (Merged l' r')"
  shows "fs_roster s = fs_roster t \<and>
    map (\<lambda>e. (se_key e, se_updated e, se_tombstone e, flatten (se_value e))) (fs_global s) =
    map (\<lambda>e. (se_key e, se_updated e, se_tombstone e, flatten (se_value e))) (fs_global t) \<and>
    (inj flatten \<longrightarrow> fs_global s = fs_global t) \<and>
    map (\<lambda>d. (dm_device d, dm_updated d, device_map_canon flatten d)) (fs_devices s) =
    map (\<lambda>d. (dm_device d, dm_updated d, device_map_canon flatten d)) (fs_devices t)"
proof -
  have st: "fs_roster s = outcome (merge_by_key re_handle_proof roster_newer) (Merged (map_merges fs_roster l) (map_merges fs_roster r))"
    "fs_roster t = outcome (merge_by_key re_handle_proof roster_newer) (Merged (map_merges fs_roster l') (map_merges fs_roster r'))"
    "fs_global s = outcome (merge_by_key se_key (setting_newer flatten)) (Merged (map_merges fs_global l) (map_merges fs_global r))"
    "fs_global t = outcome (merge_by_key se_key (setting_newer flatten)) (Merged (map_merges fs_global l') (map_merges fs_global r'))"
    "fs_devices s = outcome (merge_by_key dm_device (device_newer flatten)) (Merged (map_merges fs_devices l) (map_merges fs_devices r))"
    "fs_devices t = outcome (merge_by_key dm_device (device_newer flatten)) (Merged (map_merges fs_devices l') (map_merges fs_devices r'))"
    unfolding s_def t_def outcome_fstate by simp_all
  have r: "fs_roster s = fs_roster t" unfolding st using assms(1)
    by (intro rosters.ranks_inj [OF roster_rank_inj rosters.outcome_ranks]) simp
  have g: "globals.ranks flatten (fs_global s) = globals.ranks flatten (fs_global t)"
    unfolding st using assms(2) by (intro globals.outcome_ranks) simp
  have d: "devices.ranks flatten (fs_devices s) = devices.ranks flatten (fs_devices t)"
    unfolding st using assms(3) by (intro devices.outcome_ranks) simp
  have "map (\<lambda>e. (se_key e, se_updated e, se_tombstone e, flatten (se_value e))) (fs_global s) =
    map (\<lambda>e. (se_key e, se_updated e, se_tombstone e, flatten (se_value e))) (fs_global t)"
    using g unfolding globals.ranks_def map_eq_list_all2
    by (rule list.rel_mono_strong) (simp add: setting_rank_def sint_eq_iff)
  moreover have "map (\<lambda>d. (dm_device d, dm_updated d, device_map_canon flatten d)) (fs_devices s) =
    map (\<lambda>d. (dm_device d, dm_updated d, device_map_canon flatten d)) (fs_devices t)"
    using d unfolding devices.ranks_def map_eq_list_all2
    by (rule list.rel_mono_strong) (simp add: device_rank_def sint_eq_iff)
  moreover have "inj flatten \<longrightarrow> fs_global s = fs_global t" using globals.ranks_inj [OF setting_rank_inj g] by blast
  ultimately show ?thesis using r by blast
qed

text \<open>A removal sticks: when some copy holds a tombstone for a friend and no copy of that friend has a
  newer clock, the merged roster holds a tombstone, whatever else the copies say, so a stale device
  cannot bring the friend back.\<close>

theorem roster_removal_sticks:
  assumes "t \<in> set a \<union> set b" "re_tombstone t"
    and "\<forall>x \<in> set a \<union> set b. re_handle_proof x = re_handle_proof t \<longrightarrow> sint (re_updated x) \<le> sint (re_updated t)"
  shows "\<exists>e \<in> set (merge_rosters a b). re_handle_proof e = re_handle_proof t \<and> re_tombstone e \<and> re_updated e = re_updated t"
proof -
  obtain e where e: "e \<in> set (merge_rosters a b)" "re_handle_proof e = re_handle_proof t" "roster_rank t \<le> roster_rank e"
    using rosters.merge_covers [OF assms(1)] by (auto simp: merge_rosters_def)
  have "e \<in> set a \<union> set b" using e(1) rosters.merge_subset by (auto simp: merge_rosters_def)
  then have "sint (re_updated e) \<le> sint (re_updated t)" using assms(3) e(2) by blast
  then have "re_updated e = re_updated t" "re_tombstone e"
    using e(3) assms(2) by (auto simp: roster_rank_def less_eq_prod_def sint_eq_iff)
  then show ?thesis using e by blast
qed

section \<open>Examples\<close>

definition demo_entry :: "i64 \<Rightarrow> bool \<Rightarrow> roster_entry" where
  "demo_entry updated tomb =
     \<lparr>re_handle_proof = [1], re_handle_hash = [2], re_public_identity = [3], re_avatar_pin = [], re_added = 0,
      re_updated = updated, re_tombstone = tomb, re_ceremony_owner = [], re_woven = False, re_trust_level = 0,
      re_published_name = [], re_consent = True\<rparr>"

definition demo_fstate :: "byte \<Rightarrow> bytes fleet_state" where
  "demo_fstate v = \<lparr>fs_roster = [demo_entry 3 False],
     fs_global = [\<lparr>se_key = [1], se_value = [v], se_updated = 5, se_tombstone = False\<rparr>], fs_devices = []\<rparr>"

text \<open>One device merges 2 into 3, another merges 3 into what it had merged of 2 and 3 before.\<close>

theorem fstate_replicas_agree_witness:
  "fs_global (outcome (merge_fstate id) (Merged (Held (demo_fstate 3)) (Held (demo_fstate 2)))) =
   fs_global (outcome (merge_fstate id) (Merged (Held (demo_fstate 3)) (Merged (Held (demo_fstate 2)) (Held (demo_fstate 3)))))"
  using fstate_replicas_agree [of "Held (demo_fstate 3)" "Held (demo_fstate 2)" "Held (demo_fstate 3)"
      "Merged (Held (demo_fstate 2)) (Held (demo_fstate 3))" id] by auto

theorem merge_rosters_join_witness:
  "set (merge_rosters [demo_entry 3 False] [demo_entry 2 False, demo_entry 3 True]) = {demo_entry 3 True}"
proof -
  let ?m = "merge_rosters [demo_entry 3 False] [demo_entry 2 False, demo_entry 3 True]"
  have x: "x \<in> set ?m \<longleftrightarrow> x \<in> set [demo_entry 3 False] \<union> set [demo_entry 2 False, demo_entry 3 True] \<and>
      (\<forall>y \<in> set [demo_entry 3 False] \<union> set [demo_entry 2 False, demo_entry 3 True]. re_handle_proof y = re_handle_proof x \<and> y \<noteq> x \<longrightarrow>
         sint (re_updated y) < sint (re_updated x) \<or>
         re_updated y = re_updated x \<and> (\<not> re_tombstone y \<and> re_tombstone x \<or>
            re_tombstone y = re_tombstone x \<and> roster_entry_canon y < roster_entry_canon x))" for x
    using merge_rosters_join [of "[demo_entry 3 False]" "[demo_entry 2 False, demo_entry 3 True]" "[]"] by blast
  have sel: "re_handle_proof (demo_entry u b) = [1]" "re_updated (demo_entry u b) = u" "re_tombstone (demo_entry u b) = b"
    "demo_entry u b = demo_entry u' b' \<longleftrightarrow> u = u' \<and> b = b'" for u b u' b' by (auto simp: demo_entry_def)
  show ?thesis by (rule set_eqI, unfold x) (auto simp: sel)
qed

theorem roster_removal_sticks_witness:
  "\<exists>e \<in> set (merge_rosters [demo_entry 7 False] [demo_entry 7 True]). re_tombstone e"
  using roster_removal_sticks [of "demo_entry 7 True" "[demo_entry 7 False]" "[demo_entry 7 True]"]
  by (auto simp: demo_entry_def)

end
