(* ===== verification/Fstate_Codec.thy ===== *)
theory Fstate_Codec
  imports Fstate_Merge
begin

text \<open>
  src/src/fstate.rs, the codec: rows of labelled values, the three sections, and the documents. The
  document container (\<open>SectionBuilder\<close>, \<open>VsfBuilder\<close>, \<open>read_verified\<close>) and \<open>VsfType::as_u64\<close> are the vsf
  crate's and are parameters.
\<close>

section \<open>Rows\<close>

datatype row_val =
    R_d bytes | R_hP bytes | R_ke bytes | R_ge bytes | R_e et_type | R_u3 byte | R_x bytes | R_z nat | R_other nat

type_synonym row = "row_val list"

record sec =
  sec_version :: "row list"
  sec_rows :: "row list"

fun labeled_values :: "row \<Rightarrow> (bytes \<times> row_val) list" where
  "labeled_values (R_d name # datum # rest) = (name, datum) # labeled_values rest"
| "labeled_values (R_d name # []) = []"
| "labeled_values (v # rest) = labeled_values rest"
| "labeled_values [] = []"

definition lookup_label :: "(bytes \<times> row_val) list \<Rightarrow> bytes \<Rightarrow> row_val option" where
  "lookup_label m name = map_of (rev m) name"

definition get_k32 :: "(bytes \<times> row_val) list \<Rightarrow> bytes \<Rightarrow> bytes option" where
  "get_k32 m name = (case lookup_label m name of
     Some (R_hP b) \<Rightarrow> if length b = 32 then Some b else None
   | Some (R_ke b) \<Rightarrow> if length b = 32 then Some b else None
   | _ \<Rightarrow> None)"

definition get_k64 :: "(bytes \<times> row_val) list \<Rightarrow> bytes \<Rightarrow> bytes option" where
  "get_k64 m name = (case lookup_label m name of Some (R_ge b) \<Rightarrow> if length b = 64 then Some b else None | _ \<Rightarrow> None)"

definition get_e6 :: "(bytes \<times> row_val) list \<Rightarrow> bytes \<Rightarrow> i64 option" where
  "get_e6 m name = (case lookup_label m name of Some (R_e (E6 t)) \<Rightarrow> Some t | _ \<Rightarrow> None)"

text \<open>Width-agnostic: any value the crate reads as a \<open>u64\<close> that fits a byte.\<close>

definition get_u3 :: "(row_val \<Rightarrow> u64 option) \<Rightarrow> (bytes \<times> row_val) list \<Rightarrow> bytes \<Rightarrow> byte option" where
  "get_u3 as_u64 m name = (case lookup_label m name of None \<Rightarrow> None
     | Some v \<Rightarrow> (case as_u64 v of None \<Rightarrow> None
        | Some n \<Rightarrow> if unat n < 256 then Some (ucast n) else None))"

definition get_text :: "(bytes \<times> row_val) list \<Rightarrow> bytes \<Rightarrow> bytes option" where
  "get_text m name = (case lookup_label m name of Some (R_x s) \<Rightarrow> Some s | _ \<Rightarrow> None)"

definition get_label :: "(bytes \<times> row_val) list \<Rightarrow> bytes \<Rightarrow> bytes option" where
  "get_label m name = (case lookup_label m name of Some (R_d s) \<Rightarrow> Some s | _ \<Rightarrow> None)"

definition u3_of :: "bool \<Rightarrow> row_val" where "u3_of b = R_u3 (if b then 1 else 0)"

abbreviation lab :: "string \<Rightarrow> row_val" where "lab s \<equiv> R_d (ascii s)"

section \<open>Sections\<close>

definition FSTATE_VERSION :: nat where "FSTATE_VERSION = 7"
definition FSTATE_VERSION_COMPAT :: nat where "FSTATE_VERSION_COMPAT = 6"

definition version_matches :: "sec \<Rightarrow> bool" where
  "version_matches s = (case sec_version s of (R_z n # _) # _ \<Rightarrow> n = FSTATE_VERSION \<or> n = FSTATE_VERSION_COMPAT | _ \<Rightarrow> False)"

definition roster_row :: "roster_entry \<Rightarrow> row" where
  "roster_row e =
     [lab ''proof'', R_hP (re_handle_proof e), lab ''party'', R_ke (re_handle_hash e),
      lab ''device'', R_ke (re_public_identity e), lab ''owner'', R_ke (re_ceremony_owner e),
      lab ''pin'', R_ge (re_avatar_pin e), lab ''added'', R_e (E6 (re_added e)),
      lab ''updated'', R_e (E6 (re_updated e)), lab ''tombstone'', u3_of (re_tombstone e),
      lab ''woven'', u3_of (re_woven e), lab ''trust'', R_u3 (re_trust_level e),
      lab ''name'', R_x (re_published_name e), lab ''consent'', u3_of (re_consent e)]"

definition roster_section :: "roster_entry list \<Rightarrow> sec" where
  "roster_section entries = \<lparr>sec_version = [[R_z FSTATE_VERSION]], sec_rows = map roster_row entries\<rparr>"

definition decode_roster_row :: "(row_val \<Rightarrow> u64 option) \<Rightarrow> row \<Rightarrow> roster_entry option" where
  "decode_roster_row as_u64 row =
     (let m = labeled_values row in
      case (get_k32 m (ascii ''proof''), get_k32 m (ascii ''party''), get_k32 m (ascii ''device''),
            get_k32 m (ascii ''owner''), get_k64 m (ascii ''pin''), get_e6 m (ascii ''added''),
            get_e6 m (ascii ''updated''), get_u3 as_u64 m (ascii ''tombstone''), get_u3 as_u64 m (ascii ''woven''),
            get_u3 as_u64 m (ascii ''trust''), get_text m (ascii ''name'')) of
        (Some hp, Some hh, Some pid, Some own, Some pin, Some added, Some updated, Some tomb, Some woven, Some trust, Some name) \<Rightarrow>
          Some \<lparr>re_handle_proof = hp, re_handle_hash = hh, re_public_identity = pid, re_avatar_pin = pin,
                re_added = added, re_updated = updated, re_tombstone = (tomb \<noteq> 0), re_ceremony_owner = own,
                re_woven = (woven \<noteq> 0), re_trust_level = trust, re_published_name = name,
                re_consent = (case get_u3 as_u64 m (ascii ''consent'') of None \<Rightarrow> True | Some v \<Rightarrow> v \<noteq> 0)\<rparr>
      | _ \<Rightarrow> None)"

definition decode_roster_section :: "(row_val \<Rightarrow> u64 option) \<Rightarrow> sec \<Rightarrow> roster_entry list" where
  "decode_roster_section as_u64 s = List.map_filter (decode_roster_row as_u64) (sec_rows s)"

definition setting_row :: "row_val setting_entry \<Rightarrow> row" where
  "setting_row e =
     [lab ''key'', R_d (se_key e), lab ''value'', se_value e, lab ''updated'', R_e (E6 (se_updated e)),
      lab ''tombstone'', u3_of (se_tombstone e)]"

definition globals_section :: "row_val setting_entry list \<Rightarrow> sec" where
  "globals_section g = \<lparr>sec_version = [[R_z FSTATE_VERSION]], sec_rows = map setting_row g\<rparr>"

definition decode_setting_row :: "(row_val \<Rightarrow> u64 option) \<Rightarrow> row \<Rightarrow> row_val setting_entry option" where
  "decode_setting_row as_u64 row =
     (let m = labeled_values row in
      case (get_label m (ascii ''key''), lookup_label m (ascii ''value''), get_e6 m (ascii ''updated'')) of
        (Some k, Some v, Some t) \<Rightarrow>
          Some \<lparr>se_key = k, se_value = v, se_updated = t,
                se_tombstone = ((case get_u3 as_u64 m (ascii ''tombstone'') of None \<Rightarrow> 0 | Some n \<Rightarrow> n) \<noteq> 0)\<rparr>
      | _ \<Rightarrow> None)"

definition decode_globals_section :: "(row_val \<Rightarrow> u64 option) \<Rightarrow> sec \<Rightarrow> row_val setting_entry list" where
  "decode_globals_section as_u64 s = List.map_filter (decode_setting_row as_u64) (sec_rows s)"

definition device_bare_row :: "row_val device_settings \<Rightarrow> row" where
  "device_bare_row d = [lab ''device'', R_ke (dm_device d), lab ''map_updated'', R_e (E6 (dm_updated d))]"

definition device_entry_row :: "row_val device_settings \<Rightarrow> row_val device_setting \<Rightarrow> row" where
  "device_entry_row d e = device_bare_row d @
     [lab ''key'', R_d (ds_key e), lab ''value'', ds_value e, lab ''entry_updated'', R_e (E6 (ds_updated e)),
      lab ''linked'', u3_of (ds_linked e)]"

definition device_rows :: "row_val device_settings \<Rightarrow> row list" where
  "device_rows d = (if dm_entries d = [] then [device_bare_row d] else []) @ map (device_entry_row d) (dm_entries d)"

definition devices_section :: "row_val device_settings list \<Rightarrow> sec" where
  "devices_section ds = \<lparr>sec_version = [[R_z FSTATE_VERSION]], sec_rows = concat (map device_rows ds)\<rparr>"

text \<open>The map a row belongs to is found by its device, or appended; its clock is raised to the row's.\<close>

definition max_i64 :: "i64 \<Rightarrow> i64 \<Rightarrow> i64" where "max_i64 a b = (if sint a \<le> sint b then b else a)"

fun upd_device :: "bytes \<Rightarrow> i64 \<Rightarrow> row_val device_setting list \<Rightarrow> row_val device_settings list \<Rightarrow> row_val device_settings list" where
  "upd_device pk t es [] = [\<lparr>dm_device = pk, dm_updated = t, dm_entries = es\<rparr>]"
| "upd_device pk t es (d # ds) =
     (if dm_device d = pk then d\<lparr>dm_updated := max_i64 (dm_updated d) t, dm_entries := dm_entries d @ es\<rparr> # ds
      else d # upd_device pk t es ds)"

definition decode_device_row ::
  "(row_val \<Rightarrow> u64 option) \<Rightarrow> row_val device_settings list \<Rightarrow> row \<Rightarrow> row_val device_settings list" where
  "decode_device_row as_u64 out row =
     (let m = labeled_values row in
      case (get_k32 m (ascii ''device''), get_e6 m (ascii ''map_updated'')) of
        (Some pk, Some t) \<Rightarrow>
          upd_device pk t
            (case (get_label m (ascii ''key''), lookup_label m (ascii ''value''), get_e6 m (ascii ''entry_updated'')) of
               (Some k, Some v, Some et) \<Rightarrow>
                 [\<lparr>ds_key = k, ds_value = v, ds_updated = et,
                   ds_linked = ((case get_u3 as_u64 m (ascii ''linked'') of None \<Rightarrow> 0 | Some n \<Rightarrow> n) \<noteq> 0)\<rparr>]
             | _ \<Rightarrow> []) out
      | _ \<Rightarrow> out)"

definition decode_devices_section :: "(row_val \<Rightarrow> u64 option) \<Rightarrow> sec \<Rightarrow> row_val device_settings list" where
  "decode_devices_section as_u64 s = foldl (decode_device_row as_u64) [] (sec_rows s)"

section \<open>Documents\<close>

text \<open>The container: writing named sections, the verified read, and the parse of one section.\<close>

datatype parse_fail = NotInToc | ParseFail

record doc_codec =
  write_doc :: "(string \<times> sec) list \<Rightarrow> bytes"
  doc_verified :: "bytes \<Rightarrow> bool"
  parse_document :: "string \<Rightarrow> bytes \<Rightarrow> parse_fail + sec"

datatype fstate_error = RosterUnreadable | VersionMismatch | SectionMissing | SectionCorrupt | DocUnverified

definition parse_section :: "doc_codec \<Rightarrow> string \<Rightarrow> bytes \<Rightarrow> fstate_error + sec option" where
  "parse_section D name doc = (case parse_document D name doc of
     Inr s \<Rightarrow> Inr (Some s)
   | Inl NotInToc \<Rightarrow> Inr None
   | Inl ParseFail \<Rightarrow> Inl SectionCorrupt)"

definition roster_to_bytes :: "doc_codec \<Rightarrow> roster_entry list \<Rightarrow> bytes" where
  "roster_to_bytes D entries = write_doc D [(''fleet_roster'', roster_section entries)]"

definition roster_from_bytes :: "doc_codec \<Rightarrow> (row_val \<Rightarrow> u64 option) \<Rightarrow> bytes \<Rightarrow> fstate_error + roster_entry list" where
  "roster_from_bytes D as_u64 bs = (case parse_document D ''fleet_roster'' bs of
     Inl _ \<Rightarrow> Inl RosterUnreadable
   | Inr s \<Rightarrow> if \<not> version_matches s then Inl VersionMismatch else Inr (decode_roster_section as_u64 s))"

definition settings_to_bytes :: "doc_codec \<Rightarrow> row_val setting_entry list \<Rightarrow> row_val device_settings list \<Rightarrow> bytes" where
  "settings_to_bytes D g ds = write_doc D [(''fleet_globals'', globals_section g), (''fleet_devices'', devices_section ds)]"

definition settings_from_bytes ::
  "doc_codec \<Rightarrow> (row_val \<Rightarrow> u64 option) \<Rightarrow> bytes \<Rightarrow> fstate_error + row_val setting_entry list \<times> row_val device_settings list" where
  "settings_from_bytes D as_u64 bs =
     (case parse_section D ''fleet_globals'' bs of Inl e \<Rightarrow> Inl e | Inr None \<Rightarrow> Inl SectionMissing
      | Inr (Some g) \<Rightarrow>
          (case parse_section D ''fleet_devices'' bs of Inl e \<Rightarrow> Inl e | Inr None \<Rightarrow> Inl SectionMissing
           | Inr (Some d) \<Rightarrow>
               if \<not> version_matches g \<or> \<not> version_matches d then Inl VersionMismatch
               else Inr (decode_globals_section as_u64 g, decode_devices_section as_u64 d)))"

definition fstate_to_bytes :: "doc_codec \<Rightarrow> row_val fleet_state \<Rightarrow> bytes" where
  "fstate_to_bytes D st = write_doc D
     [(''fleet_roster'', roster_section (fs_roster st)), (''fleet_globals'', globals_section (fs_global st)),
      (''fleet_devices'', devices_section (fs_devices st))]"

definition legacy_tag :: "bytes \<Rightarrow> bool" where
  "legacy_tag bs \<longleftrightarrow> length bs \<ge> 4 \<and> take 4 bs \<in> {ascii ''PRST'', ascii ''PFST'', ascii ''PSET''}"

definition settings_layer :: "(sec \<Rightarrow> 'a list) \<Rightarrow> fstate_error + sec option \<Rightarrow> fstate_error + 'a list" where
  "settings_layer dec p = (case p of
     Inl e \<Rightarrow> Inl e
   | Inr (Some s) \<Rightarrow> if version_matches s then Inr (dec s) else Inl VersionMismatch
   | Inr None \<Rightarrow> Inr [])"

definition fstate_from_bytes :: "doc_codec \<Rightarrow> (row_val \<Rightarrow> u64 option) \<Rightarrow> bytes \<Rightarrow> fstate_error + row_val fleet_state" where
  "fstate_from_bytes D as_u64 bs =
     (if legacy_tag bs then Inr empty_fstate
      else if \<not> doc_verified D bs then Inl DocUnverified
      else let roster = (case parse_section D ''fleet_roster'' bs of
             Inr (Some s) \<Rightarrow> if version_matches s then decode_roster_section as_u64 s else []
           | _ \<Rightarrow> []) in
        (case settings_layer (decode_globals_section as_u64) (parse_section D ''fleet_globals'' bs) of Inl e \<Rightarrow> Inl e
         | Inr g \<Rightarrow>
            (case settings_layer (decode_devices_section as_u64) (parse_section D ''fleet_devices'' bs) of Inl e \<Rightarrow> Inl e
             | Inr ds \<Rightarrow> Inr \<lparr>fs_roster = roster, fs_global = g, fs_devices = ds\<rparr>)))"

section \<open>Rows read back\<close>

definition as_u64_ok :: "(row_val \<Rightarrow> u64 option) \<Rightarrow> bool" where
  "as_u64_ok as_u64 \<longleftrightarrow> (\<forall>b. as_u64 (R_u3 b) = Some (ucast b))"

definition roster_entry_ok :: "roster_entry \<Rightarrow> bool" where
  "roster_entry_ok e \<longleftrightarrow> length (re_handle_proof e) = 32 \<and> length (re_handle_hash e) = 32 \<and>
     length (re_public_identity e) = 32 \<and> length (re_ceremony_owner e) = 32 \<and> length (re_avatar_pin e) = 64"

lemma ascii_eq_iff [simp]: "ascii s = ascii t \<longleftrightarrow> map (of_char :: char \<Rightarrow> byte) s = map of_char t"
  by (simp add: ascii_def)

lemma ucast_u8_fits: "unat (ucast (b :: byte) :: u64) < 256"
proof -
  have "unat (ucast b :: u64) \<le> unat b" by (simp add: unsigned_ucast_eq)
  moreover have "unat b < 256" using unsigned_less [of b, where ?'a = nat] by simp
  ultimately show ?thesis by linarith
qed

lemma ucast_u8_id: "(ucast (ucast (b :: byte) :: u64) :: byte) = b"
  by (simp add: ucast_down_ucast_id is_down)

lemma labeled_pair [simp]: "labeled_values (R_d n # v # rest) = (n, v) # labeled_values rest"
  by simp

lemma roster_row_decodes:
  assumes "as_u64_ok U" "roster_entry_ok e"
  shows "decode_roster_row U (roster_row e) = Some e"
proof -
  have u: "U (R_u3 b) = Some (ucast b)" for b using assms(1) by (simp add: as_u64_ok_def)
  let ?m = "labeled_values (roster_row e)"
  have l: "lookup_label ?m (ascii ''proof'') = Some (R_hP (re_handle_proof e))"
    "lookup_label ?m (ascii ''party'') = Some (R_ke (re_handle_hash e))"
    "lookup_label ?m (ascii ''device'') = Some (R_ke (re_public_identity e))"
    "lookup_label ?m (ascii ''owner'') = Some (R_ke (re_ceremony_owner e))"
    "lookup_label ?m (ascii ''pin'') = Some (R_ge (re_avatar_pin e))"
    "lookup_label ?m (ascii ''added'') = Some (R_e (E6 (re_added e)))"
    "lookup_label ?m (ascii ''updated'') = Some (R_e (E6 (re_updated e)))"
    "lookup_label ?m (ascii ''tombstone'') = Some (u3_of (re_tombstone e))"
    "lookup_label ?m (ascii ''woven'') = Some (u3_of (re_woven e))"
    "lookup_label ?m (ascii ''trust'') = Some (R_u3 (re_trust_level e))"
    "lookup_label ?m (ascii ''name'') = Some (R_x (re_published_name e))"
    "lookup_label ?m (ascii ''consent'') = Some (u3_of (re_consent e))"
    by (simp_all add: roster_row_def lookup_label_def)
  have g: "get_u3 U ?m (ascii ''tombstone'') = Some (if re_tombstone e then 1 else 0)"
    "get_u3 U ?m (ascii ''woven'') = Some (if re_woven e then 1 else 0)"
    "get_u3 U ?m (ascii ''trust'') = Some (re_trust_level e)"
    "get_u3 U ?m (ascii ''consent'') = Some (if re_consent e then 1 else 0)"
    unfolding get_u3_def l u3_of_def using ucast_u8_fits [of "re_trust_level e"] by (simp_all add: u ucast_u8_id)
  show ?thesis
    unfolding decode_roster_row_def Let_def g get_k32_def get_k64_def get_e6_def get_text_def l
    using assms(2) by (simp add: roster_entry_ok_def)
qed

lemma setting_row_decodes:
  assumes "as_u64_ok U"
  shows "decode_setting_row U (setting_row e) = Some e"
proof -
  have u: "U (R_u3 b) = Some (ucast b)" for b using assms(1) by (simp add: as_u64_ok_def)
  let ?m = "labeled_values (setting_row e)"
  have l: "lookup_label ?m (ascii ''key'') = Some (R_d (se_key e))"
    "lookup_label ?m (ascii ''value'') = Some (se_value e)"
    "lookup_label ?m (ascii ''updated'') = Some (R_e (E6 (se_updated e)))"
    "lookup_label ?m (ascii ''tombstone'') = Some (u3_of (se_tombstone e))"
    by (simp_all add: setting_row_def lookup_label_def)
  have g: "get_u3 U ?m (ascii ''tombstone'') = Some (if se_tombstone e then 1 else 0)"
    unfolding get_u3_def l u3_of_def by (simp add: u)
  show ?thesis
    unfolding decode_setting_row_def Let_def g get_label_def get_e6_def l by simp
qed

lemma device_row_decodes:
  assumes "as_u64_ok U" "length (dm_device d) = 32"
  shows "decode_device_row U out (device_bare_row d) = upd_device (dm_device d) (dm_updated d) [] out"
    "decode_device_row U out (device_entry_row d e) = upd_device (dm_device d) (dm_updated d) [e] out"
proof -
  have u: "U (R_u3 b) = Some (ucast b)" for b using assms(1) by (simp add: as_u64_ok_def)
  let ?b = "labeled_values (device_bare_row d)" and ?m = "labeled_values (device_entry_row d e)"
  have lb: "lookup_label ?b (ascii ''device'') = Some (R_ke (dm_device d))"
    "lookup_label ?b (ascii ''map_updated'') = Some (R_e (E6 (dm_updated d)))"
    "lookup_label ?b (ascii ''key'') = None"
    by (simp_all add: device_bare_row_def lookup_label_def)
  show "decode_device_row U out (device_bare_row d) = upd_device (dm_device d) (dm_updated d) [] out"
    unfolding decode_device_row_def Let_def get_k32_def get_e6_def get_label_def lb using assms(2) by simp
  have l: "lookup_label ?m (ascii ''device'') = Some (R_ke (dm_device d))"
    "lookup_label ?m (ascii ''map_updated'') = Some (R_e (E6 (dm_updated d)))"
    "lookup_label ?m (ascii ''key'') = Some (R_d (ds_key e))"
    "lookup_label ?m (ascii ''value'') = Some (ds_value e)"
    "lookup_label ?m (ascii ''entry_updated'') = Some (R_e (E6 (ds_updated e)))"
    "lookup_label ?m (ascii ''linked'') = Some (u3_of (ds_linked e))"
    by (simp_all add: device_entry_row_def device_bare_row_def lookup_label_def)
  have g: "get_u3 U ?m (ascii ''linked'') = Some (if ds_linked e then 1 else 0)"
    unfolding get_u3_def l u3_of_def by (simp add: u)
  show "decode_device_row U out (device_entry_row d e) = upd_device (dm_device d) (dm_updated d) [e] out"
    unfolding decode_device_row_def Let_def g get_k32_def get_e6_def get_label_def l using assms(2) by (cases e) simp
qed

lemma upd_device_new: "pk \<notin> dm_device ` set out \<Longrightarrow>
    upd_device pk t es out = out @ [\<lparr>dm_device = pk, dm_updated = t, dm_entries = es\<rparr>]"
  by (induction out) auto

lemma upd_device_last: "dm_device d \<notin> dm_device ` set out \<Longrightarrow>
    upd_device (dm_device d) (dm_updated d) es (out @ [d]) = out @ [d\<lparr>dm_entries := dm_entries d @ es\<rparr>]"
  by (induction out) (auto simp: max_i64_def)

lemma device_entries_decode:
  assumes "as_u64_ok U" "length (dm_device d) = 32" "dm_device d \<notin> dm_device ` set out"
  shows "foldl (decode_device_row U) (out @ [d\<lparr>dm_entries := es\<rparr>]) (map (device_entry_row d) es') =
    out @ [d\<lparr>dm_entries := es @ es'\<rparr>]"
proof (induction es' arbitrary: es)
  case (Cons e es')
  have "upd_device (dm_device d) (dm_updated d) [e] (out @ [d\<lparr>dm_entries := es\<rparr>]) = out @ [d\<lparr>dm_entries := es @ [e]\<rparr>]"
    using upd_device_last [of "d\<lparr>dm_entries := es\<rparr>" out "[e]"] assms(3) by simp
  then show ?case using Cons [of "es @ [e]"] by (simp add: device_row_decodes [OF assms(1,2)])
qed simp

lemma device_rows_decode:
  assumes "as_u64_ok U" "length (dm_device d) = 32" "dm_device d \<notin> dm_device ` set out"
  shows "foldl (decode_device_row U) out (device_rows d) = out @ [d]"
proof (cases "dm_entries d")
  case Nil
  then have "d = \<lparr>dm_device = dm_device d, dm_updated = dm_updated d, dm_entries = []\<rparr>" by simp
  then show ?thesis using Nil upd_device_new [OF assms(3)] by (simp add: device_rows_def device_row_decodes [OF assms(1,2)])
next
  case (Cons e es)
  have new: "upd_device (dm_device d) (dm_updated d) [e] out = out @ [d\<lparr>dm_entries := [e]\<rparr>]"
    using upd_device_new [OF assms(3), of "dm_updated d" "[e]"] by (cases d) simp
  have "foldl (decode_device_row U) out (device_rows d) =
      foldl (decode_device_row U) (out @ [d\<lparr>dm_entries := [e]\<rparr>]) (map (device_entry_row d) es)"
    using Cons by (simp add: device_rows_def device_row_decodes [OF assms(1,2)] new)
  also have "\<dots> = out @ [d]" unfolding device_entries_decode [OF assms] using Cons by simp
  finally show ?thesis .
qed

lemma devices_decode:
  assumes "as_u64_ok U"
  shows "\<forall>d \<in> set ds. length (dm_device d) = 32 \<Longrightarrow> distinct (map dm_device (out @ ds)) \<Longrightarrow>
    foldl (decode_device_row U) out (concat (map device_rows ds)) = out @ ds"
proof (induction ds arbitrary: out)
  case (Cons d ds)
  have "foldl (decode_device_row U) out (device_rows d) = out @ [d]"
    using Cons.prems by (intro device_rows_decode [OF assms]) auto
  then show ?case using Cons.IH [of "out @ [d]"] Cons.prems by simp
qed simp

lemma map_filter_map_Some: "\<forall>x \<in> set xs. g (f x) = Some x \<Longrightarrow> List.map_filter g (map f xs) = xs"
  by (induction xs) (simp_all add: List.map_filter_simps)

definition fstate_ok :: "row_val fleet_state \<Rightarrow> bool" where
  "fstate_ok st \<longleftrightarrow> list_all roster_entry_ok (fs_roster st) \<and>
     (\<forall>d \<in> set (fs_devices st). length (dm_device d) = 32) \<and> distinct (map dm_device (fs_devices st))"

lemma sections_decode:
  assumes "as_u64_ok U" "fstate_ok st"
  shows "decode_roster_section U (roster_section (fs_roster st)) = fs_roster st"
    "decode_globals_section U (globals_section (fs_global st)) = fs_global st"
    "decode_devices_section U (devices_section (fs_devices st)) = fs_devices st"
proof -
  show "decode_roster_section U (roster_section (fs_roster st)) = fs_roster st"
    unfolding decode_roster_section_def roster_section_def sec.select_convs
    by (rule map_filter_map_Some) (use assms roster_row_decodes in \<open>auto simp: fstate_ok_def list_all_iff\<close>)
  show "decode_globals_section U (globals_section (fs_global st)) = fs_global st"
    unfolding decode_globals_section_def globals_section_def sec.select_convs
    by (rule map_filter_map_Some) (use assms setting_row_decodes in auto)
  show "decode_devices_section U (devices_section (fs_devices st)) = fs_devices st"
    using devices_decode [OF assms(1), of "fs_devices st" "[]"] assms(2)
    by (simp add: decode_devices_section_def devices_section_def fstate_ok_def)
qed

lemma sections_match [simp]: "version_matches (roster_section r)" "version_matches (globals_section g)"
  "version_matches (devices_section ds)"
  by (simp_all add: version_matches_def roster_section_def globals_section_def devices_section_def)

section \<open>Properties\<close>

text \<open>The container gives back the sections of a document it wrote, which verifies and does not begin with
  one of the retired tags.\<close>

definition doc_reads :: "doc_codec \<Rightarrow> (string \<times> sec) list \<Rightarrow> bool" where
  "doc_reads D secs \<longleftrightarrow> doc_verified D (write_doc D secs) \<and> \<not> legacy_tag (write_doc D secs) \<and>
     (\<forall>n. parse_document D n (write_doc D secs) = (case map_of secs n of Some s \<Rightarrow> Inr s | None \<Rightarrow> Inl NotInToc))"

definition state_sections :: "row_val fleet_state \<Rightarrow> (string \<times> sec) list" where
  "state_sections st = [(''fleet_roster'', roster_section (fs_roster st)), (''fleet_globals'', globals_section (fs_global st)),
      (''fleet_devices'', devices_section (fs_devices st))]"

text \<open>C34: the fleet state survives its document: every roster entry, every setting with its typed value,
  clock and tombstone, and every device's map (an empty one too, by its bare row) come back, in order.
  A roster-only document reads as that roster with empty settings.\<close>

theorem fstate_roundtrip:
  assumes "as_u64_ok U" "fstate_ok st" "doc_reads D (state_sections st)"
    and "doc_reads D [(''fleet_roster'', roster_section (fs_roster st))]"
  shows "fstate_from_bytes D U (fstate_to_bytes D st) = Inr st \<and>
     fstate_from_bytes D U (roster_to_bytes D (fs_roster st)) = Inr (empty_fstate\<lparr>fs_roster := fs_roster st\<rparr>)"
  using assms(3,4) sections_decode [OF assms(1,2)]
  by (simp add: fstate_from_bytes_def fstate_to_bytes_def roster_to_bytes_def doc_reads_def state_sections_def
      parse_section_def settings_layer_def empty_fstate_def)

text \<open>Reading a document never loses the settings silently: if a document that is not of the retired
  layout reads at all, then each settings layer is exactly the decoded section, or is empty because the
  document has no such section. A section that does not parse, or is of another version, is an error,
  while a roster that cannot be read only costs the roster.\<close>

theorem settings_never_defaulted:
  assumes "fstate_from_bytes D U bs = Inr st" "\<not> legacy_tag bs"
  shows "doc_verified D bs \<and>
    (case parse_document D ''fleet_globals'' bs of
       Inr s \<Rightarrow> version_matches s \<and> fs_global st = decode_globals_section U s
     | Inl e \<Rightarrow> e = NotInToc \<and> fs_global st = []) \<and>
    (case parse_document D ''fleet_devices'' bs of
       Inr s \<Rightarrow> version_matches s \<and> fs_devices st = decode_devices_section U s
     | Inl e \<Rightarrow> e = NotInToc \<and> fs_devices st = [])"
  using assms
  by (auto simp: fstate_from_bytes_def parse_section_def settings_layer_def Let_def
      split: if_splits sum.splits option.splits parse_fail.splits)

section \<open>Examples\<close>

definition demo_roster_entry :: roster_entry where
  "demo_roster_entry =
     \<lparr>re_handle_proof = replicate 32 1, re_handle_hash = replicate 32 2, re_public_identity = replicate 32 3,
      re_avatar_pin = replicate 64 4, re_added = 1, re_updated = 2, re_tombstone = False,
      re_ceremony_owner = zero32, re_woven = True, re_trust_level = 2, re_published_name = ascii ''Ada'', re_consent = True\<rparr>"

definition demo_state :: "row_val fleet_state" where
  "demo_state = \<lparr>fs_roster = [demo_roster_entry],
     fs_global = [\<lparr>se_key = ascii ''zoom'', se_value = R_other 5, se_updated = 9, se_tombstone = False\<rparr>],
     fs_devices = [\<lparr>dm_device = zero32, dm_updated = 3, dm_entries = []\<rparr>]\<rparr>"

definition demo_u64 :: "row_val \<Rightarrow> u64 option" where
  "demo_u64 v = (case v of R_u3 b \<Rightarrow> Some (ucast b) | _ \<Rightarrow> None)"

text \<open>A container for these two documents.\<close>

definition demo_doc :: doc_codec where
  "demo_doc = \<lparr>write_doc = (\<lambda>secs. [of_nat (length secs)]), doc_verified = (\<lambda>_. True),
     parse_document = (\<lambda>n bs. case map_of (if bs = [3] then state_sections demo_state
         else [(''fleet_roster'', roster_section [demo_roster_entry])]) n of Some s \<Rightarrow> Inr s | None \<Rightarrow> Inl NotInToc)\<rparr>"

lemma demo_doc_reads: "doc_reads demo_doc (state_sections demo_state)"
  "doc_reads demo_doc [(''fleet_roster'', roster_section (fs_roster demo_state))]"
  by (simp_all add: doc_reads_def demo_doc_def state_sections_def legacy_tag_def demo_state_def)

theorem fstate_roundtrip_witness:
  "fstate_from_bytes demo_doc demo_u64 (fstate_to_bytes demo_doc demo_state) = Inr demo_state"
  using fstate_roundtrip [OF _ _ demo_doc_reads, of demo_u64]
  by (simp add: as_u64_ok_def demo_u64_def fstate_ok_def demo_state_def roster_entry_ok_def demo_roster_entry_def)

lemma demo_reads: "\<exists>st. fstate_from_bytes demo_doc demo_u64 (fstate_to_bytes demo_doc demo_state) = Inr st"
  by (simp add: fstate_from_bytes_def fstate_to_bytes_def demo_doc_def parse_section_def settings_layer_def
      state_sections_def legacy_tag_def)

theorem settings_never_defaulted_witness:
  "\<exists>st. fstate_from_bytes demo_doc demo_u64 (fstate_to_bytes demo_doc demo_state) = Inr st \<and>
     fs_global st = decode_globals_section demo_u64 (globals_section (fs_global demo_state))"
proof -
  obtain st where st: "fstate_from_bytes demo_doc demo_u64 (fstate_to_bytes demo_doc demo_state) = Inr st"
    using demo_reads by blast
  have "\<not> legacy_tag (fstate_to_bytes demo_doc demo_state)" by (simp add: fstate_to_bytes_def demo_doc_def legacy_tag_def)
  from settings_never_defaulted [OF st this] show ?thesis
    using st by (auto simp: fstate_to_bytes_def demo_doc_def state_sections_def)
qed

end
