(* ===== verification/Effects.thy ===== *)
theory Effects
  imports Fgtw_Prelude "HOL-Library.Sublist"
begin

text \<open>
  How the fallible and the effectful code of the crate is written down. \<open>try_r\<close> is Rust's \<open>?\<close> on a
  \<open>Result\<close>, \<open>take_n\<close> the bounds-checked cursor of the hand-written parsers. An effectful function takes
  the state \<open>'s\<close> of its surroundings last and gives it back; \<open>try_s\<close> is \<open>?\<close> there, \<open>ret_s\<close> a value
  without effect and \<open>lift_s\<close> a \<open>Result\<close> without effect. Errors of this part are the strings of the
  source, because the source inspects them with \<open>starts_with\<close> and \<open>contains\<close>.
\<close>

named_theorems try_elims

section \<open>Results\<close>

definition try_r :: "'e + 'a \<Rightarrow> ('a \<Rightarrow> 'e + 'b) \<Rightarrow> 'e + 'b" where
  "try_r m f = (case m of Inl e \<Rightarrow> Inl e | Inr x \<Rightarrow> f x)"

lemma try_r_simps [simp]: "try_r (Inl e) f = Inl e" "try_r (Inr x) f = f x"
  by (simp_all add: try_r_def)

lemma try_r_Inr [try_elims]: "try_r m f = Inr y \<longleftrightarrow> (\<exists>x. m = Inr x \<and> f x = Inr y)"
  by (cases m) auto

lemma try_r_Inl: "try_r m f = Inl e \<longleftrightarrow> m = Inl e \<or> (\<exists>x. m = Inr x \<and> f x = Inl e)"
  by (cases m) auto

definition map_err :: "('e \<Rightarrow> 'f) \<Rightarrow> 'e + 'a \<Rightarrow> 'f + 'a" where
  "map_err g m = (case m of Inl e \<Rightarrow> Inl (g e) | Inr x \<Rightarrow> Inr x)"

lemma map_err_simps [simp]: "map_err g (Inl e) = Inl (g e)" "map_err g (Inr x) = Inr x"
  by (simp_all add: map_err_def)

lemma map_err_Inr [simp]: "map_err g m = Inr x \<longleftrightarrow> m = Inr x"
  by (cases m) auto

lemma map_err_Inl: "map_err g m = Inl e \<longleftrightarrow> (\<exists>e'. m = Inl e' \<and> e = g e')"
  by (cases m) auto

text \<open>\<open>Option::ok_or\<close>.\<close>

definition ok_or :: "'e \<Rightarrow> 'a option \<Rightarrow> 'e + 'a" where
  "ok_or e x = (case x of Some y \<Rightarrow> Inr y | None \<Rightarrow> Inl e)"

lemma ok_or_simps [simp]: "ok_or e (Some y) = Inr y" "ok_or e None = Inl e"
  by (simp_all add: ok_or_def)

lemma ok_or_Inr [simp]: "ok_or e x = Inr y \<longleftrightarrow> x = Some y"
  by (cases x) auto

text \<open>A loop over a list that collects results and returns at the first error.\<close>

fun map_r :: "('a \<Rightarrow> 'e + 'b) \<Rightarrow> 'a list \<Rightarrow> 'e + 'b list" where
  "map_r f [] = Inr []"
| "map_r f (x # xs) = try_r (f x) (\<lambda>y. try_r (map_r f xs) (\<lambda>ys. Inr (y # ys)))"

lemma map_r_all: "(\<And>x. x \<in> set xs \<Longrightarrow> f x = Inr (g x)) \<Longrightarrow> map_r f xs = Inr (map g xs)"
  by (induction xs) auto

lemma map_r_Inr: "map_r f xs = Inr ys \<longleftrightarrow> map f xs = map Inr ys"
proof (induction xs arbitrary: ys)
  case (Cons x xs)
  then show ?case by (cases ys) (auto simp: try_r_Inr)
qed auto

section \<open>The bounds-checked cursor\<close>

definition take_n :: "string \<Rightarrow> nat \<Rightarrow> bytes \<Rightarrow> string + bytes \<times> bytes" where
  "take_n err n bs = (if length bs < n then Inl err else Inr (take n bs, drop n bs))"

lemma take_n_append [simp]: "length a = n \<Longrightarrow> take_n err n (a @ r) = Inr (a, r)"
  by (simp add: take_n_def)

lemma take_n_Inr [try_elims]: "take_n err n bs = Inr (a, r) \<longleftrightarrow> bs = a @ r \<and> length a = n"
  by (auto simp: take_n_def append_eq_conv_conj split: if_splits)

section \<open>State passing\<close>

definition ret_s :: "'a \<Rightarrow> 's \<Rightarrow> 'a \<times> 's" where
  "ret_s x s = (x, s)"

definition bind_s :: "('s \<Rightarrow> 'a \<times> 's) \<Rightarrow> ('a \<Rightarrow> 's \<Rightarrow> 'b \<times> 's) \<Rightarrow> 's \<Rightarrow> 'b \<times> 's" where
  "bind_s m f s = (case m s of (x, t) \<Rightarrow> f x t)"

definition lift_s :: "'e + 'a \<Rightarrow> 's \<Rightarrow> ('e + 'a) \<times> 's" where
  "lift_s r s = (r, s)"

definition try_s :: "('s \<Rightarrow> ('e + 'a) \<times> 's) \<Rightarrow> ('a \<Rightarrow> 's \<Rightarrow> ('e + 'b) \<times> 's) \<Rightarrow> 's \<Rightarrow> ('e + 'b) \<times> 's" where
  "try_s m f s = (case m s of (Inl e, t) \<Rightarrow> (Inl e, t) | (Inr x, t) \<Rightarrow> f x t)"

lemma ret_s_simp [simp]: "ret_s x s = (x, s)"
  by (simp add: ret_s_def)

lemma lift_s_simp [simp]: "lift_s r s = (r, s)"
  by (simp add: lift_s_def)

lemma try_s_ret [simp]: "try_s (lift_s (Inr x)) f = f x" "try_s (lift_s (Inl e)) f = lift_s (Inl e)"
  by (auto simp: try_s_def)

lemma try_s_Inr [try_elims]: "try_s m f s = (Inr y, u) \<longleftrightarrow> (\<exists>x t. m s = (Inr x, t) \<and> f x t = (Inr y, u))"
  by (auto simp: try_s_def split: prod.splits sum.splits)

lemma bind_s_eq [try_elims]: "bind_s m f s = (y, u) \<longleftrightarrow> (\<exists>x t. m s = (x, t) \<and> f x t = (y, u))"
  by (auto simp: bind_s_def split: prod.splits)

section \<open>Text\<close>

text \<open>\<open>str::starts_with\<close> and \<open>str::contains\<close>.\<close>

definition starts_with :: "string \<Rightarrow> string \<Rightarrow> bool" where
  "starts_with s pat \<longleftrightarrow> take (length pat) s = pat"

fun contains :: "string \<Rightarrow> string \<Rightarrow> bool" where
  "contains s pat \<longleftrightarrow> starts_with s pat \<or> (case s of [] \<Rightarrow> False | _ # t \<Rightarrow> contains t pat)"

declare contains.simps [simp del]

lemma starts_with_append [simp]: "starts_with (pat @ s) pat"
  by (simp add: starts_with_def)

lemma contains_Nil [simp]: "contains [] pat \<longleftrightarrow> pat = []"
  by (auto simp: contains.simps starts_with_def)

lemma contains_Cons: "contains (c # s) pat \<longleftrightarrow> starts_with (c # s) pat \<or> contains s pat"
  by (simp add: contains.simps [of "c # s"])

lemma contains_iff: "contains s pat \<longleftrightarrow> (\<exists>a b. s = a @ pat @ b)"
proof (induction s)
  case (Cons c s)
  have sw: "starts_with (c # s) pat \<longleftrightarrow> (\<exists>b. c # s = pat @ b)"
    by (metis append_take_drop_id starts_with_append starts_with_def)
  show ?case
    unfolding contains_Cons sw Cons by (metis append_Cons append_Nil append_eq_Cons_conv)
qed simp

text \<open>The decimal form of a number, as \<open>format!\<close> writes it.\<close>

fun decimal :: "nat \<Rightarrow> string" where
  "decimal n = (if n < 10 then [char_of (n + 48)] else decimal (n div 10) @ [char_of (n mod 10 + 48)])"

declare decimal.simps [simp del]

lemma decimal_chars: "c \<in> set (decimal n) \<Longrightarrow> 48 \<le> (of_char c :: nat) \<and> (of_char c :: nat) \<le> 57"
proof (induction n rule: decimal.induct)
  case (1 n)
  show ?case
  proof (cases "n < 10")
    case True
    then show ?thesis using "1.prems" by (simp add: decimal.simps [of n])
  next
    case False
    have "c \<in> set (decimal (n div 10)) \<or> c = char_of (n mod 10 + 48)"
      using "1.prems" False by (auto simp: decimal.simps [of n])
    moreover have "n mod 10 < 10" by simp
    ultimately show ?thesis using "1.IH" [OF False] by auto
  qed
qed

end
