(* ===== verification/Fanout.thy ===== *)
theory Fanout
  imports Pq Effects
begin

text \<open>
  src/src/fanout.rs and the two header readers of src/src/lib.rs: the sealing of one fleet key to every
  member's device key, opening one's own copy, the blob that carries the copies, and the two size
  triggers. The curve, the AEAD and the extendable hash are those of other crates: the fields of
  \<open>fan_ext\<close>, with \<open>fan_ok\<close> for what the code relies on. The XChaCha20-Poly1305 calls all use the zero
  nonce, so the nonce is not an argument of \<open>aead_seal\<close> and \<open>aead_open\<close>.
\<close>

record fan_ext =
  on_curve :: "bytes \<Rightarrow> bool"
  montgomery :: "bytes \<Rightarrow> bytes"
  ed_scalar :: "bytes \<Rightarrow> bytes"
  x_public :: "bytes \<Rightarrow> bytes"
  x_dh :: "bytes \<Rightarrow> bytes \<Rightarrow> bytes"
  contributory :: "bytes \<Rightarrow> bool"
  xof64 :: "bytes \<Rightarrow> bytes"
  aead_seal :: "bytes \<Rightarrow> bytes \<Rightarrow> bytes option"
  aead_open :: "bytes \<Rightarrow> bytes \<Rightarrow> bytes option"

text \<open>A device key pair is its seed; its public key is a curve point, and both ends of an exchange
  agree on the shared secret. A sealed text opens under its own key, and the tag is short.\<close>

definition fan_ok :: "ext \<Rightarrow> fan_ext \<Rightarrow> bool" where
  "fan_ok W F \<longleftrightarrow>
     (\<forall>sk. on_curve F (ed_public W sk)) \<and>
     (\<forall>e sk. x_dh F e (montgomery F (ed_public W sk)) = x_dh F (ed_scalar F sk) (x_public F e)) \<and>
     (\<forall>e. length (x_public F e) = 32) \<and> (\<forall>x. length (xof64 F x) = 64) \<and>
     (\<forall>k p c. aead_seal F k p = Some c \<longrightarrow> aead_open F k c = Some p \<and> length c = length p + 16)"

definition FANOUT_DOMAIN_TEXT :: bytes where "FANOUT_DOMAIN_TEXT = ascii ''PHOTON_FLEET_FANOUT_v''"
definition FANOUT_MAGIC :: bytes where "FANOUT_MAGIC = ascii ''PFO''"
definition FANOUT_VERSION :: byte where "FANOUT_VERSION = 3"

definition fleet_key_fingerprint :: "ext \<Rightarrow> bytes \<Rightarrow> bytes" where
  "fleet_key_fingerprint W fleet_key = blake3_derive W ''photon.fleetkey.fp.v1'' fleet_key"

record fanout_wrap =
  fw_epk :: bytes
  fw_commit :: bytes
  fw_ct :: bytes

definition ed_to_x25519_public :: "fan_ext \<Rightarrow> bytes \<Rightarrow> bytes option" where
  "ed_to_x25519_public F ed = (if on_curve F ed then Some (montgomery F ed) else None)"

definition fanout_keys ::
  "fan_ext \<Rightarrow> bytes \<Rightarrow> bytes \<Rightarrow> bytes \<Rightarrow> bytes \<Rightarrow> bytes \<Rightarrow> bytes \<Rightarrow> bytes \<Rightarrow> bytes \<times> bytes" where
  "fanout_keys F hp kfp recipient_ed shared epk recipient_xpk identity_seed =
     (let out = xof64 F (FANOUT_DOMAIN_TEXT @ [FANOUT_VERSION] @ hp @ kfp @ recipient_ed @ epk @ recipient_xpk
                         @ shared @ identity_seed)
      in (take 32 out, drop 32 out))"

section \<open>Sealing\<close>

definition seal_one ::
  "ext \<Rightarrow> fan_ext \<Rightarrow> bytes \<Rightarrow> bytes \<Rightarrow> bytes \<Rightarrow> bytes \<Rightarrow> bytes \<Rightarrow> bytes \<Rightarrow> string + fanout_wrap" where
  "seal_one W F hp fleet_key identity_seed member_ed recipient_xpk esk =
     (let epk = x_public F esk; shared = x_dh F esk recipient_xpk in
      if \<not> contributory F shared then Inl ''fanout: member pubkey is low-order''
      else case fanout_keys F hp (fleet_key_fingerprint W fleet_key) member_ed shared epk recipient_xpk identity_seed of
        (ak, commit) \<Rightarrow>
          try_r (ok_or ''fanout: seal failed'' (aead_seal F ak fleet_key))
            (\<lambda>ct. Inr \<lparr>fw_epk = epk, fw_commit = commit, fw_ct = ct\<rparr>))"

text \<open>The loop over the members; \<open>rnd\<close> is \<open>random32\<close>, drawn once per member after its key is converted.\<close>

fun fanout_seal ::
  "ext \<Rightarrow> fan_ext \<Rightarrow> ('s \<Rightarrow> bytes \<times> 's) \<Rightarrow> bytes \<Rightarrow> bytes \<Rightarrow> bytes list \<Rightarrow> bytes \<Rightarrow> 's
    \<Rightarrow> (string + fanout_wrap list) \<times> 's" where
  "fanout_seal W F rnd hp fleet_key [] identity_seed = lift_s (Inr [])"
| "fanout_seal W F rnd hp fleet_key (member_ed # members) identity_seed =
     try_s (lift_s (ok_or ''fanout: bad member pubkey'' (ed_to_x25519_public F member_ed))) (\<lambda>xpk.
     bind_s rnd (\<lambda>esk.
     try_s (lift_s (seal_one W F hp fleet_key identity_seed member_ed xpk esk)) (\<lambda>w.
     try_s (fanout_seal W F rnd hp fleet_key members identity_seed) (\<lambda>ws. lift_s (Inr (w # ws))))))"

section \<open>Opening\<close>

definition open_wrap ::
  "ext \<Rightarrow> fan_ext \<Rightarrow> bytes \<Rightarrow> bytes \<Rightarrow> bytes \<Rightarrow> bytes \<Rightarrow> fanout_wrap \<Rightarrow> bytes option" where
  "open_wrap W F hp kfp sk identity_seed w =
     (let shared = x_dh F (ed_scalar F sk) (fw_epk w) in
      if \<not> contributory F shared then None
      else case fanout_keys F hp kfp (ed_public W sk) shared (fw_epk w) (montgomery F (ed_public W sk)) identity_seed of
        (ak, commit) \<Rightarrow>
          if commit \<noteq> fw_commit w then None
          else case aead_open F ak (fw_ct w) of None \<Rightarrow> None
            | Some k \<Rightarrow> if length k = 32 \<and> fleet_key_fingerprint W k = kfp then Some k else None)"

fun fanout_open ::
  "ext \<Rightarrow> fan_ext \<Rightarrow> bytes \<Rightarrow> bytes \<Rightarrow> fanout_wrap list \<Rightarrow> bytes \<Rightarrow> bytes \<Rightarrow> bytes option" where
  "fanout_open W F hp kfp [] sk identity_seed = None"
| "fanout_open W F hp kfp (w # wraps) sk identity_seed =
     (case open_wrap W F hp kfp sk identity_seed w of Some k \<Rightarrow> Some k
      | None \<Rightarrow> fanout_open W F hp kfp wraps sk identity_seed)"

section \<open>The blob\<close>

record fanout =
  fan_revision :: u64
  fan_kfp :: bytes
  fan_rotator_ed :: bytes
  fan_epoch_pub :: key_bundle
  fan_wraps :: "fanout_wrap list"

definition wrap_to_bytes :: "fanout_wrap \<Rightarrow> bytes" where
  "wrap_to_bytes w = fw_epk w @ fw_commit w @ u32_be (of_nat (length (fw_ct w))) @ fw_ct w"

definition fanout_to_bytes :: "u64 \<Rightarrow> bytes \<Rightarrow> bytes \<Rightarrow> key_bundle \<Rightarrow> fanout_wrap list \<Rightarrow> bytes" where
  "fanout_to_bytes revision kfp rotator_ed epoch_pub wraps =
     (let ep = bundle_to_bytes epoch_pub in
      FANOUT_MAGIC @ [FANOUT_VERSION] @ u64_be revision @ kfp @ rotator_ed @ u16_be (of_nat (length ep)) @ ep
      @ u32_be (of_nat (length wraps)) @ concat (map wrap_to_bytes wraps))"

definition fan_take :: "nat \<Rightarrow> bytes \<Rightarrow> string + bytes \<times> bytes" where
  "fan_take n bs = take_n ''fanout: truncated'' n bs"

definition read_wrap :: "bytes \<Rightarrow> string + fanout_wrap \<times> bytes" where
  "read_wrap bs =
     try_r (fan_take 32 bs) (\<lambda>(epk, bs).
     try_r (fan_take 32 bs) (\<lambda>(commit, bs).
     try_r (fan_take 4 bs) (\<lambda>(n, bs).
     try_r (fan_take (unat (u32_of_be n)) bs) (\<lambda>(ct, bs).
     Inr (\<lparr>fw_epk = epk, fw_commit = commit, fw_ct = ct\<rparr>, bs)))))"

definition fanout_from_bytes_full :: "ext \<Rightarrow> bytes \<Rightarrow> string + fanout" where
  "fanout_from_bytes_full W bs =
     try_r (fan_take 3 bs) (\<lambda>(magic, bs).
     if magic \<noteq> FANOUT_MAGIC then Inl ''fanout: bad magic'' else
     try_r (fan_take 1 bs) (\<lambda>(v, bs).
     if v \<noteq> [FANOUT_VERSION] then Inl ''fanout: version mismatch'' else
     try_r (fan_take 8 bs) (\<lambda>(rev, bs).
     try_r (fan_take 32 bs) (\<lambda>(kfp, bs).
     try_r (fan_take 32 bs) (\<lambda>(rot, bs).
     try_r (fan_take 2 bs) (\<lambda>(n, bs).
     try_r (fan_take (unat (u16_of_be n)) bs) (\<lambda>(ep, bs).
     try_r (map_err (\<lambda>e. ''fanout: epoch bundle: '' @ bundle_error_text e) (bundle_from_bytes W ep)) (\<lambda>epoch_pub.
     try_r (fan_take 4 bs) (\<lambda>(c, bs).
     let cnt = unat (u32_of_be c) in
     if 1024 < cnt then Inl ''fanout: implausible wrap count'' else
     try_r (read_run read_wrap cnt bs) (\<lambda>(wraps, bs).
     Inr \<lparr>fan_revision = u64_of_be rev, fan_kfp = kfp, fan_rotator_ed = rot, fan_epoch_pub = epoch_pub,
          fan_wraps = wraps\<rparr>))))))))))"

definition fanout_from_bytes :: "ext \<Rightarrow> bytes \<Rightarrow> string + (u64 \<times> bytes \<times> bytes \<times> fanout_wrap list)" where
  "fanout_from_bytes W bs =
     try_r (fanout_from_bytes_full W bs) (\<lambda>f. Inr (fan_revision f, fan_kfp f, fan_rotator_ed f, fan_wraps f))"

text \<open>lib.rs: the readers of the header alone, compiled without the rest.\<close>

definition fanout_blob_epoch :: "bytes \<Rightarrow> u64 option" where
  "fanout_blob_epoch bs =
     (if 12 \<le> length bs \<and> take 3 bs = ascii ''PFO'' then Some (u64_of_be (take 8 (drop 4 bs))) else None)"

definition fanout_blob_epoch_pub :: "ext \<Rightarrow> bytes \<Rightarrow> key_bundle option" where
  "fanout_blob_epoch_pub W bs =
     (if length bs < 78 \<or> take 3 bs \<noteq> ascii ''PFO'' \<or> bs ! 3 \<noteq> 3 then None
      else let n = unat (u16_of_be [bs ! 76, bs ! 77]) in
        if length bs < 78 + n then None
        else case bundle_from_bytes W (take n (drop 78 bs)) of Inr b \<Rightarrow> Some b | Inl _ \<Rightarrow> None)"

section \<open>The size triggers\<close>

definition fanout_needs_rotation :: "nat \<Rightarrow> nat \<Rightarrow> bool" where
  "fanout_needs_rotation wrap_count member_count \<longleftrightarrow> 0 < member_count \<and> member_count < wrap_count"

definition fanout_needs_grow :: "nat \<Rightarrow> nat \<Rightarrow> bool" where
  "fanout_needs_grow wrap_count member_count \<longleftrightarrow> wrap_count < member_count"

end
