(* ===== verification/Fanout_Props.thy ===== *)
theory Fanout_Props
  imports Fanout Demo_World
begin

text \<open>
  What the fan-out gives: the blob codec and the readers of its header, the delivery of the key to every
  member and to nobody through a wrap that does not name the key, and the two size triggers.
\<close>

section \<open>The wire form\<close>

definition wrap_ok :: "fanout_wrap \<Rightarrow> bool" where
  "wrap_ok w \<longleftrightarrow> length (fw_epk w) = 32 \<and> length (fw_commit w) = 32 \<and> length (fw_ct w) < 2 ^ 32"

lemma fan_take_append [simp]: "length a = n \<Longrightarrow> fan_take n (a @ r) = Inr (a, r)"
  by (simp add: fan_take_def)

lemma fan_take_one [simp]: "fan_take (Suc 0) (x # r) = Inr ([x], r)"
  by (simp add: fan_take_def take_n_def)

lemma fan_take_Inr [try_elims]: "fan_take n bs = Inr (a, r) \<longleftrightarrow> bs = a @ r \<and> length a = n"
  by (simp add: fan_take_def take_n_Inr)

lemma unat_of_nat_u32: "n < 2 ^ 32 \<Longrightarrow> unat (of_nat n :: u32) = n"
  by (simp add: unat_of_nat)

lemma unat_of_nat_u16: "n < 65536 \<Longrightarrow> unat (of_nat n :: u16) = n"
  by (simp add: unat_of_nat)

interpretation wrap_codec: codec wrap_to_bytes read_wrap wrap_ok
proof
  fix w :: fanout_wrap and r
  assume ok: "wrap_ok w"
  then have "unat (of_nat (length (fw_ct w)) :: u32) = length (fw_ct w)"
    by (simp add: wrap_ok_def unat_of_nat_u32)
  then show "read_wrap (wrap_to_bytes w @ r) = Inr (w, r)"
    using ok by (simp add: read_wrap_def wrap_to_bytes_def wrap_ok_def)
qed

definition fanout_ok :: "ext \<Rightarrow> fanout \<Rightarrow> bool" where
  "fanout_ok W f \<longleftrightarrow> length (fan_kfp f) = 32 \<and> length (fan_rotator_ed f) = 32 \<and> wf_bundle W (fan_epoch_pub f) \<and>
     length (bundle_to_bytes (fan_epoch_pub f)) < 65536 \<and> list_all wrap_ok (fan_wraps f) \<and>
     length (fan_wraps f) < 2 ^ 32"

lemma fanout_blob_split:
  "fanout_to_bytes r k e b ws =
     ascii ''PFO'' @ [3] @ u64_be r @ k @ e @ u16_be (of_nat (length (bundle_to_bytes b))) @ bundle_to_bytes b
     @ u32_be (of_nat (length ws)) @ concat (map wrap_to_bytes ws)"
  by (simp add: fanout_to_bytes_def Let_def FANOUT_MAGIC_def FANOUT_VERSION_def)

lemma fanout_parse:
  assumes W: "ext_ok W" and ok: "fanout_ok W f"
  shows "fanout_from_bytes_full W
      (fanout_to_bytes (fan_revision f) (fan_kfp f) (fan_rotator_ed f) (fan_epoch_pub f) (fan_wraps f) @ junk) =
    (if 1024 < length (fan_wraps f) then Inl ''fanout: implausible wrap count'' else Inr f)"
proof -
  let ?ep = "bundle_to_bytes (fan_epoch_pub f)" and ?ws = "fan_wraps f"
  have n: "unat (of_nat (length ?ep) :: u16) = length ?ep"
    using ok by (simp add: fanout_ok_def unat_of_nat_u16)
  have c: "unat (of_nat (length ?ws) :: u32) = length ?ws"
    using ok by (simp add: fanout_ok_def unat_of_nat_u32)
  have b: "bundle_from_bytes W ?ep = Inr (fan_epoch_pub f)"
    using bundle_roundtrip [OF W] ok by (simp add: fanout_ok_def)
  have r: "read_run read_wrap (length ?ws) (concat (map wrap_to_bytes ?ws) @ junk) = Inr (?ws, junk)"
    using wrap_codec.read_run_enc ok by (simp add: fanout_ok_def)
  have "length (fan_kfp f) = 32" "length (fan_rotator_ed f) = 32" using ok by (simp_all add: fanout_ok_def)
  then show ?thesis
    unfolding fanout_blob_split
    by (simp add: fanout_from_bytes_full_def FANOUT_MAGIC_def FANOUT_VERSION_def n c b r Let_def)
qed

text \<open>What a parse proves of the bytes.\<close>

lemma read_wrap_Inr:
  "read_wrap bs = Inr (w, r) \<Longrightarrow> wrap_ok w \<and> bs = wrap_to_bytes w @ r"
proof -
  assume "read_wrap bs = Inr (w, r)"
  then obtain a b n c where *: "bs = a @ b @ n @ c @ r" "length a = 32" "length b = 32" "length n = 4"
    "length c = unat (u32_of_be n)" "w = \<lparr>fw_epk = a, fw_commit = b, fw_ct = c\<rparr>"
    by (auto simp: read_wrap_def try_elims)
  have "n = u32_be (u32_of_be n)"
    using be_enc_dec [OF *(4)] be_dec_enc_id unat_u32_of_le_bound [of "rev n"] *(4)
    by (simp add: u32_be_def u32_of_be_def be_dec_def u32_of_le_def)
  then have "n = u32_be (of_nat (length c))" by (simp add: *(5))
  then show ?thesis using * unsigned_less [of "u32_of_be n"] by (simp add: wrap_ok_def wrap_to_bytes_def)
qed

lemma read_wraps_Inr:
  "read_run read_wrap n bs = Inr (ws, r) \<Longrightarrow>
     length ws = n \<and> list_all wrap_ok ws \<and> bs = concat (map wrap_to_bytes ws) @ r"
  by (induction n arbitrary: bs ws) (auto split: sum.splits prod.splits dest: read_wrap_Inr)

lemma fanout_full_Inr:
  assumes "fanout_from_bytes_full W bs = Inr f"
  shows "\<exists>ep n c wb. bs = ascii ''PFO'' @ [3] @ u64_be (fan_revision f) @ fan_kfp f @ fan_rotator_ed f @ n @ ep @ c @ wb
    \<and> length (fan_kfp f) = 32 \<and> length (fan_rotator_ed f) = 32 \<and> length n = 2 \<and> length ep = unat (u16_of_be n)
    \<and> bundle_from_bytes W ep = Inr (fan_epoch_pub f) \<and> length c = 4 \<and> length (fan_wraps f) = unat (u32_of_be c)
    \<and> length (fan_wraps f) \<le> 1024 \<and> (\<exists>r. read_run read_wrap (length (fan_wraps f)) wb = Inr (fan_wraps f, r))"
proof -
  have u: "u64_be (u64_of_be x) = x" if "length x = 8" for x :: bytes
    using be_enc_dec [OF that] le_dec_bound [of "rev x"] that
    by (simp add: u64_be_def u64_of_be_def be_dec_def unat_of_nat)
  from assms obtain rev k e n ep c wb x r where *:
    "bs = ascii ''PFO'' @ [3] @ rev @ k @ e @ n @ ep @ c @ wb" "length rev = 8" "length k = 32" "length e = 32"
    "length n = 2" "length ep = unat (u16_of_be n)" "bundle_from_bytes W ep = Inr x" "length c = 4"
    "\<not> 1024 < unat (u32_of_be c)" "read_run read_wrap (unat (u32_of_be c)) wb = Inr (fan_wraps f, r)"
    "f = \<lparr>fan_revision = u64_of_be rev, fan_kfp = k, fan_rotator_ed = e, fan_epoch_pub = x, fan_wraps = fan_wraps f\<rparr>"
    unfolding fanout_from_bytes_full_def
    by (auto simp: try_elims FANOUT_MAGIC_def FANOUT_VERSION_def Let_def split: if_splits)
  have sel: "fan_revision f = u64_of_be rev" "fan_kfp f = k" "fan_rotator_ed f = e" "fan_epoch_pub f = x"
    by (subst *(11), simp)+
  have len: "length (fan_wraps f) = unat (u32_of_be c)" using read_wraps_Inr [OF *(10)] by simp
  show ?thesis
    unfolding sel u [OF *(2)]
    by (rule exI [of _ ep], rule exI [of _ n], rule exI [of _ c], rule exI [of _ wb])
       (use * len in auto)
qed

section \<open>Opening\<close>

lemma open_wrap_Some:
  assumes "open_wrap W F hp kfp sk seed w = Some k"
  shows "length k = 32 \<and> fleet_key_fingerprint W k = kfp \<and> contributory F (x_dh F (ed_scalar F sk) (fw_epk w)) \<and>
    snd (fanout_keys F hp kfp (ed_public W sk) (x_dh F (ed_scalar F sk) (fw_epk w)) (fw_epk w)
      (montgomery F (ed_public W sk)) seed) = fw_commit w"
  using assms by (auto simp: open_wrap_def Let_def split: if_splits prod.splits option.splits)

lemma fanout_open_find:
  "fanout_open W F hp kfp ws sk seed = Some k \<Longrightarrow> \<exists>w \<in> set ws. open_wrap W F hp kfp sk seed w = Some k"
  by (induction ws) (auto split: option.splits)

lemma fanout_open_None:
  "fanout_open W F hp kfp ws sk seed = None \<longleftrightarrow> (\<forall>w \<in> set ws. open_wrap W F hp kfp sk seed w = None)"
  by (induction ws) (auto split: option.splits)

lemma seal_one_opens:
  assumes F: "fan_ok W F" and key: "length key = 32"
    and s: "seal_one W F hp key seed (ed_public W sk) (montgomery F (ed_public W sk)) esk = Inr w"
  shows "open_wrap W F hp (fleet_key_fingerprint W key) sk seed w = Some key"
proof -
  let ?p = "ed_public W sk" and ?e = "x_public F esk"
  let ?keys = "fanout_keys F hp (fleet_key_fingerprint W key) ?p (x_dh F esk (montgomery F ?p)) ?e (montgomery F ?p) seed"
  have dh: "x_dh F esk (montgomery F ?p) = x_dh F (ed_scalar F sk) ?e" using F by (simp add: fan_ok_def)
  obtain ct where ct: "aead_seal F (fst ?keys) key = Some ct"
    and w: "w = \<lparr>fw_epk = ?e, fw_commit = snd ?keys, fw_ct = ct\<rparr>"
    and c: "contributory F (x_dh F esk (montgomery F ?p))"
    using s by (auto simp: seal_one_def Let_def try_elims split: if_splits prod.splits)
  have "aead_open F (fst ?keys) ct = Some key" using ct F by (simp add: fan_ok_def)
  then show ?thesis using c key unfolding w
    by (simp add: open_wrap_def Let_def case_prod_beta dh)
qed

lemma fanout_seal_Inr:
  "fanout_seal W F rnd hp key members seed s = (Inr ws, t) \<Longrightarrow>
     length ws = length members \<and>
     (\<forall>m \<in> set members. \<exists>esk. \<exists>w \<in> set ws. on_curve F m \<and> seal_one W F hp key seed m (montgomery F m) esk = Inr w)"
proof (induction members arbitrary: ws s)
  case (Cons m members)
  then show ?case
    by (fastforce simp: try_elims ed_to_x25519_public_def split: if_splits)
qed simp

lemma member_opens:
  assumes F: "fan_ok W F" and key: "length key = 32" and w: "w \<in> set ws"
    "seal_one W F hp key seed (ed_public W sk) (montgomery F (ed_public W sk)) esk = Inr w"
  shows "\<exists>k. fanout_open W F hp (fleet_key_fingerprint W key) ws sk seed = Some k \<and> length k = 32 \<and>
    fleet_key_fingerprint W k = fleet_key_fingerprint W key"
proof -
  obtain k where k: "fanout_open W F hp (fleet_key_fingerprint W key) ws sk seed = Some k"
    using seal_one_opens [OF F key w(2)] w(1) fanout_open_None by (metis option.distinct(1) not_Some_eq)
  from fanout_open_find [OF k] k show ?thesis by (auto dest: open_wrap_Some)
qed

lemma fanout_seal_wraps_ok:
  assumes F: "fan_ok W F" and key: "length key = 32"
  shows "fanout_seal W F rnd hp key members seed s = (Inr ws, t) \<Longrightarrow> list_all wrap_ok ws"
proof (induction members arbitrary: ws s)
  case (Cons m members)
  have one: "wrap_ok w" if "seal_one W F hp key seed m x esk = Inr w" for x esk w
    using that F key
    by (auto simp: seal_one_def Let_def try_elims wrap_ok_def fan_ok_def fanout_keys_def split: if_splits prod.splits)
  show ?case using Cons.prems Cons.IH
    by (auto simp: try_elims dest: one)
qed simp

section \<open>Properties\<close>

lemma bundle_bytes_len: "length (bundle_to_bytes b) < 65536 \<Longrightarrow> unat (u16_of_be (u16_be (of_nat (length (bundle_to_bytes b))))) = length (bundle_to_bytes b)"
  by (simp add: unat_of_nat_u16)

lemma two_bytes: "length n = 2 \<Longrightarrow> [n ! 0, n ! 1] = n"
  by (cases n rule: list.exhaust; simp) (metis length_0_conv length_Suc_conv nth_Cons_0)

lemma header_readers:
  assumes bs: "bs = ascii ''PFO'' @ [3] @ u64_be r @ k @ e @ n @ ep @ rest"
    and len: "length k = 32" "length e = 32" "length n = 2" "length ep = unat (u16_of_be n)"
    and b: "bundle_from_bytes W ep = Inr b"
  shows "fanout_blob_epoch bs = Some r" and "fanout_blob_epoch_pub W bs = Some b"
proof -
  let ?pre = "ascii ''PFO'' @ [3] @ u64_be r @ k @ e"
  have pre: "length ?pre = 76" using len by simp
  have bs': "bs = ?pre @ n @ ep @ rest" using bs by simp
  have "bs ! 76 = n ! 0" "bs ! 77 = n ! 1"
    unfolding bs' using len(3) pre by (simp_all only: nth_append) auto
  then have nn: "[bs ! 76, bs ! 77] = n" using two_bytes [OF len(3)] by simp
  have d: "drop 78 bs = ep @ rest" unfolding bs' using pre len(3) by (simp only: drop_append) simp
  have l: "\<not> length bs < 78 + length ep" unfolding bs' using pre len(3) by simp
  have hd: "take 3 bs = ascii ''PFO''" "bs ! 3 = 3" "take 8 (drop 4 bs) = u64_be r"
    unfolding bs by (simp_all add: nth_append)
  show "fanout_blob_epoch bs = Some r" using l len(1) hd by (simp add: fanout_blob_epoch_def bs)
  have "\<not> length bs < 78" using l by simp
  then show "fanout_blob_epoch_pub W bs = Some b"
    using l hd d len(4) b by (simp add: fanout_blob_epoch_pub_def nn)
qed

text \<open>C35: a published fan-out reads back exactly, whatever follows it in the slot, as long as it has at most
  1024 copies of the key; a larger one is written without complaint and no reader accepts it. The
  readers that compile without the fan-out code see the same revision and epoch keys.\<close>

theorem fanout_roundtrip:
  assumes "ext_ok W" and "fanout_ok W f"
    and "bs = fanout_to_bytes (fan_revision f) (fan_kfp f) (fan_rotator_ed f) (fan_epoch_pub f) (fan_wraps f) @ junk"
  shows "fanout_from_bytes_full W bs =
      (if 1024 < length (fan_wraps f) then Inl ''fanout: implausible wrap count'' else Inr f)
    \<and> fanout_blob_epoch bs = Some (fan_revision f) \<and> fanout_blob_epoch_pub W bs = Some (fan_epoch_pub f)"
proof -
  let ?ep = "bundle_to_bytes (fan_epoch_pub f)"
  have "bs = ascii ''PFO'' @ [3] @ u64_be (fan_revision f) @ fan_kfp f @ fan_rotator_ed f @ u16_be (of_nat (length ?ep))
      @ ?ep @ u32_be (of_nat (length (fan_wraps f))) @ concat (map wrap_to_bytes (fan_wraps f)) @ junk"
    by (simp add: assms(3) fanout_blob_split)
  note read = header_readers [OF this, of W "fan_epoch_pub f"]
  have "bundle_from_bytes W ?ep = Inr (fan_epoch_pub f)"
    using assms(2) bundle_roundtrip [OF assms(1)] by (simp add: fanout_ok_def)
  with read show ?thesis
    using assms(2) fanout_parse [OF assms(1,2)]
    by (simp add: assms(3) fanout_ok_def unat_of_nat_u16)
qed

text \<open>Bytes from the network: whatever parses has at most 1024 copies, every field of its fixed size, a
  well-formed epoch bundle and no more ciphertext than there were bytes; and the header readers agree
  with the full parser.\<close>

theorem fanout_parse_bounds:
  assumes "fanout_from_bytes_full W bs = Inr f"
  shows "length (fan_wraps f) \<le> 1024 \<and> list_all wrap_ok (fan_wraps f)
    \<and> (\<Sum>w\<leftarrow>fan_wraps f. 68 + length (fw_ct w)) + 82 \<le> length bs
    \<and> length (fan_kfp f) = 32 \<and> length (fan_rotator_ed f) = 32 \<and> wf_bundle W (fan_epoch_pub f)
    \<and> fanout_blob_epoch bs = Some (fan_revision f) \<and> fanout_blob_epoch_pub W bs = Some (fan_epoch_pub f)"
proof -
  obtain ep n c wb r where bs: "bs = ascii ''PFO'' @ [3] @ u64_be (fan_revision f) @ fan_kfp f @ fan_rotator_ed f @ n @ ep @ c @ wb"
    and len: "length (fan_kfp f) = 32" "length (fan_rotator_ed f) = 32" "length n = 2" "length ep = unat (u16_of_be n)"
    and b: "bundle_from_bytes W ep = Inr (fan_epoch_pub f)" and c: "length c = 4" "length (fan_wraps f) \<le> 1024"
    and w: "read_run read_wrap (length (fan_wraps f)) wb = Inr (fan_wraps f, r)"
    using fanout_full_Inr [OF assms] by blast
  have ws: "list_all wrap_ok (fan_wraps f)" "wb = concat (map wrap_to_bytes (fan_wraps f)) @ r"
    using read_wraps_Inr [OF w] by simp_all
  have "(\<Sum>x\<leftarrow>xs. 68 + length (fw_ct x)) = length (concat (map wrap_to_bytes xs))" if "list_all wrap_ok xs" for xs
    using that by (induction xs) (auto simp: wrap_to_bytes_def wrap_ok_def)
  from this [OF ws(1)] have "(\<Sum>x\<leftarrow>fan_wraps f. 68 + length (fw_ct x)) \<le> length wb" using ws(2) by simp
  moreover have "length bs = 78 + length ep + 4 + length wb" using len c by (simp add: bs)
  ultimately show ?thesis
    using header_readers [OF bs len b] len c ws bundle_from_bytes_wf [OF b] by simp
qed

text \<open>Delivery: when sealing succeeds there is one copy per listed member, and every listed device,
  with its own secret and the identity seed, opens a key with the published fingerprint; it is the
  sealed key unless the fingerprint function collides.\<close>

theorem fanout_delivers:
  assumes "fan_ok W F" and "length key = 32" and "fanout_seal W F rnd hp key members seed s = (Inr ws, t)"
    and "ed_public W sk \<in> set members"
  shows "length ws = length members \<and>
    (\<exists>k. fanout_open W F hp (fleet_key_fingerprint W key) ws sk seed = Some k \<and> length k = 32 \<and>
      fleet_key_fingerprint W k = fleet_key_fingerprint W key)"
proof -
  obtain esk w where w: "w \<in> set ws" "seal_one W F hp key seed (ed_public W sk) (montgomery F (ed_public W sk)) esk = Inr w"
    using fanout_seal_Inr [OF assms(3)] assms(4) by blast
  from member_opens [OF assms(1,2) w] show ?thesis using fanout_seal_Inr [OF assms(3)] by simp
qed

text \<open>The triggers compare sizes only: after a successful seal for \<open>members\<close>, rotation is asked for
  exactly when the desired set is smaller and not empty, growth exactly when it is larger; when one
  member left and another joined neither fires, although the first still has its copy and the second
  has none.\<close>

theorem fanout_triggers_by_size:
  assumes "fanout_seal W F rnd hp key members seed s = (Inr ws, t)"
  shows "(fanout_needs_rotation (length ws) (length desired) \<longleftrightarrow> desired \<noteq> [] \<and> length desired < length members)
    \<and> (fanout_needs_grow (length ws) (length desired) \<longleftrightarrow> length members < length desired)"
  using fanout_seal_Inr [OF assms] by (simp add: fanout_needs_rotation_def fanout_needs_grow_def)

section \<open>Examples\<close>

definition demo_fan :: fan_ext where
  "demo_fan = \<lparr>on_curve = (\<lambda>x. True), montgomery = id, ed_scalar = pad32, x_public = pad32,
     x_dh = (\<lambda>a b. map2 (\<lambda>x y. x XOR y) (pad32 a) (pad32 b)), contributory = (\<lambda>x. True),
     xof64 = (\<lambda>x. demo_hash x @ demo_hash x),
     aead_seal = (\<lambda>k p. Some (p @ take 16 (pad32 k))),
     aead_open = (\<lambda>k c. if drop (length c - 16) c = take 16 (pad32 k) then Some (take (length c - 16) c) else None)\<rparr>"

lemma map2_xor_commute: "map2 (\<lambda>x y. x XOR y) xs ys = map2 (\<lambda>x y. x XOR y) ys (xs :: byte list)"
  by (induction xs ys rule: list_induct2') (simp_all add: xor.commute)

lemma demo_fan_ok: "fan_ok demo_ext demo_fan"
  by (auto simp: fan_ok_def demo_fan_def demo_ext_def map2_xor_commute)

definition demo_fanout :: fanout where
  "demo_fanout = \<lparr>fan_revision = 3, fan_kfp = zero32, fan_rotator_ed = demo_seed 1, fan_epoch_pub = demo_bundle,
     fan_wraps = [\<lparr>fw_epk = zero32, fw_commit = zero32, fw_ct = [1, 2]\<rparr>]\<rparr>"

lemma demo_bundle_small: "length (bundle_to_bytes demo_bundle) < 65536"
  by (simp add: demo_bundle_def bundle_to_bytes_def key_to_bytes_def)

lemma demo_fanout_ok: "fanout_ok demo_ext demo_fanout"
  using demo_bundle_wf demo_bundle_small by (simp add: fanout_ok_def demo_fanout_def wrap_ok_def)

theorem fanout_roundtrip_witness:
  "fanout_from_bytes_full demo_ext (fanout_to_bytes 3 zero32 (demo_seed 1) demo_bundle (fan_wraps demo_fanout) @ [9]) = Inr demo_fanout"
  using fanout_roundtrip [OF demo_ext_ok demo_fanout_ok refl, of "[9]"] by (simp add: demo_fanout_def)

lemma demo_fanout_reads: "fanout_from_bytes_full demo_ext
    (fanout_to_bytes 3 zero32 (demo_seed 1) demo_bundle (fan_wraps demo_fanout) @ [9]) = Inr demo_fanout"
  using fanout_parse [OF demo_ext_ok demo_fanout_ok, of "[9]"] by (simp add: demo_fanout_def)

theorem fanout_parse_bounds_witness:
  "fanout_blob_epoch (fanout_to_bytes 3 zero32 (demo_seed 1) demo_bundle (fan_wraps demo_fanout) @ [9]) = Some 3"
  using fanout_parse_bounds [OF demo_fanout_reads] by (simp add: demo_fanout_def)

lemma demo_seal: "\<exists>ws. fanout_seal demo_ext demo_fan (\<lambda>s. (demo_seed 7, s)) zero32 zero32 [demo_seed 1, demo_seed 2] zero32 0
    = (Inr ws, 0 :: nat)"
  by (simp add: demo_fan_def ed_to_x25519_public_def seal_one_def Let_def case_prod_beta try_s_def bind_s_def)

theorem fanout_delivers_witness:
  "\<exists>ws k. fst (fanout_seal demo_ext demo_fan (\<lambda>s. (demo_seed 7, s)) zero32 zero32 [demo_seed 1, demo_seed 2] zero32 (0 :: nat)) = Inr ws
    \<and> fanout_open demo_ext demo_fan zero32 (fleet_key_fingerprint demo_ext zero32) ws (demo_seed 2) zero32 = Some k"
proof -
  obtain ws where ws: "fanout_seal demo_ext demo_fan (\<lambda>s. (demo_seed 7, s)) zero32 zero32 [demo_seed 1, demo_seed 2] zero32 0
    = (Inr ws, 0 :: nat)" using demo_seal by blast
  have "ed_public demo_ext (demo_seed 2) \<in> set [demo_seed 1, demo_seed 2]" by (simp add: demo_ext_def pad32_id)
  from fanout_delivers [OF demo_fan_ok _ ws this] ws show ?thesis by auto
qed

theorem fanout_triggers_by_size_witness:
  "\<exists>ws. \<not> fanout_needs_rotation (length ws) (length [demo_seed 1, demo_seed 3])
    \<and> fst (fanout_seal demo_ext demo_fan (\<lambda>s. (demo_seed 7, s)) zero32 zero32 [demo_seed 1, demo_seed 2] zero32 (0 :: nat)) = Inr ws"
proof -
  obtain ws where ws: "fanout_seal demo_ext demo_fan (\<lambda>s. (demo_seed 7, s)) zero32 zero32 [demo_seed 1, demo_seed 2] zero32 0
    = (Inr ws, 0 :: nat)" using demo_seal by blast
  from fanout_triggers_by_size [OF this, of "[demo_seed 1, demo_seed 3]"] ws show ?thesis by auto
qed

end
