(* ===== verification/Chain_Doc.thy ===== *)
theory Chain_Doc
  imports Fleet_Wire Fleet_Adopt Effects
begin

text \<open>
  The documents of src/src/fleet.rs around the op codec, \<open>to_vsf_bytes\<close> and \<open>from_vsf_bytes\<close> of the chain
  and of the succession record, and the envelope pair \<open>sign_envelope\<close> / \<open>verify_envelope\<close> of
  src/src/pq.rs. The container itself (header, table of contents, anchors) is the \<open>vsf\<close> crate: the
  fields of \<open>vsf_doc\<close>. A section is its name and its fields, a field a name and its values.
\<close>

record vsection =
  vs_name :: string
  vs_fields :: "(string \<times> vsf list) list"

record vsf_doc =
  vd_build :: "i64 \<Rightarrow> vsection \<Rightarrow> string + bytes"
  vd_build_signed :: "i64 \<Rightarrow> bytes \<Rightarrow> (byte \<times> nat) list \<Rightarrow> vsection \<Rightarrow> string + bytes"
  vd_sign_with :: "bytes \<Rightarrow> (bytes \<Rightarrow> egg list) \<Rightarrow> string + bytes"
  vd_read_verified :: "bytes \<Rightarrow> string + unit"
  vd_primary :: "bytes \<Rightarrow> string + vsection"
  vd_header_eggs :: "bytes \<Rightarrow> string + bytes \<times> egg list \<times> bytes"
  vd_file_signature :: "bytes \<Rightarrow> string + bool"
  vd_header_signer :: "bytes \<Rightarrow> string + vsf option"

text \<open>\<open>get_fields\<close>, \<open>get_field\<close> and the first value of a field.\<close>

definition get_fields :: "vsection \<Rightarrow> string \<Rightarrow> vsf list list" where
  "get_fields s n = map snd (filter (\<lambda>f. fst f = n) (vs_fields s))"

definition get_field :: "vsection \<Rightarrow> string \<Rightarrow> vsf list option" where
  "get_field s n = map_of (vs_fields s) n"

definition first_value :: "vsection \<Rightarrow> string \<Rightarrow> vsf option" where
  "first_value s n = (case get_field s n of Some (v # _) \<Rightarrow> Some v | _ \<Rightarrow> None)"

text \<open>What the container keeps of a section: its name, and field by field the name and the values, an unsigned
  integer at the width that fits.\<close>

definition same_section :: "vsection \<Rightarrow> vsection \<Rightarrow> bool" where
  "same_section s s' \<longleftrightarrow> vs_name s' = vs_name s \<and>
     list_all2 (\<lambda>f f'. fst f' = fst f \<and> list_all2 same_value (snd f) (snd f')) (vs_fields s) (vs_fields s')"

lemma same_section_refl [simp]: "same_section s s"
  by (simp add: same_section_def list.rel_refl)

lemma same_section_fields:
  "list_all2 (\<lambda>f f'. fst f' = fst f \<and> list_all2 same_value (snd f) (snd f')) fs fs' \<Longrightarrow>
     rel_option (list_all2 same_value) (map_of fs n) (map_of fs' n) \<and>
     list_all2 (list_all2 same_value) (map snd (filter (\<lambda>f. fst f = n) fs)) (map snd (filter (\<lambda>f. fst f = n) fs'))"
  by (induction rule: list_all2_induct) auto

lemma same_section_get_fields: "same_section s s' \<Longrightarrow> list_all2 (list_all2 same_value) (get_fields s n) (get_fields s' n)"
  unfolding same_section_def get_fields_def by (elim conjE, rule same_section_fields [THEN conjunct2])

lemma same_section_get_field: "same_section s s' \<Longrightarrow> rel_option (list_all2 same_value) (get_field s n) (get_field s' n)"
  unfolding same_section_def get_field_def by (elim conjE, rule same_section_fields [THEN conjunct1])

lemma same_section_first:
  assumes "same_section s s'"
  shows "rel_option same_value (first_value s n) (first_value s' n)"
  using same_section_get_field [OF assms, of n]
proof (cases rule: option.rel_cases)
  case (Some vs vs')
  then show ?thesis by (cases vs) (auto simp: first_value_def list_all2_Cons1)
qed (simp add: first_value_def)

lemma same_section_first_Some:
  "same_section s s' \<Longrightarrow> first_value s n = Some v \<Longrightarrow> \<exists>v'. first_value s' n = Some v' \<and> same_value v v'"
  using same_section_first [of s s' n] by (auto simp: option_rel_Some1)

lemma same_section_first_None: "same_section s s' \<Longrightarrow> first_value s n = None \<Longrightarrow> first_value s' n = None"
  using same_section_first [of s s' n] by simp

section \<open>The texts of the op errors\<close>

text \<open>\<open>eggs_err\<close> is the message of the egg codec of the \<open>vsf\<close> crate.\<close>

fun wire_error_text :: "string \<Rightarrow> wire_error \<Rightarrow> string" where
  "wire_error_text eggs_err NoValues = ''fleet op: no values''"
| "wire_error_text eggs_err BadVersionType = ''fleet op: bad version type''"
| "wire_error_text eggs_err (UnknownVersion v) = ''fleet op: unknown version '' @ decimal (unat v)"
| "wire_error_text eggs_err (TooFew n) = ''fleet op: need >=6 values, got '' @ decimal n"
| "wire_error_text eggs_err (BadField what t) = ''fleet op: bad '' @ what @ '' ('' @ t @ '')''"
| "wire_error_text eggs_err BadKindType = ''fleet op: bad kind type''"
| "wire_error_text eggs_err (BadKind v) = ''bad kind '' @ decimal v"
| "wire_error_text eggs_err BadTime = ''fleet op: bad time''"
| "wire_error_text eggs_err MissingIdentity = ''fleet op: genesis missing identity pubkey''"
| "wire_error_text eggs_err MissingConsentTime = ''fleet op: add missing consent time''"
| "wire_error_text eggs_err (MissingConsentSig k) =
     (if k = Remove then ''fleet op: consented remove missing consent sig'' else ''fleet op: add missing consent sig'')"
| "wire_error_text eggs_err BadConsentEggs = ''fleet op: consent '' @ eggs_err"
| "wire_error_text eggs_err (MissingCkpt what) = ''fleet op: checkpoint missing '' @ what"
| "wire_error_text eggs_err (BadBundleBytes e) = ''fleet op: '' @ bundle_error_text e"
| "wire_error_text eggs_err MissingPlateKind = ''fleet op: a v4 op without its plate kind''"
| "wire_error_text eggs_err BadPlateKind = ''fleet op: bad plate kind''"
| "wire_error_text eggs_err UnsignedPlate = ''fleet op: a plate under a version that does not sign it''"
| "wire_error_text eggs_err BadEggScheme = ''fleet egg: bad scheme''"
| "wire_error_text eggs_err BadEggSig = ''fleet egg: bad sig''"

section \<open>The chain document\<close>

definition chain_section :: "ext \<Rightarrow> blob \<Rightarrow> vsection" where
  "chain_section W ops = \<lparr>vs_name = ''fleet'', vs_fields = map (\<lambda>p. (''op'', op_field_values W p)) ops\<rparr>"

definition chain_to_vsf :: "ext \<Rightarrow> vsf_doc \<Rightarrow> i64 \<Rightarrow> blob \<Rightarrow> string + bytes" where
  "chain_to_vsf W D now ops = map_err (\<lambda>e. ''fleet to_vsf: '' @ e) (vd_build D now (chain_section W ops))"

definition parse_ops :: "ext \<Rightarrow> vsf_conv \<Rightarrow> string \<Rightarrow> vsf list list \<Rightarrow> string + blob" where
  "parse_ops W C eggs_err rows = map_r (\<lambda>vs. map_err (wire_error_text eggs_err) (parse_op W C vs)) rows"

definition chain_from_vsf :: "ext \<Rightarrow> vsf_conv \<Rightarrow> vsf_doc \<Rightarrow> string \<Rightarrow> bytes \<Rightarrow> string + blob" where
  "chain_from_vsf W C D eggs_err bs =
     try_r (map_err (\<lambda>e. ''fleet chain verification: '' @ e) (vd_read_verified D bs)) (\<lambda>_.
     try_r (map_err (\<lambda>e. ''fleet section: '' @ e) (vd_primary D bs)) (\<lambda>s.
     parse_ops W C eggs_err (get_fields s ''op'')))"

section \<open>The succession document\<close>

definition successor_section :: "ext \<Rightarrow> successor \<Rightarrow> vsection" where
  "successor_section W r = \<lparr>vs_name = ''succession'', vs_fields =
     [(''hp'', [V_hP (sr_handle_proof r)]), (''new'', [V_hb (sr_new_genesis r)])]
     @ map (\<lambda>p. (''op'', op_field_values W p)) (sr_predecessor r)
     @ map (\<lambda>e. (''cegg'', [V_ke (ce_device e), V_u (ucast (ce_scheme e)) False, V_ge (ce_sig e)])) (sr_eggs r)\<rparr>"

definition successor_to_vsf :: "ext \<Rightarrow> vsf_doc \<Rightarrow> i64 \<Rightarrow> successor \<Rightarrow> string + bytes" where
  "successor_to_vsf W D now r = map_err (\<lambda>e. ''succession to_vsf: '' @ e) (vd_build D now (successor_section W r))"

definition parse_cegg :: "vsf_conv \<Rightarrow> vsf list \<Rightarrow> string + continuity_egg" where
  "parse_cegg C v =
     try_r (ok_or ''cegg: missing device'' (vget v 0)) (\<lambda>d.
     try_r (map_err (wire_error_text []) (take_ke32 d ''cegg device'')) (\<lambda>device.
     try_r (case vget v 1 of
              Some (V_u n False) \<Rightarrow> Inr (ucast n)
            | Some other \<Rightarrow> ok_or ''cegg: bad scheme'' (as_u8 C other)
            | None \<Rightarrow> Inl ''cegg: missing scheme'') (\<lambda>scheme.
     (case vget v 2 of
        Some (V_ge s) \<Rightarrow> Inr \<lparr>ce_device = device, ce_scheme = scheme, ce_sig = s\<rparr>
      | _ \<Rightarrow> Inl ''cegg: bad sig''))))"

definition successor_from_vsf :: "ext \<Rightarrow> vsf_conv \<Rightarrow> vsf_doc \<Rightarrow> string \<Rightarrow> bytes \<Rightarrow> string + successor" where
  "successor_from_vsf W C D eggs_err bs =
     try_r (map_err (\<lambda>e. ''succession verification: '' @ e) (vd_read_verified D bs)) (\<lambda>_.
     try_r (map_err (\<lambda>e. ''succession section: '' @ e) (vd_primary D bs)) (\<lambda>s.
     try_r (ok_or ''succession: missing hp'' (first_value s ''hp'')) (\<lambda>h.
     try_r (map_err (wire_error_text []) (take_hp32 h ''hp'')) (\<lambda>hp.
     try_r (ok_or ''succession: missing new'' (first_value s ''new'')) (\<lambda>n.
     try_r (map_err (wire_error_text []) (take_hb32 n ''new'')) (\<lambda>new_gh.
     try_r (parse_ops W C eggs_err (get_fields s ''op'')) (\<lambda>ops.
     try_r (map_r (parse_cegg C) (get_fields s ''cegg'')) (\<lambda>eggs.
     Inr \<lparr>sr_handle_proof = hp, sr_new_genesis = new_gh, sr_predecessor = ops, sr_eggs = eggs\<rparr>))))))))"

section \<open>Envelopes (pq.rs)\<close>

definition sign_envelope :: "ext \<Rightarrow> vsf_doc \<Rightarrow> bytes \<Rightarrow> signer \<Rightarrow> string + bytes" where
  "sign_envelope W D doc s = vd_sign_with D doc (\<lambda>file_hash. sg_eggs s file_hash (envelope_mask W s))"

definition verify_envelope :: "ext \<Rightarrow> vsf_doc \<Rightarrow> bytes \<Rightarrow> key_bundle \<Rightarrow> u16 \<Rightarrow> string + bytes" where
  "verify_envelope W D doc bundle required =
     try_r (vd_header_eggs D doc) (\<lambda>(s, eggs, file_hash).
     if bundle_ed25519 W bundle \<noteq> s then Inl ''envelope: bundle is not the signer's''
     else if \<not> verify_eggs_declared W eggs bundle file_hash required
       then Inl ''envelope: eggs do not verify at the required tier''
     else Inr s)"

section \<open>Properties\<close>

lemma parse_ops_related:
  assumes "ext_ok W" "conv_ok C"
  shows "list_all (wire_ok W) ops \<Longrightarrow> list_all2 (list_all2 same_value) (map (op_field_values W) ops) rows \<Longrightarrow>
    parse_ops W C err rows = Inr ops"
proof (induction ops arbitrary: rows)
  case (Cons p ops)
  then show ?case using parse_op_related [OF assms, of p] by (auto simp: list_all2_Cons1 parse_ops_def)
qed (simp add: parse_ops_def)

lemma parse_ops_values:
  "ext_ok W \<Longrightarrow> conv_ok C \<Longrightarrow> list_all (wire_ok W) ops \<Longrightarrow> parse_ops W C err (map (op_field_values W) ops) = Inr ops"
  by (rule parse_ops_related) (simp_all add: list.rel_refl)

lemma get_fields_chain [simp]: "get_fields (chain_section W ops) ''op'' = map (op_field_values W) ops"
  by (simp add: get_fields_def chain_section_def comp_def)

lemma get_fields_successor [simp]:
  "get_fields (successor_section W r) ''op'' = map (op_field_values W) (sr_predecessor r)"
  "get_fields (successor_section W r) ''cegg'' =
     map (\<lambda>e. [V_ke (ce_device e), V_u (ucast (ce_scheme e)) False, V_ge (ce_sig e)]) (sr_eggs r)"
  by (simp_all add: get_fields_def successor_section_def comp_def filter_map)

lemma first_value_successor [simp]:
  "first_value (successor_section W r) ''hp'' = Some (V_hP (sr_handle_proof r))"
  "first_value (successor_section W r) ''new'' = Some (V_hb (sr_new_genesis r))"
  by (simp_all add: first_value_def get_field_def successor_section_def)

lemma parse_cegg_related:
  assumes "conv_ok C" "length (ce_device e) = 32"
    and "list_all2 same_value [V_ke (ce_device e), V_u (ucast (ce_scheme e)) False, V_ge (ce_sig e)] vs"
  shows "parse_cegg C vs = Inr e"
proof -
  obtain v where v: "vs = [V_ke (ce_device e), v, V_ge (ce_sig e)]" "unsigned_of v = Some (ucast (ce_scheme e))"
    using assms(3) by (auto simp: list_all2_Cons1)
  then show ?thesis using small_read [OF assms(1) v(2)] assms(2)
    by (cases v rule: unsigned_of.cases) (simp_all add: parse_cegg_def)
qed

lemma parse_ceggs_related:
  assumes "conv_ok C"
  shows "\<forall>e \<in> set es. length (ce_device e) = 32 \<Longrightarrow>
    list_all2 (list_all2 same_value) (map (\<lambda>e. [V_ke (ce_device e), V_u (ucast (ce_scheme e)) False, V_ge (ce_sig e)]) es) rows \<Longrightarrow>
    map_r (parse_cegg C) rows = Inr es"
proof (induction es arbitrary: rows)
  case (Cons e es)
  then obtain r rs where r: "rows = r # rs"
    "list_all2 same_value [V_ke (ce_device e), V_u (ucast (ce_scheme e)) False, V_ge (ce_sig e)] r" "map_r (parse_cegg C) rs = Inr es"
    by (auto simp: list_all2_Cons1)
  then show ?case using parse_cegg_related [OF assms _ r(2)] Cons.prems(1) by simp
qed simp

lemma accepted_wire_ok:
  "fold_inner W ops = Inr w \<Longrightarrow> \<forall>p \<in> set ops. wf_op W p \<and> v1_consent_typed W p \<Longrightarrow> list_all (wire_ok W) ops"
  using walk_before_wire_ok [OF fold_inner_walk] by (auto simp: list_all_iff)

text \<open>The container gives back the section a document was built from, integers at the width that fits.\<close>

definition doc_keeps :: "vsf_doc \<Rightarrow> i64 \<Rightarrow> vsection \<Rightarrow> bool" where
  "doc_keeps D now s \<longleftrightarrow>
     (\<forall>bs. vd_build D now s = Inr bs \<longrightarrow>
        vd_read_verified D bs = Inr () \<and> (\<exists>s'. vd_primary D bs = Inr s' \<and> same_section s s'))"

text \<open>C33: documents are lossless: the chain document of an accepted chain reads back as that chain, and a
  succession record about such a chain reads back as that record, when the container gives back the
  section it was built from, at whatever width it stored the integers.\<close>

theorem chain_documents_roundtrip:
  assumes "ext_ok W" and "conv_ok C" and "fold_inner W (sr_predecessor r) = Inr w"
    and "\<forall>p \<in> set (sr_predecessor r). wf_op W p \<and> v1_consent_typed W p"
    and "length (sr_handle_proof r) = 32" and "length (sr_new_genesis r) = 32" and "\<forall>e \<in> set (sr_eggs r). length (ce_device e) = 32"
    and "chain_to_vsf W D now (sr_predecessor r) = Inr cb" and "successor_to_vsf W D now r = Inr sb"
    and "doc_keeps D now (chain_section W (sr_predecessor r))" and "doc_keeps D now (successor_section W r)"
  shows "chain_from_vsf W C D err cb = Inr (sr_predecessor r) \<and> successor_from_vsf W C D err sb = Inr r"
proof -
  obtain c where c: "vd_read_verified D cb = Inr ()" "vd_primary D cb = Inr c" "same_section (chain_section W (sr_predecessor r)) c"
    using assms(8,10) by (auto simp: chain_to_vsf_def doc_keeps_def)
  obtain s where s: "vd_read_verified D sb = Inr ()" "vd_primary D sb = Inr s" "same_section (successor_section W r) s"
    using assms(9,11) by (auto simp: successor_to_vsf_def doc_keeps_def)
  note ops = parse_ops_related [OF assms(1,2) accepted_wire_ok [OF assms(3,4)]]
  have "parse_ops W C err (get_fields c ''op'') = Inr (sr_predecessor r)"
    using same_section_get_fields [OF c(3), of "''op''"] by (intro ops) simp
  moreover have "parse_ops W C err (get_fields s ''op'') = Inr (sr_predecessor r)"
    using same_section_get_fields [OF s(3), of "''op''"] by (intro ops) simp
  moreover have "map_r (parse_cegg C) (get_fields s ''cegg'') = Inr (sr_eggs r)"
    using same_section_get_fields [OF s(3), of "''cegg''"] by (intro parse_ceggs_related [OF assms(2,7)]) simp
  moreover have "first_value s ''hp'' = Some (V_hP (sr_handle_proof r))" "first_value s ''new'' = Some (V_hb (sr_new_genesis r))"
    using same_section_first_Some [OF s(3)] first_value_successor by fastforce+
  ultimately show ?thesis using c s assms(5,6)
    by (simp add: chain_from_vsf_def successor_from_vsf_def)
qed

end
