(* ===== verification/Client_Core.thy ===== *)
theory Client_Core
  imports Chain_Doc Fanout Fstate_Codec
begin

text \<open>
  src/src/client.rs, the ground: the surroundings the crate is injected into, the frames, the slot reads,
  the signed writes and the chain reads that only look. The surroundings are a record \<open>client_env\<close> over a
  state \<open>'s\<close>: the transport (\<open>FgtwTransport::post\<close>), the clock (\<open>now_oscillations\<close>) and the entropy
  (\<open>random32\<close>) are state transformers, the container and the primitives are the records of the earlier
  theories. Nothing is assumed of the transport: it may answer anything at any time.
\<close>

record response =
  rs_status :: nat
  rs_body :: bytes

record 's client_env =
  en_ext :: ext
  en_fan :: fan_ext
  en_conv :: vsf_conv
  en_doc :: vsf_doc
  en_eggs_err :: string
  en_show_fold :: "fold_error \<Rightarrow> string"
  en_post :: "bytes \<Rightarrow> 's \<Rightarrow> (string + response) \<times> 's"
  en_now :: "'s \<Rightarrow> i64 \<times> 's"
  en_rand :: "'s \<Rightarrow> bytes \<times> 's"

text \<open>The dash of the messages.\<close>

definition dash :: string where "dash = [CHR 0x20, CHR 0xE2, CHR 0x80, CHR 0x94, CHR 0x20]"

section \<open>Requests and frames\<close>

definition unsigned_req :: "'s client_env \<Rightarrow> vsection \<Rightarrow> 's \<Rightarrow> (string + bytes) \<times> 's" where
  "unsigned_req E sec =
     bind_s (en_now E) (\<lambda>now. lift_s (map_err (\<lambda>e. ''fgtw request build: '' @ e) (vd_build (en_doc E) now sec)))"

definition parse_reply :: "'s client_env \<Rightarrow> bytes \<Rightarrow> string + string \<times> vsection" where
  "parse_reply E body =
     try_r (map_err (\<lambda>e. ''fgtw response verification: '' @ e) (vd_read_verified (en_doc E) body)) (\<lambda>_.
     try_r (map_err (\<lambda>e. ''fgtw section: '' @ e) (vd_primary (en_doc E) body)) (\<lambda>s. Inr (vs_name s, s)))"

definition text_value :: "vsection \<Rightarrow> string \<Rightarrow> string option" where
  "text_value s n = (case first_value s n of Some (V_a t) \<Rightarrow> Some t | Some (V_x t) \<Rightarrow> Some t | _ \<Rightarrow> None)"

definition error_frame :: "'s client_env \<Rightarrow> bytes \<Rightarrow> (string \<times> string) option" where
  "error_frame E body =
     (case parse_reply E body of Inl _ \<Rightarrow> None
      | Inr (name, s) \<Rightarrow>
          if name \<noteq> ''error'' then None
          else case text_value s ''reason'' of None \<Rightarrow> None
            | Some reason \<Rightarrow> Some (reason, case text_value s ''detail'' of Some d \<Rightarrow> d | None \<Rightarrow> []))"

definition is_error :: "'s client_env \<Rightarrow> bytes \<Rightarrow> string \<Rightarrow> bool" where
  "is_error E body reason \<longleftrightarrow> (case error_frame E body of Some (r, _) \<Rightarrow> r = reason | None \<Rightarrow> False)"

text \<open>The two checks every reader and writer ends with: the error frame, then the transport status.\<close>

definition reply_ok :: "'s client_env \<Rightarrow> string \<Rightarrow> response \<Rightarrow> string + unit" where
  "reply_ok E what resp =
     (case error_frame E (rs_body resp) of
        Some (reason, detail) \<Rightarrow> Inl (''fgtw '' @ what @ '' '' @ reason @ '': '' @ detail)
      | None \<Rightarrow> if \<not> (200 \<le> rs_status resp \<and> rs_status resp < 300)
                then Inl (''FGTW transport '' @ decimal (rs_status resp)) else Inr ())"

definition hp_section :: "string \<Rightarrow> bytes \<Rightarrow> (string \<times> vsf list) list \<Rightarrow> vsection" where
  "hp_section name hp fs = \<lparr>vs_name = name, vs_fields = (''hp'', [V_hP hp]) # fs\<rparr>"

text \<open>A read of one slot: the unsigned query, \<open>not_found\<close> as None, else the body.\<close>

definition get_slot :: "'s client_env \<Rightarrow> string \<Rightarrow> bytes \<Rightarrow> 's \<Rightarrow> (string + bytes option) \<times> 's" where
  "get_slot E name hp =
     try_s (unsigned_req E (hp_section name hp [])) (\<lambda>req.
     try_s (en_post E req) (\<lambda>resp.
     lift_s (if is_error E (rs_body resp) ''not_found'' then Inr None
             else try_r (reply_ok E name resp) (\<lambda>_. Inr (Some (rs_body resp))))))"

text \<open>A device-signed write or query: the envelope of \<open>signed_req\<close> around a section.\<close>

definition signed_req :: "'s client_env \<Rightarrow> signer \<Rightarrow> vsection \<Rightarrow> string \<Rightarrow> 's \<Rightarrow> (string + response) \<times> 's" where
  "signed_req E key sec what =
     bind_s (en_now E) (\<lambda>now.
     try_s (lift_s (map_err (\<lambda>e. what @ '' build: '' @ e)
              (vd_build_signed (en_doc E) now (sg_public key) (reserve_eggs (en_ext E) (envelope_mask (en_ext E) key)) sec))) (\<lambda>doc.
     try_s (lift_s (map_err (\<lambda>e. what @ '' sign: '' @ e) (sign_envelope (en_ext E) (en_doc E) doc key))) (\<lambda>signed_doc.
     en_post E signed_doc)))"

definition signed_put :: "'s client_env \<Rightarrow> signer \<Rightarrow> vsection \<Rightarrow> string \<Rightarrow> 's \<Rightarrow> (string + unit) \<times> 's" where
  "signed_put E key sec what = try_s (signed_req E key sec what) (\<lambda>resp. lift_s (reply_ok E what resp))"

section \<open>The chain slot\<close>

definition fetch :: "'s client_env \<Rightarrow> bytes \<Rightarrow> 's \<Rightarrow> (string + blob option) \<times> 's" where
  "fetch E hp =
     try_s (get_slot E ''fleet_get'' hp) (\<lambda>body.
     lift_s (case body of None \<Rightarrow> Inr None
       | Some b \<Rightarrow> try_r (chain_from_vsf (en_ext E) (en_conv E) (en_doc E) (en_eggs_err E) b) (\<lambda>c. Inr (Some c))))"

definition publish :: "'s client_env \<Rightarrow> blob \<Rightarrow> 's \<Rightarrow> (string + unit) \<times> 's" where
  "publish E ops =
     bind_s (en_now E) (\<lambda>now.
     try_s (lift_s (chain_to_vsf (en_ext E) (en_doc E) now ops)) (\<lambda>doc.
     try_s (en_post E doc) (\<lambda>resp.
     lift_s (if is_error E (rs_body resp) ''stale'' then Inl ''fleet: stale'' else reply_ok E ''fleet_put'' resp))))"

definition fetch_successor :: "'s client_env \<Rightarrow> bytes \<Rightarrow> 's \<Rightarrow> (string + successor option) \<times> 's" where
  "fetch_successor E hp =
     try_s (get_slot E ''succession_get'' hp) (\<lambda>body.
     lift_s (case body of None \<Rightarrow> Inr None
       | Some b \<Rightarrow> try_r (successor_from_vsf (en_ext E) (en_conv E) (en_doc E) (en_eggs_err E) b) (\<lambda>r. Inr (Some r))))"

definition publish_successor :: "'s client_env \<Rightarrow> signer \<Rightarrow> successor \<Rightarrow> 's \<Rightarrow> (string + unit) \<times> 's" where
  "publish_successor E key r = signed_put E key (successor_section (en_ext E) r) ''succession_put''"

definition stored_fold :: "'s client_env \<Rightarrow> blob \<Rightarrow> string + bytes list" where
  "stored_fold E ops = map_err (\<lambda>e. ''stored fleet invalid: '' @ en_show_fold E e) (fleet_fold (en_ext E) ops)"

definition stored_fold_ts :: "'s client_env \<Rightarrow> blob \<Rightarrow> string + bytes list \<times> i64" where
  "stored_fold_ts E ops = map_err (\<lambda>e. ''stored fleet invalid: '' @ en_show_fold E e) (fold_with_ts (en_ext E) ops)"

definition not_this_slot :: string where
  "not_this_slot = ''fleet chain is not for this handle_proof slot'' @ dash @ ''refusing it''"

definition current_members :: "'s client_env \<Rightarrow> bytes \<Rightarrow> 's \<Rightarrow> (string + bytes list) \<times> 's" where
  "current_members E hp =
     try_s (fetch E hp) (\<lambda>c. lift_s (case c of Some ops \<Rightarrow> stored_fold E ops | None \<Rightarrow> Inr []))"

definition current_members_verified :: "'s client_env \<Rightarrow> bytes \<Rightarrow> 's \<Rightarrow> (string + bytes list) \<times> 's" where
  "current_members_verified E hp =
     try_s (fetch E hp) (\<lambda>c. lift_s (case c of None \<Rightarrow> Inr []
       | Some ops \<Rightarrow> try_r (stored_fold E ops) (\<lambda>members.
           if genesis_handle_proof ops \<noteq> Some hp then Inl not_this_slot else Inr members)))"

definition current_members_with_ts :: "'s client_env \<Rightarrow> bytes \<Rightarrow> 's \<Rightarrow> (string + bytes list \<times> i64) \<times> 's" where
  "current_members_with_ts E hp =
     try_s (fetch E hp) (\<lambda>c. lift_s (case c of Some ops \<Rightarrow> stored_fold_ts E ops | None \<Rightarrow> Inr ([], 0)))"

definition current_members_full :: "'s client_env \<Rightarrow> bytes \<Rightarrow> 's \<Rightarrow> (string + bytes list \<times> i64 \<times> bytes \<times> bool) \<times> 's" where
  "current_members_full E hp =
     try_s (fetch E hp) (\<lambda>c. lift_s (case c of None \<Rightarrow> Inr ([], 0, zero32, False)
       | Some ops \<Rightarrow> try_r (stored_fold_ts E ops) (\<lambda>(m, ts).
           Inr (m, ts, case genesis_hash (en_ext E) ops of Some g \<Rightarrow> g | None \<Rightarrow> zero32, True))))"

record fleet_read =
  fr_verdict :: adoption
  fr_chain :: blob
  fr_members :: "bytes list"
  fr_tip :: i64
  fr_genesis :: bytes

definition current_fleet_adopting ::
  "'s client_env \<Rightarrow> bytes \<Rightarrow> blob option \<Rightarrow> 's \<Rightarrow> (string + fleet_read option) \<times> 's" where
  "current_fleet_adopting E hp adopted =
     try_s (fetch E hp) (\<lambda>c. lift_s (case c of None \<Rightarrow> Inr None
       | Some chain \<Rightarrow> try_r (stored_fold_ts E chain) (\<lambda>(members, tip).
           if genesis_handle_proof chain \<noteq> Some hp then Inl not_this_slot
           else Inr (Some \<lparr>fr_verdict = chain_adoption (en_ext E) chain adopted, fr_chain = chain,
             fr_members = members, fr_tip = tip,
             fr_genesis = (case genesis_hash (en_ext E) chain of Some g \<Rightarrow> g | None \<Rightarrow> zero32)\<rparr>))))"

text \<open>The stamp of the op about to be appended: now, or the tip's if that is later.\<close>

definition tip_time :: "blob \<Rightarrow> i64" where
  "tip_time ops = (if ops = [] then 0 else op_time (last ops))"

definition stamp_after :: "'s client_env \<Rightarrow> blob \<Rightarrow> 's \<Rightarrow> i64 \<times> 's" where
  "stamp_after E ops =
     bind_s (en_now E) (\<lambda>now. ret_s (if sint now \<le> sint (tip_time ops) then tip_time ops else now))"

end
