(* ===== verification/Client_Chain.thy ===== *)
theory Client_Chain
  imports Client_Core
begin

text \<open>
  src/src/client.rs, the operations that extend the chain. Five of them (bind, depart, consented depart,
  declare, lock/unlock) are the same loop of four attempts, fetch, decide, stamp, publish, that starts
  over when the publish lost a race; \<open>edit_loop\<close> is that loop, and the decision of each is its own
  definition. \<open>ensure_member\<close> and \<open>push_checkpoint\<close> are written out.
\<close>

section \<open>The retried edits\<close>

text \<open>A decision about a fetched chain: an error, nothing to do, or how to build the extended chain at a
  stamp. The builders that index the first op give None on an empty chain (a panic).\<close>

type_synonym edit = "blob \<Rightarrow> string + (i64 \<Rightarrow> blob option) option"

definition publish_or_stale :: "'s client_env \<Rightarrow> blob \<Rightarrow> 's \<Rightarrow> (string + bool) \<times> 's" where
  "publish_or_stale E ops s =
     (case publish E ops s of
        (Inr _, t) \<Rightarrow> (Inr True, t)
      | (Inl e, t) \<Rightarrow> if contains e ''stale'' then (Inr False, t) else (Inl e, t))"

fun edit_loop :: "'s client_env \<Rightarrow> bytes \<Rightarrow> string \<Rightarrow> edit \<Rightarrow> string \<Rightarrow> nat \<Rightarrow> 's \<Rightarrow> (string + unit) \<times> 's" where
  "edit_loop E hp missing ed raced 0 = lift_s (Inl raced)"
| "edit_loop E hp missing ed raced (Suc n) =
     try_s (fetch E hp) (\<lambda>c.
     try_s (lift_s (ok_or missing c)) (\<lambda>ops.
     try_s (lift_s (ed ops)) (\<lambda>todo.
     case todo of None \<Rightarrow> lift_s (Inr ())
     | Some build \<Rightarrow>
         bind_s (stamp_after E ops) (\<lambda>at.
         try_s (lift_s (ok_or ''index out of bounds'' (build at))) (\<lambda>ops'.
         try_s (publish_or_stale E ops') (\<lambda>landed.
         if landed then lift_s (Inr ()) else edit_loop E hp missing ed raced n))))))"

definition declare_edit :: "'s client_env \<Rightarrow> signer \<Rightarrow> bytes option \<Rightarrow> byte \<Rightarrow> edit" where
  "declare_edit E key plate plate_k ops =
     try_r (stored_fold E ops) (\<lambda>members.
     let W = en_ext E; me = sg_public key;
         want = (case sg_bundle key of Some b \<Rightarrow> bundle_mask b | None \<Rightarrow> MASK_BASE W);
         known = (plate = None \<or> declared_plate W ops me = plate) \<and>
                 (plate_k = UNSTATED \<or> declared_plate_kind W ops me = plate_k) in
     if me \<notin> set members then Inl ''this device is not a current member, so it cannot declare''
     else if covers (declared_mask W ops me) want \<and> known then Inr None
     else Inr (Some (\<lambda>at. build_declare_plated W ops key at plate plate_k)))"

definition declare_device_plated ::
  "'s client_env \<Rightarrow> signer \<Rightarrow> bytes \<Rightarrow> bytes option \<Rightarrow> byte \<Rightarrow> 's \<Rightarrow> (string + unit) \<times> 's" where
  "declare_device_plated E key hp plate plate_k =
     edit_loop E hp ''no fleet chain to declare into'' (declare_edit E key plate plate_k)
       ''fleet: declare kept racing a concurrent chain extension'' 4"

definition declare_device :: "'s client_env \<Rightarrow> signer \<Rightarrow> bytes \<Rightarrow> 's \<Rightarrow> (string + unit) \<times> 's" where
  "declare_device E key hp = declare_device_plated E key hp None UNSTATED"

definition lock_edit :: "'s client_env \<Rightarrow> signer \<Rightarrow> bytes \<Rightarrow> bool \<Rightarrow> edit" where
  "lock_edit E key device lock ops =
     try_r (stored_fold E ops) (\<lambda>members.
     let W = en_ext E; me = sg_public key in
     if me \<notin> set members then Inl ''this device is not a current member, so it cannot lock or unlock''
     else try_r (map_err (\<lambda>e. ''stored fleet invalid: '' @ en_show_fold E e) (locked_out W ops)) (\<lambda>locked.
       if me \<in> set locked then Inl ''this device is locked out and holds no authority over the chain''
       else if (device \<in> set locked) = lock then Inr None
       else Inr (Some (\<lambda>at. if lock then build_lock W ops key device at else build_unlock W ops key device at))))"

definition lock_op_chain :: "'s client_env \<Rightarrow> signer \<Rightarrow> bytes \<Rightarrow> bytes \<Rightarrow> bool \<Rightarrow> 's \<Rightarrow> (string + unit) \<times> 's" where
  "lock_op_chain E key hp device lock =
     edit_loop E hp ''no fleet chain to lock into'' (lock_edit E key device lock)
       ''fleet: lock kept racing a concurrent chain extension'' 4"

definition lock_device_chain :: "'s client_env \<Rightarrow> signer \<Rightarrow> bytes \<Rightarrow> bytes \<Rightarrow> 's \<Rightarrow> (string + unit) \<times> 's" where
  "lock_device_chain E key hp device = lock_op_chain E key hp device True"

definition unlock_device_chain :: "'s client_env \<Rightarrow> signer \<Rightarrow> bytes \<Rightarrow> bytes \<Rightarrow> 's \<Rightarrow> (string + unit) \<times> 's" where
  "unlock_device_chain E key hp device = lock_op_chain E key hp device False"

definition bind_edit :: "'s client_env \<Rightarrow> signer \<Rightarrow> bind_request \<Rightarrow> edit" where
  "bind_edit E key req ops =
     try_r (stored_fold E ops) (\<lambda>members.
     if sg_public key \<notin> set members then Inl ''this device isn't a fleet member, so it can't add another''
     else if br_device req \<in> set members then Inr None
     else Inr (Some (\<lambda>at. Some (build_add_with (en_ext E) ops key (br_device req) at (br_t req) (br_device_sig req)
       (br_bundle req) (br_plate req) (br_plate_kind req)))))"

definition bind_device :: "'s client_env \<Rightarrow> signer \<Rightarrow> bytes \<Rightarrow> bind_request \<Rightarrow> 's \<Rightarrow> (string + unit) \<times> 's" where
  "bind_device E key hp req =
     edit_loop E hp (''no fleet to add to'' @ dash @ ''attest this identity first'') (bind_edit E key req)
       ''fleet add: lost too many extension races'' 4"

definition depart_edit :: "'s client_env \<Rightarrow> signer \<Rightarrow> edit" where
  "depart_edit E key ops =
     try_r (stored_fold E ops) (\<lambda>members.
     if sg_public key \<notin> set members then Inr None
     else Inr (Some (\<lambda>at. Some (build_depart (en_ext E) ops key at))))"

definition depart_device :: "'s client_env \<Rightarrow> signer \<Rightarrow> bytes \<Rightarrow> 's \<Rightarrow> (string + unit) \<times> 's" where
  "depart_device E key hp =
     edit_loop E hp ''no fleet to depart from'' (depart_edit E key) ''fleet depart: lost too many extension races'' 4"

definition consented_edit :: "'s client_env \<Rightarrow> signer \<Rightarrow> bytes \<Rightarrow> i64 \<Rightarrow> egg list \<Rightarrow> edit" where
  "consented_edit E key leaving consent_t consent ops =
     try_r (stored_fold E ops) (\<lambda>members.
     if leaving \<notin> set members then Inr None
     else Inr (Some (\<lambda>at. Some (build_remove_consented (en_ext E) ops key leaving at consent_t consent))))"

definition depart_device_consented ::
  "'s client_env \<Rightarrow> signer \<Rightarrow> bytes \<Rightarrow> bytes \<Rightarrow> i64 \<Rightarrow> bytes \<Rightarrow> 's \<Rightarrow> (string + unit) \<times> 's" where
  "depart_device_consented E key hp leaving consent_t consent_sig =
     (case eggs_from_bytes (en_ext E) consent_sig of
        None \<Rightarrow> lift_s (Inl (''departure consent: '' @ en_eggs_err E))
      | Some consent \<Rightarrow>
          edit_loop E hp ''no fleet to remove from'' (consented_edit E key leaving consent_t consent)
            ''fleet consented remove: lost too many extension races'' 4)"

section \<open>Founding\<close>

text \<open>The errors of the chain reader that \<open>ensure_member\<close> takes for a chain of a dead format.\<close>

definition dead_format :: "string \<Rightarrow> bool" where
  "dead_format e \<longleftrightarrow> contains e ''fleet op:'' \<or> contains e ''fleet section:'' \<or> contains e ''fleet chain verification''"

definition fetch_living :: "'s client_env \<Rightarrow> bytes \<Rightarrow> 's \<Rightarrow> (string + blob option) \<times> 's" where
  "fetch_living E hp s =
     (case fetch E hp s of (Inl e, t) \<Rightarrow> if dead_format e then (Inr None, t) else (Inl e, t) | ok \<Rightarrow> ok)"

definition member_of :: "'s client_env \<Rightarrow> bytes \<Rightarrow> blob \<Rightarrow> string + bool" where
  "member_of E me ops =
     try_r (map_err (\<lambda>e. ''stored fleet chain does not fold: '' @ en_show_fold E e) (fleet_fold (en_ext E) ops))
       (\<lambda>m. Inr (me \<in> set m))"

definition enroll_first :: string where
  "enroll_first = ''this device is not in the fleet'' @ dash @ ''enroll it from an existing device first''"

text \<open>The messages with an arrow and a dash.\<close>

definition owned_text :: "string \<Rightarrow> string" where
  "owned_text tail = ''this device is still enrolled in another identity's fleet'' @ dash @ ''wipe it (Settings ''
     @ [CHR 0xE2, CHR 0x86, CHR 0x92] @ '' Security), or remove it from that fleet, before '' @ tail"

definition found_fleet ::
  "'s client_env \<Rightarrow> signer \<Rightarrow> bytes \<Rightarrow> bytes \<Rightarrow> bytes option \<Rightarrow> byte \<Rightarrow> 's \<Rightarrow> (string + unit) \<times> 's" where
  "found_fleet E key hp identity_seed plate plate_k =
     bind_s (en_now E) (\<lambda>now.
     bind_s (publish E (build_genesis_v2_plated (en_ext E) key hp identity_seed now plate plate_k)) (\<lambda>published.
     try_s (fetch E hp) (\<lambda>c. lift_s (case c of
         Some ops \<Rightarrow> try_r (member_of E (sg_public key) ops) (\<lambda>m. if m then Inr () else Inl enroll_first)
       | None \<Rightarrow> Inl (case published of
             Inl e \<Rightarrow> if contains e ''device_owned'' then owned_text ''claiming a new name''
                      else ''failed to establish fleet membership: '' @ e
           | Inr _ \<Rightarrow> ''failed to establish fleet membership for this device'')))))"

definition ensure_member_plated ::
  "'s client_env \<Rightarrow> signer \<Rightarrow> bytes \<Rightarrow> bytes \<Rightarrow> bytes option \<Rightarrow> byte \<Rightarrow> 's \<Rightarrow> (string + unit) \<times> 's" where
  "ensure_member_plated E key hp identity_seed plate plate_k =
     try_s (fetch_living E hp) (\<lambda>stored.
     case stored of
       None \<Rightarrow> found_fleet E key hp identity_seed plate plate_k
     | Some ops \<Rightarrow>
         (case member_of E (sg_public key) ops of
            Inr True \<Rightarrow> lift_s (Inr ())
          | Inr False \<Rightarrow> lift_s (Inl enroll_first)
          | Inl _ \<Rightarrow> found_fleet E key hp identity_seed plate plate_k))"

definition ensure_member :: "'s client_env \<Rightarrow> signer \<Rightarrow> bytes \<Rightarrow> bytes \<Rightarrow> 's \<Rightarrow> (string + unit) \<times> 's" where
  "ensure_member E key hp identity_seed = ensure_member_plated E key hp identity_seed None UNSTATED"

section \<open>Checkpoints\<close>

definition checkpoint_raced ::
  "'s client_env \<Rightarrow> bytes \<Rightarrow> u64 \<Rightarrow> 's \<Rightarrow> (string + (u64 \<times> bytes \<times> u64) option) \<times> 's" where
  "checkpoint_raced E hp k =
     try_s (fetch E hp) (\<lambda>c.
     try_s (lift_s (ok_or ''fleet chain vanished during checkpoint race'' c)) (\<lambda>ops.
     try_s (lift_s (map_err (\<lambda>e. ''raced fleet invalid: '' @ en_show_fold E e) (fleet_fold (en_ext E) ops))) (\<lambda>_.
     lift_s (case latest_checkpoint ops of
        Some (wk, wc, we) \<Rightarrow> if k \<le> wk then Inr (Some (wk, wc, we)) else Inl ''fleet: stale''
      | None \<Rightarrow> Inl ''fleet: stale''))))"

definition push_checkpoint ::
  "'s client_env \<Rightarrow> bytes \<Rightarrow> signer \<Rightarrow> u64 \<Rightarrow> bytes \<Rightarrow> u64 \<Rightarrow> 's \<Rightarrow> (string + (u64 \<times> bytes \<times> u64) option) \<times> 's" where
  "push_checkpoint E hp key k commit fanout_epoch =
     try_s (fetch E hp) (\<lambda>c.
     try_s (lift_s (ok_or ''no fleet chain to checkpoint'' c)) (\<lambda>ops.
     try_s (lift_s (stored_fold E ops)) (\<lambda>members.
     if sg_public key \<notin> set members then lift_s (Inl ''this device is not a current member'')
     else if (case latest_checkpoint ops of Some (lk, _) \<Rightarrow> lk | None \<Rightarrow> 0) + 1 \<noteq> k
       then lift_s (Inr (latest_checkpoint ops))
     else bind_s (stamp_after E ops) (\<lambda>at.
       bind_s (publish E (build_checkpoint (en_ext E) ops key at k commit fanout_epoch)) (\<lambda>published.
       case published of
         Inr _ \<Rightarrow> lift_s (Inr None)
       | Inl e \<Rightarrow> if e = ''fleet: stale'' then checkpoint_raced E hp k else lift_s (Inl e))))))"

end
