(* ===== verification/Pair.thy ===== *)
theory Pair
  imports Fleet_Op Effects
begin

text \<open>
  src/src/pair.rs: the commitments of the pairing ceremony (NFC secret, lock-word proof, proximity beacon)
  and the splitting of a typed entry into words. The word list and the number codec are the \<open>voca\<close> crate:
  the list \<open>voc\<close>, \<open>encode\<close> and \<open>decode\<close> are arguments. Typed text is a list of bytes; \<open>trim\<close> and the case
  functions are those of ASCII text.
\<close>

section \<open>Commitments\<close>

definition nfc_secret_hash :: "ext \<Rightarrow> bytes \<Rightarrow> bytes \<Rightarrow> i64 \<Rightarrow> bytes" where
  "nfc_secret_hash W secret device t =
     blake3_keyed W (blake3_derive W ''photon nfc pair v0'' secret) (device @ u64_le t)"

definition PAIR_WORD_COUNT :: nat where "PAIR_WORD_COUNT = 23"

definition word_mask :: "ext \<Rightarrow> bytes \<Rightarrow> bytes" where
  "word_mask W identity_seed = blake3_derive W ''photon pair words v1'' identity_seed"

text \<open>The bytes the words spell: the device key XORed with the mask.\<close>

definition masked_device :: "ext \<Rightarrow> bytes \<Rightarrow> bytes \<Rightarrow> bytes" where
  "masked_device W device identity_seed = map2 (\<lambda>b m. b XOR m) device (word_mask W identity_seed)"

section \<open>Words\<close>

definition is_space :: "char \<Rightarrow> bool" where
  "is_space c \<longleftrightarrow> of_char c \<in> {9, 10, 11, 12, 13, 32 :: nat}"

definition is_ascii_whitespace :: "char \<Rightarrow> bool" where
  "is_ascii_whitespace c \<longleftrightarrow> of_char c \<in> {9, 10, 12, 13, 32 :: nat}"

definition is_upper_char :: "char \<Rightarrow> bool" where
  "is_upper_char c \<longleftrightarrow> 65 \<le> (of_char c :: nat) \<and> (of_char c :: nat) \<le> 90"

definition to_lower :: "char \<Rightarrow> char" where
  "to_lower c = (if is_upper_char c then char_of (of_char c + 32 :: nat) else c)"

definition trim_end :: "string \<Rightarrow> string" where
  "trim_end s = rev (dropWhile is_space (rev s))"

definition trim :: "string \<Rightarrow> string" where
  "trim s = trim_end (dropWhile is_space s)"

text \<open>\<open>split_ascii_whitespace\<close>: the maximal runs of other characters.\<close>

fun split_white :: "string \<Rightarrow> string \<Rightarrow> string list" where
  "split_white cur [] = (if cur = [] then [] else [cur])"
| "split_white cur (c # s) =
     (if is_ascii_whitespace c then (if cur = [] then [] else [cur]) @ split_white [] s else split_white (cur @ [c]) s)"

definition pair_word_tokens :: "string \<Rightarrow> nat" where
  "pair_word_tokens s =
     (let t = trim s in
      if t = [] then 0
      else if list_ex is_ascii_whitespace t then length (split_white [] t)
      else 1 + length (filter is_upper_char (tl t)))"

text \<open>The loop over the characters of a camelCase entry: the current word, then the words.\<close>

fun camel_words :: "string \<Rightarrow> string \<Rightarrow> string list" where
  "camel_words cur [] = (if cur = [] then [] else [cur])"
| "camel_words cur (c # s) =
     (if is_upper_char c \<and> cur \<noteq> [] then cur # camel_words [to_lower c] s else camel_words (cur @ [to_lower c]) s)"

definition pair_word_list :: "string \<Rightarrow> string list" where
  "pair_word_list s =
     (let t = trim s in
      if t = [] then []
      else if list_ex is_ascii_whitespace t then map (map to_lower) (split_white [] t)
      else camel_words [] t)"

text \<open>The zero word of a word list: its first word, capitalised.\<close>

definition zero_word_of :: "string list \<Rightarrow> string" where
  "zero_word_of voc = (case hd voc of [] \<Rightarrow> []
     | c # cs \<Rightarrow> (if 97 \<le> (of_char c :: nat) \<and> (of_char c :: nat) \<le> 122 then char_of (of_char c - 32 :: nat) else c) # cs)"

definition zero_padded :: "string list \<Rightarrow> nat \<Rightarrow> string \<Rightarrow> string" where
  "zero_padded voc n encoded = concat (replicate (n - pair_word_tokens encoded) (zero_word_of voc)) @ encoded"

definition pair_words :: "(nat \<Rightarrow> string) \<Rightarrow> string list \<Rightarrow> bytes \<Rightarrow> string" where
  "pair_words encode voc key = zero_padded voc PAIR_WORD_COUNT (encode (be_dec key))"

definition masked_device_words :: "ext \<Rightarrow> (nat \<Rightarrow> string) \<Rightarrow> string list \<Rightarrow> bytes \<Rightarrow> bytes \<Rightarrow> string" where
  "masked_device_words W encode voc device identity_seed =
     pair_words encode voc (masked_device W device identity_seed)"

text \<open>\<open>to_bytes_be\<close> of a number: no leading zero byte, and one zero byte for zero.\<close>

fun bytes_be :: "nat \<Rightarrow> bytes" where
  "bytes_be n = (if n < 256 then [of_nat n] else bytes_be (n div 256) @ [of_nat n])"

declare bytes_be.simps [simp del]

definition words_to_pair_pubkey :: "(string \<Rightarrow> string + nat) \<Rightarrow> string \<Rightarrow> string + bytes" where
  "words_to_pair_pubkey decode words =
     (if pair_word_tokens words \<noteq> PAIR_WORD_COUNT then Inl ''expected 23 words''
      else try_r (map_err (\<lambda>e. ''unrecognised word: '' @ e) (decode (trim words))) (\<lambda>n.
        let bs = bytes_be n in
        if 32 < length bs then Inl ''words don't decode to a key''
        else Inr (replicate (32 - length bs) 0 @ bs)))"

text \<open>The live spell check: every finished word is in the list, the last may be a prefix of one. The index of
  the source is the sorted list; \<open>partition_point\<close> is the number of entries below the word.\<close>

definition is_word :: "bytes list \<Rightarrow> bytes \<Rightarrow> bool" where
  "is_word voc w \<longleftrightarrow> w \<in> set voc"

definition word_ok :: "bytes list \<Rightarrow> bool \<Rightarrow> bytes \<Rightarrow> bool" where
  "word_ok voc exact w =
     (if exact then is_word voc w
      else let idx = length (takeWhile (\<lambda>cand. cand < w) voc) in
        idx < length voc \<and> take (length w) (voc ! idx) = w)"

fun first_bad :: "bytes list \<Rightarrow> bool \<Rightarrow> string list \<Rightarrow> string option" where
  "first_bad voc last_complete [] = None"
| "first_bad voc last_complete (w # ws) =
     (if word_ok voc (ws \<noteq> [] \<or> last_complete) (ascii w) then first_bad voc last_complete ws else Some w)"

definition first_bad_pair_word :: "bytes list \<Rightarrow> string \<Rightarrow> string option" where
  "first_bad_pair_word voc s = first_bad voc (s \<noteq> trim_end s) (pair_word_list s)"

definition pair_entry_complete :: "bytes list \<Rightarrow> string \<Rightarrow> bool" where
  "pair_entry_complete voc s \<longleftrightarrow>
     length (pair_word_list s) = PAIR_WORD_COUNT \<and> list_all (\<lambda>w. is_word voc (ascii w)) (pair_word_list s)"

definition is_lock_word :: "bytes list \<Rightarrow> string \<Rightarrow> bool" where
  "is_lock_word voc s \<longleftrightarrow> is_word voc (ascii (map to_lower (trim s)))"

text \<open>A lock word: the entry of the list at a random 64-bit number modulo its length.\<close>

definition lock_word :: "bytes list \<Rightarrow> ('s \<Rightarrow> u64 \<times> 's) \<Rightarrow> 's \<Rightarrow> bytes \<times> 's" where
  "lock_word voc rnd = bind_s rnd (\<lambda>r. ret_s (voc ! unat (r mod of_nat (length voc))))"

text \<open>The two labels: two words of a digest.\<close>

definition label_words :: "(nat \<Rightarrow> string) \<Rightarrow> string list \<Rightarrow> bytes \<Rightarrow> string" where
  "label_words encode voc digest =
     zero_padded voc 2 (encode (unat (u64_of_le (take 8 digest)) mod (length voc * length voc)))"

definition keyed_pseudonym :: "ext \<Rightarrow> (nat \<Rightarrow> string) \<Rightarrow> string list \<Rightarrow> bytes \<Rightarrow> string" where
  "keyed_pseudonym W encode voc i = label_words encode voc (blake3 W (ascii ''PHOTON_PSEUDONYM_v1'' @ i))"

definition device_name_default :: "ext \<Rightarrow> (nat \<Rightarrow> string) \<Rightarrow> string list \<Rightarrow> bytes \<Rightarrow> bytes \<Rightarrow> string" where
  "device_name_default W encode voc device identity_seed =
     label_words encode voc (blake3 W (ascii ''PHOTON_DEVICE_NAME_v1'' @ device @ identity_seed))"

section \<open>Lock word and beacon\<close>

definition WORD_MAC_LEN :: nat where "WORD_MAC_LEN = 12"

definition word_mac :: "ext \<Rightarrow> string \<Rightarrow> bytes \<Rightarrow> bytes \<Rightarrow> bytes" where
  "word_mac W word hp device =
     take WORD_MAC_LEN (blake3_keyed W
       (blake3_derive W ''fgtw pair v2 lock word'' (ascii (map to_lower (trim word)) @ hp)) device)"

definition verify_word_mac :: "ext \<Rightarrow> string \<Rightarrow> bytes \<Rightarrow> bytes \<Rightarrow> bytes \<Rightarrow> bool" where
  "verify_word_mac W word hp device proof_bytes \<longleftrightarrow>
     length proof_bytes = WORD_MAC_LEN \<and> word_mac W word hp device = proof_bytes"

definition BEACON_UUID_LEN :: nat where "BEACON_UUID_LEN = 16"

definition beacon_key :: "ext \<Rightarrow> bytes \<Rightarrow> bytes" where
  "beacon_key W hp = blake3_derive W ''photon ble beacon v1'' hp"

definition beacon_id :: "ext \<Rightarrow> bytes \<Rightarrow> bytes \<Rightarrow> i64 \<Rightarrow> bytes" where
  "beacon_id W hp device t = take BEACON_UUID_LEN (blake3_keyed W (beacon_key W hp) (device @ u64_le t))"

definition beacon_matches :: "ext \<Rightarrow> bytes \<Rightarrow> bytes \<Rightarrow> bytes \<Rightarrow> i64 \<Rightarrow> bool" where
  "beacon_matches W uuid hp device t \<longleftrightarrow> uuid = beacon_id W hp device t"

section \<open>Properties\<close>

subsection \<open>Counting and listing\<close>

lemma length_camel_words:
  "length (camel_words cur s) =
     (if cur \<noteq> [] then Suc (length (filter is_upper_char s))
      else if s = [] then 0 else Suc (length (filter is_upper_char (tl s))))"
  by (induction cur s rule: camel_words.induct) auto

lemma pair_counts_agree: "length (pair_word_list s) = pair_word_tokens s"
  by (simp add: pair_word_list_def pair_word_tokens_def Let_def length_camel_words)

subsection \<open>The prefix search\<close>

lemma between_prefixed: "w \<le> x \<Longrightarrow> x \<le> w @ y \<Longrightarrow> take (length w) x = (w :: bytes)"
proof (induction w arbitrary: x)
  case (Cons a w)
  then obtain b x' where x: "x = b # x'" by (cases x) auto
  with Cons.prems have "a = b" by (auto simp: list_le_def)
  with Cons x show ?case by simp
qed simp

lemma prefix_le: "(w :: bytes) \<le> w @ y"
  by (induction w) simp_all

lemma prefix_search:
  assumes "sorted voc"
  shows "word_ok voc False w \<longleftrightarrow> (\<exists>c \<in> set voc. take (length w) c = w)"
proof -
  let ?p = "\<lambda>c. c < w" and ?n = "length (takeWhile (\<lambda>c. c < w) voc)"
  have eq: "word_ok voc False w \<longleftrightarrow> ?n < length voc \<and> take (length w) (voc ! ?n) = w"
    by (simp add: word_ok_def Let_def)
  show ?thesis
  proof
    assume "\<exists>c \<in> set voc. take (length w) c = w"
    then obtain i where i: "i < length voc" "take (length w) (voc ! i) = w" by (auto simp: in_set_conv_nth)
    then obtain y where y: "voc ! i = w @ y" by (metis append_take_drop_id)
    then have ge: "\<not> voc ! i < w" using prefix_le [of w y] by (simp add: not_less)
    then have ni: "?n \<le> i" by (metis linorder_not_less nth_mem set_takeWhileD takeWhile_nth)
    then have n: "?n < length voc" using i by simp
    have "\<not> voc ! ?n < w" using nth_length_takeWhile [OF n] .
    moreover have "voc ! ?n \<le> voc ! i" using assms ni i(1) by (simp add: sorted_nth_mono)
    ultimately have "take (length w) (voc ! ?n) = w" using y between_prefixed [of w "voc ! ?n" y] by simp
    then show "word_ok voc False w" using n eq by simp
  next
    assume "word_ok voc False w"
    then show "\<exists>c \<in> set voc. take (length w) c = w" using eq by (metis nth_mem)
  qed
qed

lemma first_bad_None:
  assumes "sorted voc"
  shows "first_bad voc fin ws = None \<longleftrightarrow> (\<forall>w \<in> set (if fin then ws else butlast ws). ascii w \<in> set voc) \<and>
    (\<not> fin \<and> ws \<noteq> [] \<longrightarrow> (\<exists>c \<in> set voc. take (length (last ws)) c = ascii (last ws)))"
proof (induction ws)
  case (Cons w ws)
  then show ?case using prefix_search [OF assms, of "ascii w"]
    by (auto simp: word_ok_def is_word_def)
qed simp

text \<open>The live check against its meaning: over the sorted word list, nothing is flagged exactly when every
  finished word of the entry is in the list and the word still being typed begins some word of it, and
  the words checked are as many as the counter shows; so an entry that is flagged can never be completed
  without a correction.\<close>

theorem spell_check_spec:
  assumes "sorted voc"
  shows "(first_bad_pair_word voc s = None \<longleftrightarrow>
      (let ws = pair_word_list s; fin = (s \<noteq> trim_end s) in
       (\<forall>w \<in> set (if fin then ws else butlast ws). ascii w \<in> set voc) \<and>
       (\<not> fin \<and> ws \<noteq> [] \<longrightarrow> (\<exists>c \<in> set voc. take (length (last ws)) c = ascii (last ws)))))
    \<and> length (pair_word_list s) = pair_word_tokens s
    \<and> (pair_entry_complete voc s \<longrightarrow> first_bad_pair_word voc s = None)"
proof -
  have "first_bad_pair_word voc s = None" if c: "pair_entry_complete voc s"
  proof -
    let ?ws = "pair_word_list s"
    have all: "\<forall>w \<in> set ?ws. ascii w \<in> set voc" "?ws \<noteq> []"
      using c by (auto simp: pair_entry_complete_def is_word_def list_all_iff PAIR_WORD_COUNT_def)
    then have "ascii (last ?ws) \<in> set voc" by simp
    moreover have "take (length (last ?ws)) (ascii (last ?ws)) = ascii (last ?ws)"
      by (metis length_ascii order_refl take_all)
    ultimately show ?thesis unfolding first_bad_pair_word_def first_bad_None [OF assms]
      using all by (auto dest: in_set_butlastD intro!: bexI [of _ "ascii (last ?ws)"])
  qed
  then show ?thesis
    unfolding first_bad_pair_word_def first_bad_None [OF assms] by (simp add: Let_def pair_counts_agree)
qed

theorem spell_check_spec_witness:
  "first_bad_pair_word [ascii ''cat'', ascii ''dog''] ''CatDo'' = None"
proof -
  have s: "sorted [ascii ''cat'', ascii ''dog'']" by (simp add: ascii_def)
  have ws: "pair_word_list ''CatDo'' = [''cat'', ''do'']" by code_simp
  have t: "(''CatDo'' \<noteq> trim_end ''CatDo'') = False" by code_simp
  show ?thesis
    using spell_check_spec [OF s, of "''CatDo''"] by (simp add: ws t Let_def ascii_def)
qed

subsection \<open>Keys as words\<close>

lemma length_bytes_be: "n < 256 ^ Suc m \<Longrightarrow> length (bytes_be n) \<le> Suc m"
proof (induction m arbitrary: n)
  case 0
  then show ?case by (simp add: bytes_be.simps [of n])
next
  case (Suc m)
  then have "n div 256 < 256 ^ Suc m" by (simp add: less_mult_imp_div_less)
  then show ?case using Suc.IH [of "n div 256"] by (simp add: bytes_be.simps [of n])
qed

lemma be_enc_Suc: "be_enc (Suc m) n = be_enc m (n div 256) @ [of_nat n]"
  by (simp add: be_enc_def)

lemma be_enc_zero: "be_enc m 0 = replicate m 0"
  by (induction m) (simp_all add: be_enc_Suc replicate_append_same, simp add: be_enc_def)

lemma bytes_be_enc: "n < 256 ^ Suc m \<Longrightarrow> replicate (Suc m - length (bytes_be n)) 0 @ bytes_be n = be_enc (Suc m) n"
proof (induction m arbitrary: n)
  case 0
  then show ?case by (simp add: bytes_be.simps [of n] be_enc_Suc be_enc_def)
next
  case (Suc m)
  show ?case
  proof (cases "n < 256")
    case True
    then show ?thesis using be_enc_zero [of "Suc m"] by (simp add: bytes_be.simps [of n] be_enc_Suc [of "Suc m"])
  next
    case False
    have lt: "n div 256 < 256 ^ Suc m" using Suc.prems by (simp add: less_mult_imp_div_less)
    have "replicate (Suc (Suc m) - length (bytes_be n)) 0 @ bytes_be n
      = (replicate (Suc m - length (bytes_be (n div 256))) 0 @ bytes_be (n div 256)) @ [of_nat n]"
      using False by (simp add: bytes_be.simps [of n])
    then show ?thesis using Suc.IH [OF lt] by (simp add: be_enc_Suc [of "Suc m"])
  qed
qed

subsection \<open>What is relied on of the word codec\<close>

text \<open>The list has 3177 words, the first in lower case. A number is written as capitalised words, as many as it
  has digits in that base, and leading copies of the first word, capitalised, do not change what is read.
  That the padding of this program is such a copy is proved (\<open>zero_word_capital\<close>).\<close>

definition is_lower_char :: "char \<Rightarrow> bool" where
  "is_lower_char c \<longleftrightarrow> 97 \<le> (of_char c :: nat) \<and> (of_char c :: nat) \<le> 122"

definition capital_word :: "string \<Rightarrow> bool" where
  "capital_word w \<longleftrightarrow> (case w of [] \<Rightarrow> False | c # cs \<Rightarrow> is_upper_char c \<and> list_all is_lower_char cs)"

definition voca_ok :: "(nat \<Rightarrow> string) \<Rightarrow> (string \<Rightarrow> string + nat) \<Rightarrow> string list \<Rightarrow> bool" where
  "voca_ok encode decode voc \<longleftrightarrow> length voc = 3177 \<and> hd voc \<noteq> [] \<and> list_all is_lower_char (hd voc) \<and>
     (\<forall>n. \<exists>ws. encode n = concat ws \<and> ws \<noteq> [] \<and> list_all capital_word ws \<and> (\<forall>m. n < 3177 ^ Suc m \<longrightarrow> length ws \<le> Suc m)) \<and>
     (\<forall>z n k. capital_word z \<and> map to_lower z = hd voc \<longrightarrow> decode (concat (replicate k z) @ encode n) = Inr n)"

lemma zero_word_capital:
  assumes "voca_ok encode decode voc"
  shows "capital_word (zero_word_of voc)" "map to_lower (zero_word_of voc) = hd voc"
proof -
  obtain c cs where w: "hd voc = c # cs" "is_lower_char c" "list_all is_lower_char cs"
    using assms by (cases "hd voc") (auto simp: voca_ok_def)
  have z: "zero_word_of voc = char_of (of_char c - 32 :: nat) # cs"
    using w(1,2) by (simp add: zero_word_of_def is_lower_char_def)
  have up: "is_upper_char (char_of (of_char c - 32 :: nat))" "to_lower (char_of (of_char c - 32 :: nat)) = c"
    using w(2) by (auto simp: is_upper_char_def to_lower_def is_lower_char_def)
  have "map to_lower cs = cs"
    using w(3) by (induction cs) (auto simp: to_lower_def is_upper_char_def is_lower_char_def)
  then show "capital_word (zero_word_of voc)" "map to_lower (zero_word_of voc) = hd voc"
    using up w by (simp_all add: z capital_word_def)
qed

lemma letters_plain:
  "is_upper_char c \<Longrightarrow> \<not> is_space c \<and> \<not> is_ascii_whitespace c"
  "is_lower_char c \<Longrightarrow> \<not> is_space c \<and> \<not> is_ascii_whitespace c \<and> \<not> is_upper_char c"
  by (auto simp: is_upper_char_def is_lower_char_def is_space_def is_ascii_whitespace_def)

lemma capital_words_chars:
  "list_all capital_word ws \<Longrightarrow> list_all (\<lambda>c. is_upper_char c \<or> is_lower_char c) (concat ws)"
  by (induction ws) (auto simp: capital_word_def list_all_iff split: list.splits)

lemma filter_upper_word: "capital_word w \<Longrightarrow> length (filter is_upper_char w) = 1"
proof (cases w)
  case (Cons c cs)
  moreover assume "capital_word w"
  ultimately have "is_upper_char c" "filter is_upper_char cs = []"
    using letters_plain(2) by (auto simp: capital_word_def list_all_iff filter_empty_conv)
  then show ?thesis using Cons by simp
qed (simp add: capital_word_def)

lemma filter_upper_words: "list_all capital_word ws \<Longrightarrow> length (filter is_upper_char (concat ws)) = length ws"
  by (induction ws) (simp_all add: filter_upper_word)

lemma trim_plain: "list_all (\<lambda>c. \<not> is_space c) s \<Longrightarrow> trim s = s"
proof -
  assume a: "list_all (\<lambda>c. \<not> is_space c) s"
  have "dropWhile is_space x = x" if "list_all (\<lambda>c. \<not> is_space c) x" for x
    using that by (cases x) auto
  then show ?thesis using a by (simp add: trim_def trim_end_def)
qed

lemma words_plain:
  assumes "list_all capital_word ws"
  shows "list_all (\<lambda>c. \<not> is_space c) (concat ws)" "\<not> list_ex is_ascii_whitespace (concat ws)"
  using capital_words_chars [OF assms] letters_plain by (auto simp: list_all_iff list_ex_iff)

lemma tokens_words:
  assumes "list_all capital_word ws" and "ws \<noteq> []"
  shows "pair_word_tokens (concat ws) = length ws" "trim (concat ws) = concat ws"
proof -
  show t: "trim (concat ws) = concat ws" by (rule trim_plain [OF words_plain(1) [OF assms(1)]])
  obtain w ws' where ws: "ws = w # ws'" using assms(2) by (cases ws) auto
  obtain c cs where w: "w = c # cs" using assms(1) ws by (cases w) (auto simp: capital_word_def)
  have "is_upper_char c" using assms(1) ws w by (simp add: capital_word_def)
  then have "Suc (length (filter is_upper_char (tl (concat ws)))) = length (filter is_upper_char (concat ws))"
    by (simp add: ws w)
  then show "pair_word_tokens (concat ws) = length ws"
    using t words_plain(2) [OF assms(1)] filter_upper_words [OF assms(1)] ws w by (simp add: pair_word_tokens_def Let_def)
qed

text \<open>Left-padding with zero words gives exactly the width asked for, and another zero word one more.\<close>

lemma padded_words:
  assumes "voca_ok encode decode voc" and "n < 3177 ^ Suc m"
  shows "pair_word_tokens (zero_padded voc (Suc m) (encode n)) = Suc m"
    "decode (trim (zero_padded voc (Suc m) (encode n))) = Inr n"
proof -
  obtain ws where ws: "encode n = concat ws" "ws \<noteq> []" "list_all capital_word ws" "length ws \<le> Suc m"
    using assms unfolding voca_ok_def by metis
  let ?zs = "replicate (Suc m - length ws) (zero_word_of voc) @ ws"
  note zw = zero_word_capital [OF assms(1)]
  have z: "zero_padded voc (Suc m) (encode n) = concat ?zs"
    using tokens_words(1) [OF ws(3,2)] by (simp add: zero_padded_def ws(1))
  have c: "list_all capital_word ?zs" using ws(3) zw(1) by (auto simp: list_all_iff set_replicate_conv_if)
  show "pair_word_tokens (zero_padded voc (Suc m) (encode n)) = Suc m"
    unfolding z using tokens_words(1) [OF c] ws(2,4) by simp
  have "decode (concat (replicate (Suc m - length ws) (zero_word_of voc)) @ encode n) = Inr n"
    using assms(1) zw by (simp add: voca_ok_def)
  then show "decode (trim (zero_padded voc (Suc m) (encode n))) = Inr n"
    unfolding z using tokens_words(2) [OF c] ws(1,2) by simp
qed

text \<open>The words on the screen lead back to the key: a 32-byte key is always shown as 23 words, however many
  leading zero digits it has, and typing them gives the key back, leading zero bytes included (the word
  list has 3177 entries, and 3177 to the 23 exceeds 2 to the 256).\<close>

theorem pair_words_roundtrip:
  assumes "length key = 32" and "voca_ok encode decode voc"
  shows "pair_word_tokens (pair_words encode voc key) = 23 \<and>
    words_to_pair_pubkey decode (pair_words encode voc key) = Inr key"
proof -
  have lt: "be_dec key < 256 ^ Suc 31" using le_dec_bound [of "rev key"] assms(1) by (simp add: be_dec_def)
  also have "(256 :: nat) ^ Suc 31 < 3177 ^ Suc 22" by simp
  finally have n: "be_dec key < 3177 ^ Suc 22" .
  note p = padded_words [OF assms(2) n]
  have t: "pair_word_tokens (pair_words encode voc key) = 23" and d: "decode (trim (pair_words encode voc key)) = Inr (be_dec key)"
    using p by (simp_all add: pair_words_def PAIR_WORD_COUNT_def)
  have "replicate (32 - length (bytes_be (be_dec key))) 0 @ bytes_be (be_dec key) = key"
    using bytes_be_enc [OF lt] be_enc_dec [OF assms(1)] by simp
  then show ?thesis using t d length_bytes_be [OF lt]
    by (simp add: words_to_pair_pubkey_def Let_def PAIR_WORD_COUNT_def)
qed

subsection \<open>A word codec\<close>

text \<open>The word of a digit d is d + 1 letters a, and A followed by d letters a in a written number; reading
  counts.\<close>

definition demo_voc :: "string list" where
  "demo_voc = map (\<lambda>d. replicate (Suc d) (CHR ''a'')) [0..<3177]"

definition demo_digit :: "nat \<Rightarrow> string" where
  "demo_digit d = CHR ''A'' # replicate d (CHR ''a'')"

lemma demo_voc_sel: "length demo_voc = 3177" "hd demo_voc = ''a''"
  by (simp_all add: demo_voc_def hd_map)

lemma demo_zero: "capital_word z \<and> map to_lower z = ''a'' \<longleftrightarrow> z = demo_digit 0"
proof
  assume z: "capital_word z \<and> map to_lower z = ''a''"
  then obtain c where c: "z = [c]" "is_upper_char c" "to_lower c = CHR ''a''" by (auto simp: capital_word_def Cons_eq_map_conv)
  then have "char_of (of_char c + 32 :: nat) = CHR ''a''" by (simp add: to_lower_def)
  then have "(of_char c + 32 :: nat) = 97" using c(2) of_char_of [of "of_char c + 32 :: nat"] by (simp add: is_upper_char_def)
  then have "(of_char c :: nat) = of_char (CHR ''A'')" by simp
  then have "c = CHR ''A''" by (simp only: of_char_eq_iff)
  with c show "z = demo_digit 0" by (simp add: demo_digit_def)
next
  have "map to_lower (demo_digit 0) = ''a''" "capital_word (demo_digit 0)" by code_simp+
  then show "z = demo_digit 0 \<Longrightarrow> capital_word z \<and> map to_lower z = ''a''" by simp
qed

fun demo_digits :: "nat \<Rightarrow> nat list" where
  "demo_digits n = (if n < 3177 then [n] else demo_digits (n div 3177) @ [n mod 3177])"

declare demo_digits.simps [simp del]

definition demo_encode :: "nat \<Rightarrow> string" where
  "demo_encode n = concat (map demo_digit (demo_digits n))"

definition demo_decode :: "string \<Rightarrow> string + nat" where
  "demo_decode s = Inr (foldl (\<lambda>n c. if is_upper_char c then n * 3177 else n + 1) 0 s)"

lemma demo_count: "foldl (\<lambda>n c. if is_upper_char c then n * 3177 else n + 1) k (demo_digit d) = k * 3177 + d"
proof -
  have "foldl (\<lambda>n c. if is_upper_char c then n * 3177 else n + 1) j (replicate d (CHR ''a'')) = j + d" for j
    by (induction d arbitrary: j) (simp_all add: is_upper_char_def)
  then show ?thesis by (simp add: demo_digit_def is_upper_char_def)
qed

lemma demo_voca: "voca_ok demo_encode demo_decode demo_voc"
proof -
  have cap: "capital_word (demo_digit d)" for d
    by (simp add: capital_word_def demo_digit_def is_upper_char_def is_lower_char_def list_all_iff)
  have len: "length (demo_digits n) \<le> Suc m" if "n < 3177 ^ Suc m" for n m
    using that
  proof (induction m arbitrary: n)
    case 0
    then show ?case by (simp add: demo_digits.simps [of n])
  next
    case (Suc m)
    then have "n div 3177 < 3177 ^ Suc m" by (simp add: less_mult_imp_div_less)
    then show ?case using Suc.IH [of "n div 3177"] by (simp add: demo_digits.simps [of n])
  qed
  have ne: "demo_digits n \<noteq> []" for n by (simp add: demo_digits.simps [of n])
  have val: "foldl (\<lambda>n c. if is_upper_char c then n * 3177 else n + 1) 0 (concat (map demo_digit (demo_digits n))) = n" for n
  proof (induction n rule: demo_digits.induct)
    case (1 n)
    then show ?case using demo_count by (cases "n < 3177") (simp_all add: demo_digits.simps [of n])
  qed
  have zs: "foldl (\<lambda>n c. if is_upper_char c then n * 3177 else n + 1) 0 (concat (replicate k (demo_digit 0))) = (0 :: nat)" for k
    using demo_count [of _ 0] by (induction k) simp_all
  have "\<exists>ws. demo_encode n = concat ws \<and> ws \<noteq> [] \<and> list_all capital_word ws \<and> (\<forall>m. n < 3177 ^ Suc m \<longrightarrow> length ws \<le> Suc m)" for n
    using cap len ne by (intro exI [of _ "map demo_digit (demo_digits n)"]) (simp add: demo_encode_def list_all_iff)
  moreover have "demo_decode (concat (replicate k (demo_digit 0)) @ demo_encode n) = Inr n" for n k
    using zs val by (simp add: demo_decode_def demo_encode_def)
  ultimately show ?thesis by (simp add: voca_ok_def demo_voc_sel demo_zero is_lower_char_def)
qed

definition demo_key :: bytes where "demo_key = replicate 31 0 @ [7]"

theorem pair_words_roundtrip_witness:
  "words_to_pair_pubkey demo_decode (pair_words demo_encode demo_voc demo_key) = Inr demo_key"
  using pair_words_roundtrip [OF _ demo_voca, of demo_key] by (simp add: demo_key_def)

end
