(* ===== verification/Client_Key.thy ===== *)
theory Client_Key
  imports Client_Chain Pair
begin

text \<open>
  src/src/client.rs, the rest: the binding-request registry, the one-shot device writes, the transport of the
  fan-out with its checks, minting, growing and recovering the fleet key, and the transport of the fleet
  state. The application's AEAD (\<open>FleetSealer\<close>) is the pair \<open>sealer\<close>.
\<close>

section \<open>Pairing events (pair.rs)\<close>

definition parse_pair_event :: "vsf_doc \<Rightarrow> bytes \<Rightarrow> (string \<times> bytes) option" where
  "parse_pair_event D bs =
     (case vd_read_verified D bs of Inl _ \<Rightarrow> None | Inr _ \<Rightarrow>
     (case vd_primary D bs of Inl _ \<Rightarrow> None | Inr s \<Rightarrow>
        if vs_name s \<noteq> ''pair_evt'' then None
        else (case (text_value s ''k'', first_value s ''hp'') of
            (Some k, Some (V_hP b)) \<Rightarrow> if length b = 32 then Some (k, b) else None
          | _ \<Rightarrow> None)))"

section \<open>Device writes\<close>

definition bindreq_withdraw :: "'s client_env \<Rightarrow> signer \<Rightarrow> bytes \<Rightarrow> 's \<Rightarrow> (string + unit) \<times> 's" where
  "bindreq_withdraw E key hp = signed_put E key (hp_section ''bindreq_withdraw'' hp []) ''bindreq_withdraw''"

definition device_release :: "'s client_env \<Rightarrow> signer \<Rightarrow> bytes \<Rightarrow> bytes \<Rightarrow> 's \<Rightarrow> (string + unit) \<times> 's" where
  "device_release E key hp released = signed_put E key (hp_section ''device_release'' hp [(''rd'', [V_ke released])]) ''device_release''"

definition device_lock :: "'s client_env \<Rightarrow> signer \<Rightarrow> bytes \<Rightarrow> bytes \<Rightarrow> 's \<Rightarrow> (string + unit) \<times> 's" where
  "device_lock E key hp locked = signed_put E key (hp_section ''device_lock'' hp [(''ld'', [V_ke locked])]) ''device_lock''"

definition device_unlock :: "'s client_env \<Rightarrow> signer \<Rightarrow> bytes \<Rightarrow> bytes \<Rightarrow> 's \<Rightarrow> (string + unit) \<times> 's" where
  "device_unlock E key hp locked = signed_put E key (hp_section ''device_unlock'' hp [(''ld'', [V_ke locked])]) ''device_unlock''"

section \<open>Binding requests\<close>

definition bindreq_section ::
  "ext \<Rightarrow> signer \<Rightarrow> bytes \<Rightarrow> bytes \<Rightarrow> bytes \<Rightarrow> bytes option \<Rightarrow> byte \<Rightarrow> i64 \<Rightarrow> vsection" where
  "bindreq_section W key identity_seed hp nfc_secret plate plate_k now =
     (let me = sg_public key;
          nfc_hash = (if nfc_secret = zero32 then zero32 else nfc_secret_hash W nfc_secret me now);
          msg = bindreq_signing_bytes_plated hp me now plate plate_k;
          m = (case sg_bundle key of Some b \<Rightarrow> bundle_mask b | None \<Rightarrow> MASK_BASE W) in
      hp_section ''bindreq_put'' hp
        ([(''dk'', [V_ke me]), (''t'', [V_e (E6 now)]),
          (''ds'', [V_ge (eggs_to_bytes W (sg_eggs key msg m))]), (''is'', [V_ge (ed_sign W identity_seed msg)])]
         @ (case sg_bundle key of Some b \<Rightarrow> [(''kb'', [V_ge (bundle_to_bytes b)])] | None \<Rightarrow> [])
         @ (case plate of Some p \<Rightarrow> [(''pl'', [V_hb p])] | None \<Rightarrow> [])
         @ (if plate_k \<noteq> UNSTATED then [(''pk'', [V_u (ucast plate_k) False])] else [])
         @ [(''nh'', [V_hb nfc_hash])]))"

definition bindreq_put_plated ::
  "'s client_env \<Rightarrow> signer \<Rightarrow> bytes \<Rightarrow> bytes \<Rightarrow> bytes \<Rightarrow> bytes option \<Rightarrow> byte \<Rightarrow> 's \<Rightarrow> (string + i64) \<times> 's" where
  "bindreq_put_plated E key identity_seed hp nfc_secret plate plate_k =
     bind_s (en_now E) (\<lambda>now.
     try_s (unsigned_req E (bindreq_section (en_ext E) key identity_seed hp nfc_secret plate plate_k now)) (\<lambda>req.
     try_s (en_post E req) (\<lambda>resp.
     lift_s (if is_error E (rs_body resp) ''device_owned'' then Inl (owned_text ''joining a different one'')
             else try_r (reply_ok E ''bindreq_put'' resp) (\<lambda>_. Inr now)))))"

definition bindreq_put :: "'s client_env \<Rightarrow> signer \<Rightarrow> bytes \<Rightarrow> bytes \<Rightarrow> bytes \<Rightarrow> 's \<Rightarrow> (string + i64) \<times> 's" where
  "bindreq_put E key identity_seed hp nfc_secret = bindreq_put_plated E key identity_seed hp nfc_secret None UNSTATED"

text \<open>The optional tail of a row, by type; None for a bundle that does not parse. The source goes on over the
  rest of the row before it drops it, with the same result.\<close>

fun bindreq_tail :: "ext \<Rightarrow> vsf list \<Rightarrow> key_bundle option \<times> bytes option \<times> byte
    \<Rightarrow> (key_bundle option \<times> bytes option \<times> byte) option" where
  "bindreq_tail W [] acc = Some acc"
| "bindreq_tail W (V_ge b # vs) (bundle, plate, k) =
     (case bundle_from_bytes W b of Inr x \<Rightarrow> bindreq_tail W vs (Some x, plate, k) | Inl _ \<Rightarrow> None)"
| "bindreq_tail W (V_hb p # vs) (bundle, plate, k) =
     bindreq_tail W vs (bundle, if length p = 32 then Some p else plate, k)"
| "bindreq_tail W (V_u n b # vs) (bundle, plate, k) = bindreq_tail W vs (bundle, plate, if b then k else ucast n)"
| "bindreq_tail W (_ # vs) acc = bindreq_tail W vs acc"

definition bindreq_row :: "ext \<Rightarrow> vsf list \<Rightarrow> bind_request option" where
  "bindreq_row W v =
     (case (vget v 0, vget v 1, vget v 2, vget v 3) of
        (Some (V_ke dk), Some (V_e et), Some (V_ge ds), Some (V_ge is)) \<Rightarrow>
          if length dk \<noteq> 32 then None
          else (case eggs_from_bytes W ds of None \<Rightarrow> None
            | Some device_sig \<Rightarrow>
                (case bindreq_tail W (drop 5 v) (None, None, UNSTATED) of None \<Rightarrow> None
                 | Some (bundle, plate, k) \<Rightarrow>
                     Some \<lparr>br_device = dk, br_t = et_to_osc et, br_device_sig = device_sig, br_bundle = bundle,
                       br_identity_sig = is, br_plate = plate, br_plate_kind = k,
                       br_nfc_hash = (case vget v 4 of Some (V_hb h) \<Rightarrow> if length h = 32 then h else zero32 | _ \<Rightarrow> zero32)\<rparr>))
      | _ \<Rightarrow> None)"

definition bindreq_listed :: "ext \<Rightarrow> bytes \<Rightarrow> bytes \<Rightarrow> i64 \<Rightarrow> vsf list \<Rightarrow> bind_request option" where
  "bindreq_listed W hp identity_pubkey now v =
     (case bindreq_row W v of None \<Rightarrow> None
      | Some req \<Rightarrow>
          if BINDREQ_FRESH_OSC W < abs_diff_i64 now (br_t req) then None
          else if \<not> bind_request_verify W req hp identity_pubkey then None
          else Some req)"

definition bindreq_list :: "'s client_env \<Rightarrow> signer \<Rightarrow> bytes \<Rightarrow> bytes \<Rightarrow> 's \<Rightarrow> (string + bind_request list) \<times> 's" where
  "bindreq_list E key hp identity_seed =
     try_s (signed_req E key (hp_section ''bindreq_list'' hp []) ''bindreq_list'') (\<lambda>resp.
     if is_error E (rs_body resp) ''not_found'' then lift_s (Inr [])
     else try_s (lift_s (reply_ok E ''bindreq_list'' resp)) (\<lambda>_.
     try_s (lift_s (parse_reply E (rs_body resp))) (\<lambda>(_, stored).
     bind_s (en_now E) (\<lambda>now.
     lift_s (Inr (List.map_filter (bindreq_listed (en_ext E) hp (ed_public (en_ext E) identity_seed) now)
       (get_fields stored ''req'')))))))"

section \<open>The fan-out slot\<close>

text \<open>\<open>epoch_bundle(key).public()\<close>; it ends in \<open>expect\<close>, which \<open>signing_public_ok\<close> shows is never reached.\<close>

definition epoch_public :: "ext \<Rightarrow> bytes \<Rightarrow> string + key_bundle" where
  "epoch_public W key = map_err bundle_error_text (signing_public W (epoch_bundle W key))"

definition post_fanout :: "'s client_env \<Rightarrow> bytes \<Rightarrow> signer \<Rightarrow> u64 \<Rightarrow> bytes \<Rightarrow> fanout_wrap list \<Rightarrow> 's \<Rightarrow> (string + unit) \<times> 's" where
  "post_fanout E hp key revision fleet_key wraps =
     try_s (lift_s (epoch_public (en_ext E) fleet_key)) (\<lambda>epoch_pub.
     signed_put E key
       (hp_section ''fanout_put'' hp [(''bl'', [V_ge (fanout_to_bytes revision (fleet_key_fingerprint (en_ext E) fleet_key)
          (sg_public key) epoch_pub wraps)])]) ''fanout_put'')"

text \<open>The \<open>bl\<close> value of a document.\<close>

definition fanout_blob_of :: "'s client_env \<Rightarrow> bytes \<Rightarrow> string + bytes option" where
  "fanout_blob_of E doc =
     try_r (parse_reply E doc) (\<lambda>(_, stored).
     Inr (case first_value stored ''bl'' of Some (V_ge b) \<Rightarrow> Some b | _ \<Rightarrow> None))"

definition fetch_fanout_doc :: "'s client_env \<Rightarrow> bytes \<Rightarrow> 's \<Rightarrow> (string + bytes option) \<times> 's" where
  "fetch_fanout_doc E hp = get_slot E ''fanout_get'' hp"

definition fetch_fanout_blob :: "'s client_env \<Rightarrow> bytes \<Rightarrow> 's \<Rightarrow> (string + bytes option) \<times> 's" where
  "fetch_fanout_blob E hp =
     try_s (get_slot E ''fanout_get'' hp) (\<lambda>doc. lift_s (case doc of None \<Rightarrow> Inr None | Some d \<Rightarrow> fanout_blob_of E d))"

definition fetch_fanout_full :: "'s client_env \<Rightarrow> bytes \<Rightarrow> 's \<Rightarrow> (string + fanout option) \<times> 's" where
  "fetch_fanout_full E hp =
     try_s (fetch_fanout_doc E hp) (\<lambda>doc. lift_s (case doc of None \<Rightarrow> Inr None
       | Some d \<Rightarrow> try_r (fanout_blob_of E d) (\<lambda>b. case b of None \<Rightarrow> Inr None
           | Some bs \<Rightarrow> try_r (fanout_from_bytes_full (en_ext E) bs) (\<lambda>f. Inr (Some f)))))"

definition fetch_fanout :: "'s client_env \<Rightarrow> bytes \<Rightarrow> 's \<Rightarrow> (string + (u64 \<times> bytes \<times> bytes \<times> fanout_wrap list) option) \<times> 's" where
  "fetch_fanout E hp =
     try_s (fetch_fanout_full E hp) (\<lambda>f. lift_s (Inr
       (map_option (\<lambda>f. (fan_revision f, fan_kfp f, fan_rotator_ed f, fan_wraps f)) f)))"

definition verify_fanout_doc :: "'s client_env \<Rightarrow> bytes \<Rightarrow> bytes list \<Rightarrow> string + fanout" where
  "verify_fanout_doc E doc members =
     (case vd_file_signature (en_doc E) doc of
        Inl e \<Rightarrow> Inl (''fanout: envelope unverifiable: '' @ e)
      | Inr False \<Rightarrow> Inl ''fanout: envelope signature invalid''
      | Inr True \<Rightarrow>
     try_r (map_err (\<lambda>e. ''fanout: header: '' @ e) (vd_header_signer (en_doc E) doc)) (\<lambda>header.
     try_r (case header of Some (V_ke b) \<Rightarrow> if length b = 32 then Inr b else Inl ''fanout: envelope has no signer''
            | _ \<Rightarrow> Inl ''fanout: envelope has no signer'') (\<lambda>sg.
     try_r (fanout_blob_of E doc) (\<lambda>blob.
     try_r (ok_or ''fanout: document carries no blob'' blob) (\<lambda>bs.
     try_r (fanout_from_bytes_full (en_ext E) bs) (\<lambda>f.
     if sg \<noteq> fan_rotator_ed f then Inl ''fanout: envelope signer is not the blob's rotator''
     else if fan_rotator_ed f \<notin> set members then Inl ''fanout: rotator is not a current fleet member''
     else Inr f))))))"

definition fetch_fanout_verified :: "'s client_env \<Rightarrow> bytes \<Rightarrow> bytes list \<Rightarrow> 's \<Rightarrow> (string + (fanout \<times> bytes) option) \<times> 's" where
  "fetch_fanout_verified E hp members =
     try_s (fetch_fanout_doc E hp) (\<lambda>doc. lift_s (case doc of None \<Rightarrow> Inr None
       | Some d \<Rightarrow> try_r (verify_fanout_doc E d members) (\<lambda>f. Inr (Some (f, d)))))"

text \<open>A device key pair is its seed, as in pq.rs.\<close>

definition open_checked :: "'s client_env \<Rightarrow> fanout \<Rightarrow> bytes \<Rightarrow> bytes \<Rightarrow> bytes \<Rightarrow> string + bytes option" where
  "open_checked E f hp device_seed identity_seed =
     (case fanout_open (en_ext E) (en_fan E) hp (fan_kfp f) (fan_wraps f) device_seed identity_seed of
        None \<Rightarrow> Inr None
      | Some k \<Rightarrow> try_r (epoch_public (en_ext E) k) (\<lambda>b.
          if b \<noteq> fan_epoch_pub f
          then Inl (''fanout: header epoch bundle does not match the fleet key'' @ dash @ ''tampered header'')
          else Inr (Some k)))"

section \<open>The fleet key\<close>

text \<open>The result of a call as a value, for the callers that inspect it.\<close>

definition mint_fleet_key :: "'s client_env \<Rightarrow> bytes \<Rightarrow> signer \<Rightarrow> bytes list \<Rightarrow> bytes \<Rightarrow> 's \<Rightarrow> (string + u64 \<times> bytes) \<times> 's" where
  "mint_fleet_key E hp key members identity_seed =
     bind_s (fetch_fanout_blob E hp) (\<lambda>stored.
     let current = (case stored of Inr (Some b) \<Rightarrow> (case fanout_blob_epoch b of Some r \<Rightarrow> r | None \<Rightarrow> 0) | _ \<Rightarrow> 0);
         revision = current + 1 in
     bind_s (en_rand E) (\<lambda>fleet_key.
     try_s (fanout_seal (en_ext E) (en_fan E) (en_rand E) hp fleet_key members identity_seed) (\<lambda>wraps.
     try_s (post_fanout E hp key revision fleet_key wraps) (\<lambda>_.
     lift_s (Inr (revision, fleet_key))))))"

definition grow_fleet_wraps ::
  "'s client_env \<Rightarrow> bytes \<Rightarrow> signer \<Rightarrow> bytes \<Rightarrow> bytes list \<Rightarrow> bytes \<Rightarrow> 's \<Rightarrow> (string + u64) \<times> 's" where
  "grow_fleet_wraps E hp key held_key members identity_seed =
     try_s (fetch_fanout E hp) (\<lambda>f.
     try_s (lift_s (ok_or ''fanout: nothing to grow (no fan-out published)'' f)) (\<lambda>(revision, kfp, _, _).
     if fleet_key_fingerprint (en_ext E) held_key \<noteq> kfp
     then lift_s (Inl (''fanout: held key is not the published key'' @ dash @ ''grow refused (mint owns key changes)''))
     else try_s (fanout_seal (en_ext E) (en_fan E) (en_rand E) hp held_key members identity_seed) (\<lambda>wraps.
     try_s (post_fanout E hp key (revision + 1) held_key wraps) (\<lambda>_.
     lift_s (Inr (revision + 1))))))"

text \<open>\<open>recover_fleet_key\<close> and its variant that keeps the revision: an error of the blob itself reads as none.\<close>

definition recover_with ::
  "'s client_env \<Rightarrow> (fanout \<Rightarrow> bytes \<Rightarrow> 'k) \<Rightarrow> bytes \<Rightarrow> bytes \<Rightarrow> bytes \<Rightarrow> 's \<Rightarrow> (string + 'k option) \<times> 's" where
  "recover_with E view hp device_seed identity_seed =
     bind_s (fetch_fanout_full E hp) (\<lambda>r.
     lift_s (case r of
        Inr (Some f) \<Rightarrow> try_r (open_checked E f hp device_seed identity_seed) (\<lambda>k. Inr (map_option (view f) k))
      | Inr None \<Rightarrow> Inr None
      | Inl e \<Rightarrow> if starts_with e ''fanout:'' then Inr None else Inl e))"

definition recover_fleet_key :: "'s client_env \<Rightarrow> bytes \<Rightarrow> bytes \<Rightarrow> bytes \<Rightarrow> 's \<Rightarrow> (string + bytes option) \<times> 's" where
  "recover_fleet_key E = recover_with E (\<lambda>f k. k)"

definition recover_fleet_key_with_epoch ::
  "'s client_env \<Rightarrow> bytes \<Rightarrow> bytes \<Rightarrow> bytes \<Rightarrow> 's \<Rightarrow> (string + (u64 \<times> bytes) option) \<times> 's" where
  "recover_fleet_key_with_epoch E = recover_with E (\<lambda>f k. (fan_revision f, k))"

definition establish_fleet_key :: "'s client_env \<Rightarrow> bytes \<Rightarrow> bytes \<Rightarrow> bytes \<Rightarrow> 's \<Rightarrow> (string + bytes option) \<times> 's" where
  "establish_fleet_key E hp device_seed identity_seed =
     try_s (current_members E hp) (\<lambda>members.
     if members = [] then lift_s (Inr None)
     else bind_s (mint_fleet_key E hp (keypair_signer (en_ext E) device_seed) members identity_seed) (\<lambda>minted.
       case minted of Inr (_, k) \<Rightarrow> lift_s (Inr (Some k))
       | Inl _ \<Rightarrow> recover_fleet_key E hp device_seed identity_seed))"

definition recover_or_establish_fleet_key :: "'s client_env \<Rightarrow> bytes \<Rightarrow> bytes \<Rightarrow> bytes \<Rightarrow> 's \<Rightarrow> (string + bytes option) \<times> 's" where
  "recover_or_establish_fleet_key E hp device_seed identity_seed =
     bind_s (fetch_fanout_full E hp) (\<lambda>r.
     case r of
       Inr (Some f) \<Rightarrow> lift_s (open_checked E f hp device_seed identity_seed)
     | Inr None \<Rightarrow> establish_fleet_key E hp device_seed identity_seed
     | Inl _ \<Rightarrow> establish_fleet_key E hp device_seed identity_seed)"

section \<open>The fleet state slot\<close>

record sealer =
  sl_seal :: "bytes \<Rightarrow> bytes \<Rightarrow> string + bytes"
  sl_open :: "bytes \<Rightarrow> bytes \<Rightarrow> string + bytes"

text \<open>The texts of the state reader's errors are not inspected by anyone: \<open>show\<close> stands for them.\<close>

definition push_fstate ::
  "'s client_env \<Rightarrow> doc_codec \<Rightarrow> sealer \<Rightarrow> bytes \<Rightarrow> signer \<Rightarrow> bytes \<Rightarrow> row_val fleet_state \<Rightarrow> 's \<Rightarrow> (string + unit) \<times> 's" where
  "push_fstate E D S hp key fleet_key st =
     try_s (lift_s (sl_seal S (fstate_to_bytes D st) fleet_key)) (\<lambda>sealed.
     bind_s (en_now E) (\<lambda>now.
     signed_put E key (hp_section ''fstate_put'' hp [(''bl'', [V_ge sealed]), (''t'', [V_e (E6 now)])]) ''fstate_put''))"

definition pull_fstate ::
  "'s client_env \<Rightarrow> doc_codec \<Rightarrow> (row_val \<Rightarrow> u64 option) \<Rightarrow> (fstate_error \<Rightarrow> string) \<Rightarrow> sealer \<Rightarrow> bytes \<Rightarrow> bytes
    \<Rightarrow> 's \<Rightarrow> (string + row_val fleet_state option) \<times> 's" where
  "pull_fstate E D U show S hp fleet_key =
     try_s (get_slot E ''fstate_get'' hp) (\<lambda>body. lift_s (case body of None \<Rightarrow> Inr None
       | Some b \<Rightarrow> try_r (fanout_blob_of E b) (\<lambda>bl. case bl of None \<Rightarrow> Inr None
           | Some sealed \<Rightarrow> try_r (sl_open S sealed fleet_key) (\<lambda>plain.
               try_r (map_err show (fstate_from_bytes D U plain)) (\<lambda>st. Inr (Some st))))))"

end
