(* ===== verification/Client_Sessions.thy ===== *)
theory Client_Sessions
  imports Client_Chain
begin

text \<open>
  What the chain operations of the client do to the world, as the list of their exchanges with the
  chain slot: \<open>session\<close> is the step relation, and the locale \<open>chain_edit\<close> is the contract of one decision
  of the edit loop, proved once to keep to a script and interpreted on every operation.
\<close>

section \<open>Sessions\<close>

datatype act = Fetched blob | Missed | Put blob "string + unit"

inductive session :: "'s client_env \<Rightarrow> bytes \<Rightarrow> 's \<Rightarrow> act list \<Rightarrow> 's \<Rightarrow> bool" for E hp where
  session_end: "session E hp s [] s"
| session_fetch: "fetch E hp s = (Inr (Some c), t) \<Longrightarrow> session E hp t as u \<Longrightarrow> session E hp s (Fetched c # as) u"
| session_miss: "fetch E hp s = (r, t) \<Longrightarrow> (\<And>c. r \<noteq> Inr (Some c)) \<Longrightarrow> session E hp t as u
    \<Longrightarrow> session E hp s (Missed # as) u"
| session_clock: "en_now E s = (x, t) \<Longrightarrow> session E hp t as u \<Longrightarrow> session E hp s as u"
| session_put: "publish E ops s = (r, t) \<Longrightarrow> session E hp t as u \<Longrightarrow> session E hp s (Put ops r # as) u"

inductive_cases session_NilE: "session E hp s [] u"

lemma session_one:
  "fetch E hp s = (Inr (Some c), t) \<Longrightarrow> session E hp s [Fetched c] t"
  "fetch E hp s = (r, t) \<Longrightarrow> (\<And>c. r \<noteq> Inr (Some c)) \<Longrightarrow> session E hp s [Missed] t"
  "publish E ops s = (q, t) \<Longrightarrow> session E hp s [Put ops q] t"
  by (auto intro: session.intros)

lemma session_append:
  "session E hp s as t \<Longrightarrow> session E hp t bs u \<Longrightarrow> session E hp s (as @ bs) u"
  by (induction rule: session.induct) (auto intro: session.intros)

text \<open>The script of an edit: read, and then publish what was read with one allowed op at its end, not
  stamped before its tip; start over only after the publish was refused as stale.\<close>

fun script :: "(blob \<Rightarrow> fleet_op \<Rightarrow> bool) \<Rightarrow> act list \<Rightarrow> bool" where
  "script ok [] \<longleftrightarrow> True"
| "script ok [Missed] \<longleftrightarrow> True"
| "script ok [Fetched c] \<longleftrightarrow> True"
| "script ok (Fetched c # Put ops r # as) \<longleftrightarrow>
     (\<exists>p. ops = c @ [p] \<and> sint (tip_time c) \<le> sint (op_time p) \<and> ok c p) \<and> script ok as \<and>
     (as \<noteq> [] \<longrightarrow> (\<exists>e. r = Inl e \<and> contains e ''stale''))"
| "script ok _ \<longleftrightarrow> False"

definition landed :: "(blob \<Rightarrow> bool) \<Rightarrow> act list \<Rightarrow> bool" where
  "landed fin as \<longleftrightarrow> as \<noteq> [] \<and> ((\<exists>c. last as = Fetched c \<and> fin c) \<or> (\<exists>ops. last as = Put ops (Inr ())))"

text \<open>A run that keeps to the script in at most \<open>n\<close> exchanges, and that answers Ok only for a reason.\<close>

definition edits ::
  "'s client_env \<Rightarrow> bytes \<Rightarrow> nat \<Rightarrow> (blob \<Rightarrow> fleet_op \<Rightarrow> bool) \<Rightarrow> (blob \<Rightarrow> bool) \<Rightarrow> 's \<Rightarrow> (string + unit) \<times> 's \<Rightarrow> bool" where
  "edits E hp n ok fin s out \<longleftrightarrow>
     (\<exists>as. session E hp s as (snd out) \<and> script ok as \<and> length as \<le> n \<and> (fst out = Inr () \<longrightarrow> landed fin as))"

lemma edits_mono:
  "edits E hp n ok fin s out \<Longrightarrow> n \<le> m \<Longrightarrow> edits E hp m ok fin s out"
  unfolding edits_def by (meson order_trans)

lemma stamp_after_le: "stamp_after E ops s = (at, t) \<Longrightarrow> sint (tip_time ops) \<le> sint at"
  by (auto simp: stamp_after_def bind_s_def split: prod.splits if_splits)

lemma session_stamp: "stamp_after E ops s = (at, t) \<Longrightarrow> session E hp t as u \<Longrightarrow> session E hp s as u"
  by (auto simp: stamp_after_def bind_s_def split: prod.splits intro: session_clock)

section \<open>The contract of a decision\<close>

locale chain_edit =
  fixes ed :: edit
    and ok :: "blob \<Rightarrow> fleet_op \<Rightarrow> bool"
    and fin :: "blob \<Rightarrow> bool"
  assumes ed_builds: "ed c = Inr (Some build) \<Longrightarrow> build at = Some ops \<Longrightarrow> \<exists>p. ops = c @ [p] \<and> op_time p = at \<and> ok c p"
    and ed_done: "ed c = Inr None \<Longrightarrow> fin c"
begin

abbreviation allowed :: "blob \<Rightarrow> blob \<Rightarrow> bool" where
  "allowed c ops \<equiv> \<exists>p. ops = c @ [p] \<and> sint (tip_time c) \<le> sint (op_time p) \<and> ok c p"

text \<open>One round after the fetch: it stops, or a publish was refused as stale and the loop goes on.\<close>

lemma edit_round:
  assumes f: "fetch E hp s = (Inr (Some c), t)"
  shows "(\<exists>as. session E hp s as (snd (edit_loop E hp missing ed raced (Suc n) s)) \<and> script ok as \<and> length as \<le> 2 \<and>
        (fst (edit_loop E hp missing ed raced (Suc n) s) = Inr () \<longrightarrow> landed fin as))
    \<or> (\<exists>ops e v. session E hp s [Fetched c, Put ops (Inl e)] v \<and> allowed c ops \<and> contains e ''stale'' \<and>
        edit_loop E hp missing ed raced (Suc n) s = edit_loop E hp missing ed raced n v)" (is "?stop \<or> ?again")
proof -
  let ?out = "edit_loop E hp missing ed raced (Suc n) s"
  have one: "session E hp s [Fetched c] t" by (rule session_one(1) [OF f])
  have halt: "?stop" if "?out = (q, u)" "session E hp s [Fetched c] u" "q = Inr () \<Longrightarrow> fin c" for q u
    using that by (auto simp: landed_def intro!: exI [of _ "[Fetched c]"])
  consider (err) e where "ed c = Inl e" | (idle) "ed c = Inr None" | (todo) build where "ed c = Inr (Some build)"
    by (metis not_Some_eq sum.exhaust_sel)
  then show ?thesis
  proof cases
    case err
    then have "?out = (Inl e, t)" using f by (simp add: try_s_def)
    then show ?thesis using halt one by blast
  next
    case idle
    then have "?out = (Inr (), t)" using f by (simp add: try_s_def)
    then show ?thesis using halt one ed_done [OF idle] by blast
  next
    case todo
    obtain at u where st: "stamp_after E c t = (at, u)" by fastforce
    have one': "session E hp s [Fetched c] u"
      using session_append [OF one session_stamp [OF st session_end]] by simp
    show ?thesis
    proof (cases "build at")
      case None
      then have "?out = (Inl ''index out of bounds'', u)" using f todo st by (simp add: try_s_def bind_s_def)
      then show ?thesis using halt one' by blast
    next
      case b: (Some ops)
      then have step: "allowed c ops" using ed_builds [OF todo b] stamp_after_le [OF st] by blast
      obtain q v where pub: "publish E ops u = (q, v)" by fastforce
      have two: "session E hp s [Fetched c, Put ops q] v"
        using session_append [OF one' session_one(3) [OF pub]] by simp
      have eq: "?out = (case q of Inr _ \<Rightarrow> (Inr (), v)
          | Inl e \<Rightarrow> if contains e ''stale'' then edit_loop E hp missing ed raced n v else (Inl e, v))"
        using f todo b st pub by (auto simp: bind_s_def try_s_def publish_or_stale_def split: sum.splits)
      show ?thesis
      proof (cases "\<exists>e. q = Inl e \<and> contains e ''stale''")
        case True
        then obtain e where e: "q = Inl e" "contains e ''stale''" by blast
        then have "?out = edit_loop E hp missing ed raced n v" unfolding eq by simp
        then show ?thesis using two step e by blast
      next
        case False
        then have "snd ?out = v" "fst ?out = Inr () \<Longrightarrow> q = Inr ()" unfolding eq by (auto split: sum.splits if_splits)
        then show ?thesis using two step
          by (intro disjI1 exI [of _ "[Fetched c, Put ops q]"]) (auto simp: landed_def)
      qed
    qed
  qed
qed

lemma loop_edits: "edits E hp (2 * n) ok fin s (edit_loop E hp missing ed raced n s)"
proof (induction n arbitrary: s)
  case 0
  show ?case by (auto simp: edits_def intro: session_end exI [of _ "[]"])
next
  case (Suc n)
  obtain r t where f: "fetch E hp s = (r, t)" by fastforce
  show ?case
  proof (cases "\<exists>c. r = Inr (Some c)")
    case False
    then obtain e where "edit_loop E hp missing ed raced (Suc n) s = (Inl e, t)"
      using f by (cases r) (auto simp: try_s_def ok_or_def split: option.splits)
    moreover have "session E hp s [Missed] t" using session_one(2) [OF f] False by blast
    ultimately show ?thesis by (auto simp: edits_def intro!: exI [of _ "[Missed]"])
  next
    case True
    then obtain c where fc: "fetch E hp s = (Inr (Some c), t)" using f by blast
    from edit_round [OF fc, of missing raced n] show ?thesis
    proof
      assume "\<exists>ops e v. session E hp s [Fetched c, Put ops (Inl e)] v \<and> allowed c ops \<and> contains e ''stale'' \<and>
        edit_loop E hp missing ed raced (Suc n) s = edit_loop E hp missing ed raced n v"
      then obtain ops e v where again: "session E hp s [Fetched c, Put ops (Inl e)] v" "allowed c ops"
        "contains e ''stale''" "edit_loop E hp missing ed raced (Suc n) s = edit_loop E hp missing ed raced n v" by blast
      obtain as where as: "session E hp v as (snd (edit_loop E hp missing ed raced n v))" "script ok as"
        "length as \<le> 2 * n" "fst (edit_loop E hp missing ed raced n v) = Inr () \<Longrightarrow> landed fin as"
        using Suc.IH [of v] unfolding edits_def by blast
      have "landed fin as \<Longrightarrow> landed fin (Fetched c # Put ops (Inl e) # as)" by (auto simp: landed_def)
      then show ?thesis using session_append [OF again(1) as(1)] again as unfolding edits_def again(4)
        by (intro exI [of _ "Fetched c # Put ops (Inl e) # as"]) auto
    qed (auto simp: edits_def)
  qed
qed

lemma four_rounds: "edits E hp 8 ok fin s (edit_loop E hp missing ed raced 4 s)"
  using loop_edits [of E hp 4] by simp

end

section \<open>The operations keep the contract\<close>

lemma stored_fold_Inr [simp]: "stored_fold E c = Inr ms \<longleftrightarrow> fleet_fold (en_ext E) c = Inr ms"
  by (simp add: stored_fold_def)

lemma sign_op_sel [simp]:
  "op_kind (sign_op W s hp prev k d t sg ip is cons ck b m) = k"
  "op_device (sign_op W s hp prev k d t sg ip is cons ck b m) = d"
  "op_time (sign_op W s hp prev k d t sg ip is cons ck b m) = t"
  "op_signer (sign_op W s hp prev k d t sg ip is cons ck b m) = sg"
  by (simp_all add: sign_op_def)

text \<open>What each operation may append, and when it has nothing left to do.\<close>

definition adds :: "ext \<Rightarrow> signer \<Rightarrow> bind_request \<Rightarrow> blob \<Rightarrow> fleet_op \<Rightarrow> bool" where
  "adds W key req c p \<longleftrightarrow> op_kind p = Add \<and> op_device p = br_device req \<and> op_signer p = sg_public key \<and>
     op_consent_t p = br_t req \<and> op_consent p = br_device_sig req \<and>
     is_member W c (sg_public key) \<and> \<not> is_member W c (br_device req)"

definition signs :: "ext \<Rightarrow> op_kind \<Rightarrow> bytes \<Rightarrow> signer \<Rightarrow> blob \<Rightarrow> fleet_op \<Rightarrow> bool" where
  "signs W k d key c p \<longleftrightarrow> op_kind p = k \<and> op_device p = d \<and> op_signer p = sg_public key"

interpretation bind_loop: chain_edit "bind_edit E key req" "adds (en_ext E) key req" "\<lambda>c. is_member (en_ext E) c (br_device req)"
  by unfold_locales
    (auto simp: bind_edit_def try_r_Inr adds_def is_member_def build_add_with_def split: if_splits)

interpretation depart_loop: chain_edit "depart_edit E key" "signs (en_ext E) Remove (sg_public key) key"
    "\<lambda>c. \<not> is_member (en_ext E) c (sg_public key)"
  by unfold_locales
    (auto simp: depart_edit_def try_r_Inr signs_def is_member_def build_depart_def split: if_splits)

interpretation consented_loop: chain_edit "consented_edit E key d ct es" "signs (en_ext E) Remove d key"
    "\<lambda>c. \<not> is_member (en_ext E) c d"
  by unfold_locales
    (auto simp: consented_edit_def try_r_Inr signs_def is_member_def build_remove_consented_def split: if_splits)

interpretation declare_loop: chain_edit "declare_edit E key plate plate_k" "signs (en_ext E) Declare (sg_public key) key"
    "\<lambda>c. covers (declared_mask (en_ext E) c (sg_public key))
        (case sg_bundle key of Some b \<Rightarrow> bundle_mask b | None \<Rightarrow> MASK_BASE (en_ext E))"
  by unfold_locales
    (auto simp: declare_edit_def try_r_Inr signs_def build_declare_plated_def Let_def split: if_splits list.splits)

interpretation lock_loop: chain_edit "lock_edit E key d lock" "signs (en_ext E) (if lock then Lock else Unlock) d key"
    "\<lambda>c. \<exists>l. locked_out (en_ext E) c = Inr l \<and> (d \<in> set l \<longleftrightarrow> lock)"
  by unfold_locales
    (auto simp: lock_edit_def try_r_Inr signs_def build_lock_def build_unlock_def build_lock_op_def Let_def
      split: if_splits list.splits)

end
