(* ===== verification/Client_Chain_Props.thy ===== *)
theory Client_Chain_Props
  imports Client_Sessions Demo_Fleet Fanout_Props
begin

text \<open>
  Properties of the client's chain operations: what they publish and how often, what an Ok means, and
  that reading by chain extension never goes back.
\<close>

section \<open>Edits\<close>

text \<open>C13: binding a device: whatever the transport answers, a call reads the chain and publishes, at most
  four times each, a chain it just read with one op at its end: the Add of the requested device carrying
  that device's own consent, signed by the caller, who is a member of the chain read while the device is
  not, and stamped no earlier than the tip; it publishes again only after a refusal as stale. It answers
  Ok only when the last read has the device as a member or the last publish was accepted.\<close>

theorem bind_adds_only:
  "edits E hp 8 (adds (en_ext E) key req) (\<lambda>c. is_member (en_ext E) c (br_device req)) s (bind_device E key hp req s)"
  unfolding bind_device_def by (rule bind_loop.four_rounds)

section \<open>Checkpoints and bounds\<close>



lemma session_fetched:
  "fetch E hp s = (r, t) \<Longrightarrow> \<exists>a. session E hp s [a] t \<and> (\<forall>ops q. a \<noteq> Put ops q) \<and> (\<forall>c. r = Inr (Some c) \<longrightarrow> a = Fetched c)"
proof -
  assume f: "fetch E hp s = (r, t)"
  show ?thesis
  proof (cases "\<exists>c. r = Inr (Some c)")
    case True
    then obtain c where "r = Inr (Some c)" ..
    then show ?thesis using session_one(1) [of E hp s c t] f by auto
  next
    case False
    then show ?thesis using session_one(2) [OF f] by blast
  qed
qed





section \<open>Founding\<close>

definition founds :: "'s client_env \<Rightarrow> signer \<Rightarrow> bytes \<Rightarrow> bytes \<Rightarrow> bytes option \<Rightarrow> byte \<Rightarrow> 's \<Rightarrow> (string + unit) \<times> 's \<Rightarrow> bool" where
  "founds E key hp seed plate plate_k s out \<longleftrightarrow>
     (\<exists>as. session E hp s as (snd out) \<and> length as \<le> 3 \<and>
       (\<forall>ops r. Put ops r \<in> set as \<longrightarrow> (\<exists>now. ops = build_genesis_v2_plated (en_ext E) key hp seed now plate plate_k)) \<and>
       (fst out = Inr () \<longrightarrow> as \<noteq> [] \<and> (\<exists>c. last as = Fetched c \<and> is_member (en_ext E) c (sg_public key))))"

lemma member_of_Inr: "member_of E me ops = Inr True \<longleftrightarrow> is_member (en_ext E) ops me"
  by (auto simp: member_of_def is_member_def map_err_def split: sum.splits)

lemma found_fleet_session:
  "\<exists>as. session E hp s as (snd (found_fleet E key hp seed plate plate_k s)) \<and> length as \<le> 2 \<and>
     (\<forall>ops r. Put ops r \<in> set as \<longrightarrow> (\<exists>now. ops = build_genesis_v2_plated (en_ext E) key hp seed now plate plate_k)) \<and>
     (fst (found_fleet E key hp seed plate plate_k s) = Inr () \<longrightarrow>
       as \<noteq> [] \<and> (\<exists>c. last as = Fetched c \<and> is_member (en_ext E) c (sg_public key)))"
proof -
  obtain now t where n: "en_now E s = (now, t)" by fastforce
  let ?g = "build_genesis_v2_plated (en_ext E) key hp seed now plate plate_k"
  obtain q u where p: "publish E ?g t = (q, u)" by fastforce
  obtain r v where f: "fetch E hp u = (r, v)" by fastforce
  obtain a where a: "session E hp u [a] v" "\<forall>ops q. a \<noteq> Put ops q" "\<forall>c. r = Inr (Some c) \<longrightarrow> a = Fetched c"
    using session_fetched [OF f] by blast
  let ?out = "found_fleet E key hp seed plate plate_k s"
  have "snd ?out = v" using n p f
    by (auto simp: found_fleet_def bind_s_def try_s_def split: sum.splits option.splits)
  moreover have "\<exists>c. r = Inr (Some c) \<and> is_member (en_ext E) c (sg_public key)" if "fst ?out = Inr ()"
    using n p f that
    by (auto simp: found_fleet_def bind_s_def try_s_def try_r_Inr member_of_Inr split: sum.splits option.splits if_splits)
  ultimately show ?thesis
    using session_clock [OF n session_append [OF session_one(3) [OF p] a(1)]] a(2,3)
    by (intro exI [of _ "[Put ?g q, a]"]) auto
qed

lemma ensure_member_cases:
  assumes f: "fetch E hp s = (r, t)"
  obtains (found) "ensure_member_plated E key hp seed plate plate_k s = found_fleet E key hp seed plate plate_k t"
    | (inside) c where "ensure_member_plated E key hp seed plate plate_k s = (Inr (), t)" "r = Inr (Some c)"
        "is_member (en_ext E) c (sg_public key)"
    | (err) e where "ensure_member_plated E key hp seed plate plate_k s = (Inl e, t)"
proof (cases r)
  case (Inl e)
  then show ?thesis using f found err
    by (cases "dead_format e") (simp_all add: ensure_member_plated_def fetch_living_def try_s_def)
next
  case (Inr x)
  show ?thesis
  proof (cases x)
    case None
    then show ?thesis using f found Inr by (simp add: ensure_member_plated_def fetch_living_def try_s_def)
  next
    case (Some c)
    then have "ensure_member_plated E key hp seed plate plate_k s = (case member_of E (sg_public key) c of
        Inr True \<Rightarrow> (Inr (), t) | Inr False \<Rightarrow> (Inl enroll_first, t) | Inl _ \<Rightarrow> found_fleet E key hp seed plate plate_k t)"
      using f Inr by (auto simp: ensure_member_plated_def fetch_living_def try_s_def split: sum.splits bool.splits)
    then show ?thesis using found inside err Inr Some member_of_Inr [of E "sg_public key" c]
      by (cases "member_of E (sg_public key) c") (auto split: bool.splits)
  qed
qed

text \<open>C15: membership before a write: \<open>ensure_member\<close> makes at most two reads and one publish, never publishes
  anything but a genesis of this device for this name, and answers Ok only when the chain it read last
  folds and names this device: a device whose genesis lost the race never believes it founded the
  fleet.\<close>

theorem ensure_member_sound:
  "founds E key hp seed plate plate_k s (ensure_member_plated E key hp seed plate plate_k s)"
proof -
  let ?out = "ensure_member_plated E key hp seed plate plate_k s"
  obtain r t where f: "fetch E hp s = (r, t)" by fastforce
  obtain a where a: "session E hp s [a] t" "\<forall>ops q. a \<noteq> Put ops q" "\<forall>c. r = Inr (Some c) \<longrightarrow> a = Fetched c"
    using session_fetched [OF f] by blast
  show ?thesis using f
  proof (cases rule: ensure_member_cases [where key = key and seed = seed and plate = plate and plate_k = plate_k])
    case found
    obtain as where as: "session E hp t as (snd ?out)" "length as \<le> 2"
      "\<forall>ops r. Put ops r \<in> set as \<longrightarrow> (\<exists>now. ops = build_genesis_v2_plated (en_ext E) key hp seed now plate plate_k)"
      "fst ?out = Inr () \<longrightarrow> as \<noteq> [] \<and> (\<exists>c. last as = Fetched c \<and> is_member (en_ext E) c (sg_public key))"
      using found_fleet_session [of E hp t key seed plate plate_k] unfolding found by blast
    show ?thesis using session_append [OF a(1) as(1)] as a(2) unfolding founds_def
      by (intro exI [of _ "a # as"]) auto
  qed (use a in \<open>auto simp: founds_def intro!: exI [of _ "[a]"]\<close>)
qed

section \<open>Adoption\<close>

text \<open>C16: reading by extension: when the read lands, the chain folds to the members reported, it is for the
  slot asked, and the chain adopted before is a prefix of it, so a reader that adopts what lands never
  loses an op, whatever the tip's stamp; anything else read as an answer is a proper prefix, a fork or
  another genesis.\<close>

theorem adopting_never_rolls_back:
  assumes "current_fleet_adopting E hp adopted s = (Inr (Some r), t)" and "\<forall>old. adopted = Some old \<longrightarrow> old \<noteq> []"
  shows "fleet_fold (en_ext E) (fr_chain r) = Inr (fr_members r) \<and> genesis_handle_proof (fr_chain r) = Some hp
    \<and> (lands (fr_verdict r) \<longleftrightarrow> (\<forall>old. adopted = Some old \<longrightarrow> prefix old (fr_chain r)))"
proof -
  obtain c where q: "(case c of None \<Rightarrow> Inr None
       | Some chain \<Rightarrow> try_r (stored_fold_ts E chain) (\<lambda>(members, tip).
           if genesis_handle_proof chain \<noteq> Some hp then Inl not_this_slot
           else Inr (Some \<lparr>fr_verdict = chain_adoption (en_ext E) chain adopted, fr_chain = chain,
             fr_members = members, fr_tip = tip,
             fr_genesis = (case genesis_hash (en_ext E) chain of Some g \<Rightarrow> g | None \<Rightarrow> zero32)\<rparr>))) = Inr (Some r)"
    using assms(1) by (auto simp: current_fleet_adopting_def try_elims)
  then obtain tip where r: "fold_with_ts (en_ext E) (fr_chain r) = Inr (fr_members r, tip)"
    and g: "genesis_handle_proof (fr_chain r) = Some hp" and v: "fr_verdict r = chain_adoption (en_ext E) (fr_chain r) adopted"
    by (cases c) (auto simp: stored_fold_ts_def try_r_Inr split: if_splits)
  have "fleet_fold (en_ext E) (fr_chain r) = Inr (fr_members r)"
    using r by (cases "fleet_fold (en_ext E) (fr_chain r)") (auto simp: fold_with_ts_def)
  moreover have "lands (fr_verdict r) \<longleftrightarrow> prefix old (fr_chain r)" if "adopted = Some old" for old
  proof (cases "prefix old (fr_chain r)")
    case True
    moreover have "old \<noteq> []" using assms(2) that by blast
    ultimately have "genesis_hash (en_ext E) (fr_chain r) = genesis_hash (en_ext E) old" by (rule genesis_hash_prefix [rotated])
    then show ?thesis using v that True by (simp add: chain_adoption_def chain_extends_prefix)
  next
    case False
    then show ?thesis using v that by (simp add: chain_adoption_def chain_extends_prefix)
  qed
  ultimately show ?thesis using g v by (cases adopted) (auto simp: chain_adoption_def)
qed

section \<open>Checkpoints\<close>

text \<open>What \<open>push_checkpoint\<close> says without publishing: on a chain that folds with the caller a member, if
  \<open>k\<close> is not the next number it publishes nothing and answers with the newest checkpoint of the chain;
  when the chain has none at all that answer is the one that means our op landed, and when the newest is
  below \<open>k\<close> it is handed out as a competing one.\<close>

theorem checkpoint_out_of_step:
  assumes "fetch E hp s = (Inr (Some c), t)" and "is_member (en_ext E) c (sg_public key)"
    and "(case latest_checkpoint c of Some (lk, _) \<Rightarrow> lk | None \<Rightarrow> 0) + 1 \<noteq> k"
  shows "push_checkpoint E hp key k commit epoch s = (Inr (latest_checkpoint c), t)"
proof -
  obtain ms where "fleet_fold (en_ext E) c = Inr ms" "sg_public key \<in> set ms"
    using assms(2) by (auto simp: is_member_def split: sum.splits)
  then show ?thesis using assms(1,3) by (simp add: push_checkpoint_def try_s_def stored_fold_def)
qed

section \<open>Dead formats\<close>

lemma no_f_no_contains:
  "CHR ''f'' \<notin> set s \<Longrightarrow> \<not> dead_format s"
  by (auto simp: dead_format_def contains_iff)

lemma decimal_no_f: "CHR ''f'' \<notin> set (decimal n)"
  using decimal_chars [of "CHR ''f''" n] by auto

text \<open>The flag-day test of \<open>ensure_member\<close> recognises the errors of the op parser by their prefix, and
  three of them do not have it: an unknown kind and a malformed egg are reported, not superseded.\<close>

theorem dead_format_misses:
  "dead_format (wire_error_text x e) \<longleftrightarrow>
     \<not> (case e of BadKind _ \<Rightarrow> True | BadEggScheme \<Rightarrow> True | BadEggSig \<Rightarrow> True | _ \<Rightarrow> False)"
proof -
  have pre: "dead_format s" if "take 9 s = ''fleet op:''" for s
    unfolding dead_format_def contains_iff using that by (metis append_Nil append_take_drop_id)
  have egg: "\<not> dead_format ''fleet egg: bad scheme''" "\<not> dead_format ''fleet egg: bad sig''"
    by code_simp+
  have k: "\<not> dead_format (''bad kind '' @ decimal n)" for n
    by (rule no_f_no_contains) (simp add: decimal_no_f)
  show ?thesis
  proof (cases e)
    case (BadKind n)
    then show ?thesis using k [of n] by simp
  qed (simp_all add: pre egg)
qed

end
