(* ===== verification/Client_Key_Props.thy ===== *)
theory Client_Key_Props
  imports Client_Key Client_Chain_Props
begin

text \<open>
  Properties of the client across components: a request from the registry that is bound gives a chain that
  folds, a recovered key is the one the fan-out names, a minted key reaches every member, growing keeps
  the key, and what the establish path does when the fan-out cannot be read.
\<close>

section \<open>Binding\<close>

lemma bindreq_row_length: "bindreq_row W v = Some r \<Longrightarrow> length (br_device r) = 32"
  by (auto simp: bindreq_row_def split: option.splits vsf.splits if_splits prod.splits)

lemma bindreq_listed_Some:
  "bindreq_listed W hp ipk now v = Some r \<Longrightarrow>
     length (br_device r) = 32 \<and> abs_diff_i64 now (br_t r) \<le> BINDREQ_FRESH_OSC W \<and> bind_request_verify W r hp ipk"
  by (auto simp: bindreq_listed_def dest: bindreq_row_length split: option.splits if_splits)

text \<open>C19: the registry can be served by anyone: every request \<open>bindreq_list\<close> returns is within the freshness
  window of one clock reading and carries the device's own signatures under its bundle and the identity's,
  over this name, this device and this plate.\<close>

theorem bindreq_list_sound:
  assumes "bindreq_list E key hp identity_seed s = (Inr reqs, t)" and "reqs \<noteq> []"
  shows "\<exists>now. (\<exists>u. en_now E u = (now, t)) \<and> (\<forall>r \<in> set reqs. length (br_device r) = 32 \<and>
    abs_diff_i64 now (br_t r) \<le> BINDREQ_FRESH_OSC (en_ext E) \<and>
    bind_request_verify (en_ext E) r hp (ed_public (en_ext E) identity_seed))"
proof -
  obtain now u rows where n: "en_now E u = (now, t)"
    and r: "reqs = List.map_filter (bindreq_listed (en_ext E) hp (ed_public (en_ext E) identity_seed) now) rows"
    using assms by (auto simp: bindreq_list_def try_elims split: if_splits prod.splits)
  have "\<forall>q \<in> set reqs. \<exists>v. bindreq_listed (en_ext E) hp (ed_public (en_ext E) identity_seed) now v = Some q"
    unfolding r by (auto simp: List.map_filter_def)
  then show ?thesis using n bindreq_listed_Some by blast
qed

lemma bound_request_step:
  assumes "may_sign (en_ext E) c w key" and "bind_request_verify (en_ext E) req (chain_handle_proof c) ipk"
    and "br_device req \<notin> set (w_members w)" and "map_of (w_bundles w) (br_device req) = None"
    and "joined = (case br_bundle req of Some b \<Rightarrow> b | None \<Rightarrow> ed25519_only (en_ext E) (br_device req))"
    and "covers (bundle_mask joined) (w_floor w)" and "plate_known (br_plate_kind req)"
    and "time_ok at" and "abs_diff_i64 at (br_t req) \<le> CONSENT_WINDOW_OSC (en_ext E)"
  shows "\<exists>build p. bind_edit E key req c = Inr (Some build) \<and> build at = Some (c @ [p]) \<and>
    fleet_fold (en_ext E) (c @ [p]) = Inr (w_members w @ [br_device req]) \<and>
    declared_bundle (en_ext E) (c @ [p]) (br_device req) = Some joined"
proof -
  let ?W = "en_ext E"
  have v: "bundle_ed25519 ?W joined = br_device req"
    "verify_eggs ?W (br_device_sig req) joined (bindreq_signing_bytes_plated (chain_handle_proof c) (br_device req) (br_t req)
       (br_plate req) (br_plate_kind req)) (bundle_mask joined)"
    using assms(2) by (simp_all add: bind_request_verify_def Let_def assms(5))
  have b: "\<forall>x. br_bundle req = Some x \<longrightarrow> bundle_ed25519 ?W x = br_device req" using v(1) assms(5) by auto
  obtain p where p: "build_add_with ?W c key (br_device req) at (br_t req) (br_device_sig req) (br_bundle req) (br_plate req)
      (br_plate_kind req) = c @ [p]"
    "fold_inner ?W (c @ [p]) = Inr (ratchet ?W p ((note_plate p w)\<lparr>w_members := w_members w @ [br_device req],
      w_bundles := w_bundles w @ [(br_device req, joined)]\<rparr>))"
    using add_step_consent [OF assms(1,3) b assms(5) v(2) assms(6,8,7,9)] by blast
  have "fleet_fold ?W c = Inr (w_members w)" "sg_public key \<in> set (w_members w)"
    using assms(1) by (simp_all add: may_sign_def fleet_fold_def)
  then have "bind_edit E key req c = Inr (Some (\<lambda>at. Some (build_add_with ?W c key (br_device req) at (br_t req)
      (br_device_sig req) (br_bundle req) (br_plate req) (br_plate_kind req))))"
    using assms(3) by (simp add: bind_edit_def stored_fold_def)
  then show ?thesis using p assms(4)
    by (simp add: fleet_fold_def declared_bundle_def map_add_def)
qed

text \<open>The requests the client lets thru are the ones the fold accepts: binding a verified request of a
  device that is not and never was in the chain, with a bundle that covers the floor and a stamp within
  the consent window, gives a chain that folds, with the device as its last member and its bundle on
  file.\<close>

theorem bound_request_folds:
  assumes "may_sign (en_ext E) c w key" and "bind_request_verify (en_ext E) req (chain_handle_proof c) ipk"
    and "br_device req \<notin> set (w_members w)" and "map_of (w_bundles w) (br_device req) = None"
    and "joined = (case br_bundle req of Some b \<Rightarrow> b | None \<Rightarrow> ed25519_only (en_ext E) (br_device req))"
    and "covers (bundle_mask joined) (w_floor w)" and "plate_known (br_plate_kind req)"
    and "time_ok at" and "abs_diff_i64 at (br_t req) \<le> CONSENT_WINDOW_OSC (en_ext E)"
  shows "\<exists>build ops. bind_edit E key req c = Inr (Some build) \<and> build at = Some ops \<and>
    fleet_fold (en_ext E) ops = Inr (w_members w @ [br_device req]) \<and>
    declared_bundle (en_ext E) ops (br_device req) = Some joined"
  using bound_request_step [OF assms] by blast

section \<open>Recovering\<close>

lemma open_checked_Some:
  assumes "open_checked E f hp dev seed = Inr (Some k)"
  shows "fanout_open (en_ext E) (en_fan E) hp (fan_kfp f) (fan_wraps f) dev seed = Some k \<and>
    signing_public (en_ext E) (epoch_bundle (en_ext E) k) = Inr (fan_epoch_pub f)"
  using assms by (auto simp: open_checked_def try_elims epoch_public_def split: option.splits if_splits)

lemma fanout_open_first:
  "fanout_open W F hp kfp ws sk seed = Some k \<Longrightarrow>
     \<exists>pre w post. ws = pre @ w # post \<and> open_wrap W F hp kfp sk seed w = Some k \<and>
       (\<forall>x \<in> set pre. open_wrap W F hp kfp sk seed x = None)"
proof (induction ws)
  case (Cons w ws)
  show ?case
  proof (cases "open_wrap W F hp kfp sk seed w")
    case None
    with Cons obtain pre x post where "ws = pre @ x # post" "open_wrap W F hp kfp sk seed x = Some k"
      "\<forall>x \<in> set pre. open_wrap W F hp kfp sk seed x = None" by auto
    with None show ?thesis by (intro exI [of _ "w # pre"] exI [of _ x] exI [of _ post]) simp
  next
    case (Some k')
    with Cons.prems show ?thesis by (intro exI [of _ "[]"] exI [of _ w] exI [of _ ws]) simp
  qed
qed simp

lemma open_wrap_opens:
  assumes "open_wrap W F hp kfp sk seed w = Some k"
  shows "\<exists>ak. length k = 32 \<and> fleet_key_fingerprint W k = kfp \<and> contributory F (x_dh F (ed_scalar F sk) (fw_epk w)) \<and>
    fanout_keys F hp kfp (ed_public W sk) (x_dh F (ed_scalar F sk) (fw_epk w)) (fw_epk w) (montgomery F (ed_public W sk)) seed
      = (ak, fw_commit w) \<and> aead_open F ak (fw_ct w) = Some k"
  using assms by (auto simp: open_wrap_def Let_def split: if_splits prod.splits option.splits)

text \<open>C22: a recovered key is never one a relay made up: it is 32 bytes, it has the fingerprint the fan-out
  read in this call names, the epoch keys of the header are the ones it derives, and it is what the AEAD
  opens from a wrap of that fan-out: the wrap's ciphertext under the key the wrap's ephemeral, this device,
  this fleet and that fingerprint derive, and that wrap commits to this derivation; the wraps before it
  gave nothing.\<close>

theorem recovered_key_is_named:
  assumes "recover_fleet_key_with_epoch E hp dev seed s = (Inr (Some (rv, k)), t)"
  shows "\<exists>f pre w post ak. fetch_fanout_full E hp s = (Inr (Some f), t) \<and> rv = fan_revision f \<and> length k = 32 \<and>
    fleet_key_fingerprint (en_ext E) k = fan_kfp f \<and>
    signing_public (en_ext E) (epoch_bundle (en_ext E) k) = Inr (fan_epoch_pub f) \<and>
    fan_wraps f = pre @ w # post \<and>
    contributory (en_fan E) (x_dh (en_fan E) (ed_scalar (en_fan E) dev) (fw_epk w)) \<and>
    fanout_keys (en_fan E) hp (fan_kfp f) (ed_public (en_ext E) dev)
      (x_dh (en_fan E) (ed_scalar (en_fan E) dev) (fw_epk w)) (fw_epk w) (montgomery (en_fan E) (ed_public (en_ext E) dev)) seed
      = (ak, fw_commit w) \<and>
    aead_open (en_fan E) ak (fw_ct w) = Some k \<and>
    (\<forall>x \<in> set pre. open_wrap (en_ext E) (en_fan E) hp (fan_kfp f) dev seed x = None)"
proof -
  obtain r where r: "fetch_fanout_full E hp s = (r, t)" and
    q: "(case r of Inr (Some f) \<Rightarrow> try_r (open_checked E f hp dev seed) (\<lambda>k. Inr (map_option (Pair (fan_revision f)) k))
      | Inr None \<Rightarrow> Inr None | Inl e \<Rightarrow> if starts_with e ''fanout:'' then Inr None else Inl e) = Inr (Some (rv, k))"
    using assms by (auto simp: recover_fleet_key_with_epoch_def recover_with_def try_elims)
  obtain f where f: "r = Inr (Some f)" "open_checked E f hp dev seed = Inr (Some k)" "rv = fan_revision f"
  proof (cases r)
    case (Inr x)
    then show ?thesis using q that by (cases x) (auto simp: try_elims)
  qed (use q in \<open>simp split: if_splits\<close>)
  from fanout_open_first [OF open_checked_Some [OF f(2), THEN conjunct1]] obtain pre w post
    where w: "fan_wraps f = pre @ w # post" "open_wrap (en_ext E) (en_fan E) hp (fan_kfp f) dev seed w = Some k"
      "\<forall>x \<in> set pre. open_wrap (en_ext E) (en_fan E) hp (fan_kfp f) dev seed x = None" by blast
  show ?thesis using r f w(1,3) open_checked_Some [OF f(2)] open_wrap_opens [OF w(2)] by blast
qed

lemma sealed_recovers:
  assumes "ext_ok (en_ext E)" and "fan_ok (en_ext E) (en_fan E)" and "length key = 32"
    and "fanout_seal (en_ext E) (en_fan E) rnd hp key members seed u = (Inr ws, v)" and "length members \<le> 1024"
    and "ed_public (en_ext E) dev \<in> set members"
    and "epoch_public (en_ext E) key = Inr eb" and "length (bundle_to_bytes eb) < 65536" and "length rot = 32"
    and "get_slot E ''fanout_get'' hp s = (Inr (Some doc), t)"
    and "fanout_blob_of E doc = Inr (Some (fanout_to_bytes rv (fleet_key_fingerprint (en_ext E) key) rot eb ws))"
    and "\<forall>k. length k = 32 \<and> fleet_key_fingerprint (en_ext E) k = fleet_key_fingerprint (en_ext E) key \<longrightarrow> k = key"
  shows "recover_fleet_key_with_epoch E hp dev seed s = (Inr (Some (rv, key)), t)
    \<and> recover_fleet_key E hp dev seed s = (Inr (Some key), t)"
proof -
  let ?W = "en_ext E"
  let ?f = "\<lparr>fan_revision = rv, fan_kfp = fleet_key_fingerprint ?W key, fan_rotator_ed = rot, fan_epoch_pub = eb, fan_wraps = ws\<rparr>"
  have len: "length ws = length members" and opens: "\<exists>k. fanout_open ?W (en_fan E) hp (fleet_key_fingerprint ?W key) ws dev seed = Some k \<and> length k = 32 \<and>
      fleet_key_fingerprint ?W k = fleet_key_fingerprint ?W key"
  proof -
    obtain esk w where w: "w \<in> set ws" "seal_one ?W (en_fan E) hp key seed (ed_public ?W dev) (montgomery (en_fan E) (ed_public ?W dev)) esk = Inr w"
      using fanout_seal_Inr [OF assms(4)] assms(6) by blast
    then show "\<exists>k. fanout_open ?W (en_fan E) hp (fleet_key_fingerprint ?W key) ws dev seed = Some k \<and> length k = 32 \<and>
      fleet_key_fingerprint ?W k = fleet_key_fingerprint ?W key"
      by (rule member_opens [OF assms(2,3)])
  qed (use fanout_seal_Inr [OF assms(4)] in simp)
  then have o: "fanout_open ?W (en_fan E) hp (fleet_key_fingerprint ?W key) ws dev seed = Some key" using assms(12) by blast
  have "wf_bundle ?W eb" using assms(7) by (auto simp: epoch_public_def signing_public_def dest: bundle_new_wf)
  then have "fanout_ok ?W ?f" using assms(1,5,8,9) len fanout_seal_wraps_ok [OF assms(2,3,4)]
    by (simp add: fanout_ok_def fleet_key_fingerprint_def ext_ok_def)
  from fanout_parse [OF assms(1) this, of "[]"]
  have "fanout_from_bytes_full ?W (fanout_to_bytes rv (fleet_key_fingerprint ?W key) rot eb ws) = Inr ?f"
    using len assms(5) by simp
  then have ff: "fetch_fanout_full E hp s = (Inr (Some ?f), t)"
    using assms(10,11) by (simp add: fetch_fanout_full_def fetch_fanout_doc_def try_s_def)
  have "open_checked E ?f hp dev seed = Inr (Some key)" using o assms(7) by (simp add: open_checked_def)
  then show ?thesis using ff
    by (simp add: recover_fleet_key_with_epoch_def recover_fleet_key_def recover_with_def bind_s_def)
qed

text \<open>C23: end to end: when sealing for at most 1024 members succeeded and the slot serves the blob that
  \<open>post_fanout\<close> writes, every member, with its own secret and the identity seed alone, recovers the key
  that was sealed and its revision (the fingerprint being collision-free at that key).\<close>

theorem minted_key_reaches_members:
  assumes "ext_ok (en_ext E)" and "fan_ok (en_ext E) (en_fan E)" and "length key = 32"
    and "fanout_seal (en_ext E) (en_fan E) rnd hp key members seed u = (Inr ws, v)" and "length members \<le> 1024"
    and "ed_public (en_ext E) dev \<in> set members"
    and "epoch_public (en_ext E) key = Inr eb" and "length (bundle_to_bytes eb) < 65536" and "length rot = 32"
    and "get_slot E ''fanout_get'' hp s = (Inr (Some doc), t)"
    and "fanout_blob_of E doc = Inr (Some (fanout_to_bytes rv (fleet_key_fingerprint (en_ext E) key) rot eb ws))"
    and "\<forall>k. length k = 32 \<and> fleet_key_fingerprint (en_ext E) k = fleet_key_fingerprint (en_ext E) key \<longrightarrow> k = key"
  shows "recover_fleet_key_with_epoch E hp dev seed s = (Inr (Some (rv, key)), t)
    \<and> recover_fleet_key E hp dev seed s = (Inr (Some key), t)"
  by (rule sealed_recovers [OF assms])

section \<open>Writing\<close>

text \<open>Growing never changes the key: \<open>grow_fleet_wraps\<close> answers with a revision only when the stored fan-out
  names the held key, the revision is the stored one plus one, and what it posted is a fresh set of wraps
  of the held key, one per member, under the same fingerprint.\<close>

theorem grow_keeps_key:
  assumes "grow_fleet_wraps E hp key held members seed s = (Inr r, t)"
  shows "\<exists>f u ws v. fetch_fanout_full E hp s = (Inr (Some f), u) \<and>
    fleet_key_fingerprint (en_ext E) held = fan_kfp f \<and> r = fan_revision f + 1 \<and> length ws = length members \<and>
    fanout_seal (en_ext E) (en_fan E) (en_rand E) hp held members seed u = (Inr ws, v) \<and>
    post_fanout E hp key r held ws v = (Inr (), t)"
  using assms fanout_seal_Inr
  by (fastforce simp: grow_fleet_wraps_def fetch_fanout_def try_elims split: if_splits)

text \<open>The establish path does not look at why the fan-out could not be read: on any error, a failed
  transport included, it mints, with a fresh key, although the same read makes \<open>recover_fleet_key\<close> report
  the failure unless it is the blob's own.\<close>

theorem establish_over_any_error:
  assumes "fetch_fanout_full E hp s = (Inl e, t)" and "current_members E hp t = (Inr ms, u)" and "ms \<noteq> []"
    and "mint_fleet_key E hp (keypair_signer (en_ext E) dev) ms seed u = (Inr (r, k), v)"
  shows "recover_or_establish_fleet_key E hp dev seed s = (Inr (Some k), v) \<and> (\<exists>x y. en_rand E x = (k, y)) \<and>
    recover_fleet_key E hp dev seed s = (if starts_with e ''fanout:'' then Inr None else Inl e, t)"
proof -
  have "\<exists>x y. en_rand E x = (k, y)"
    using assms(4) by (auto simp: mint_fleet_key_def try_elims Let_def)
  then show ?thesis using assms
    by (simp add: recover_or_establish_fleet_key_def establish_fleet_key_def recover_fleet_key_def recover_with_def
        bind_s_def try_s_def)
qed

end
