(* ===== verification/Demo_Client.thy ===== *)
theory Demo_Client
  imports Client_Key_Props Demo_Wire
begin

text \<open>
  Concrete surroundings for the client: \<open>serving\<close> answers every request with one section, \<open>flaky\<close> does
  the same but fails the first request. They are the inputs at which the client's properties are
  applied.
\<close>

section \<open>Documents\<close>

text \<open>A section as a container with narrow integers gives it back.\<close>

definition narrowed :: "vsection \<Rightarrow> vsection" where
  "narrowed s = \<lparr>vs_name = vs_name s, vs_fields = map (\<lambda>f. (fst f, map narrow_value (snd f))) (vs_fields s)\<rparr>"

lemma same_section_narrowed [simp]: "same_section s (narrowed s)"
  by (simp add: same_section_def narrowed_def list_all2_map2 list.rel_refl)

definition demo_successor_record :: successor where
  "demo_successor_record = \<lparr>sr_handle_proof = demo_hp, sr_new_genesis = zero32, sr_predecessor = demo_g,
     sr_eggs = [\<lparr>ce_device = demo_seed 1, ce_scheme = 0, ce_sig = [1]\<rparr>]\<rparr>"

definition two_docs :: vsf_doc where
  "two_docs = \<lparr>vd_build = (\<lambda>t s. Inr (if vs_name s = ''fleet'' then [1] else [2])),
     vd_build_signed = (\<lambda>t k e s. Inr []), vd_sign_with = (\<lambda>d f. Inr d), vd_read_verified = (\<lambda>d. Inr ()),
     vd_primary = (\<lambda>d. Inr (narrowed (if d = [1] then chain_section demo_ext demo_g else successor_section demo_ext demo_successor_record))),
     vd_header_eggs = (\<lambda>d. Inl []), vd_file_signature = (\<lambda>d. Inr True), vd_header_signer = (\<lambda>d. Inr None)\<rparr>"

lemma demo_g_typed: "\<forall>p \<in> set demo_g. wf_op demo_ext p \<and> v1_consent_typed demo_ext p"
  using demo_g_wf demo_g_v1 by blast

theorem chain_documents_roundtrip_witness:
  "chain_from_vsf demo_ext demo_conv two_docs [] [1] = Inr demo_g
   \<and> successor_from_vsf demo_ext demo_conv two_docs [] [2] = Inr demo_successor_record"
proof -
  obtain w where w: "fold_inner demo_ext (sr_predecessor demo_successor_record) = Inr w"
    using demo_g_fold by (auto simp: demo_successor_record_def)
  have keeps: "doc_keeps two_docs 0 (chain_section demo_ext (sr_predecessor demo_successor_record))"
    "doc_keeps two_docs 0 (successor_section demo_ext demo_successor_record)"
    by (simp_all add: doc_keeps_def two_docs_def chain_section_def successor_section_def demo_successor_record_def)
  have build: "chain_to_vsf demo_ext two_docs 0 (sr_predecessor demo_successor_record) = Inr [1]"
    "successor_to_vsf demo_ext two_docs 0 demo_successor_record = Inr [2]"
    by (simp_all add: chain_to_vsf_def successor_to_vsf_def two_docs_def chain_section_def successor_section_def)
  show ?thesis
    using chain_documents_roundtrip [OF demo_ext_ok demo_conv_ok w _ _ _ _ build keeps] demo_g_typed
    by (simp add: demo_successor_record_def)
qed

section \<open>Surroundings\<close>

definition serving :: "ext \<Rightarrow> vsection \<Rightarrow> nat client_env" where
  "serving W sec = \<lparr>en_ext = W, en_fan = demo_fan, en_conv = demo_conv,
     en_doc = two_docs\<lparr>vd_build := (\<lambda>t s. Inr []), vd_primary := (\<lambda>d. Inr sec)\<rparr>,
     en_eggs_err = [], en_show_fold = (\<lambda>e. []),
     en_post = (\<lambda>b s. (Inr \<lparr>rs_status = 200, rs_body = []\<rparr>, Suc s)), en_now = (\<lambda>s. (7, s)),
     en_rand = (\<lambda>s. (demo_seed 7, s))\<rparr>"

lemma serving_sel [simp]:
  "en_ext (serving W sec) = W" "en_fan (serving W sec) = demo_fan" "en_conv (serving W sec) = demo_conv"
  "en_now (serving W sec) s = (7, s)" "en_rand (serving W sec) = (\<lambda>s. (demo_seed 7, s))"
  "en_post (serving W sec) b s = (Inr \<lparr>rs_status = 200, rs_body = []\<rparr>, Suc s)"
  "vd_build (en_doc (serving W sec)) t s' = Inr []" "vd_primary (en_doc (serving W sec)) d = Inr sec"
  "vd_read_verified (en_doc (serving W sec)) d = Inr ()" "vd_build_signed (en_doc (serving W sec)) t k e s' = Inr []"
  "vd_sign_with (en_doc (serving W sec)) d f = Inr d"
  by (simp_all add: serving_def two_docs_def)

lemma serving_reply [simp]: "parse_reply (serving W sec) b = Inr (vs_name sec, sec)"
  by (simp add: parse_reply_def)

lemma serving_frames [simp]:
  "vs_name sec \<noteq> ''error'' \<Longrightarrow> error_frame (serving W sec) b = None"
  by (simp add: error_frame_def)

lemma serving_ok [simp]:
  "vs_name sec \<noteq> ''error'' \<Longrightarrow> reply_ok (serving W sec) what \<lparr>rs_status = 200, rs_body = b\<rparr> = Inr ()"
  "vs_name sec \<noteq> ''error'' \<Longrightarrow> \<not> is_error (serving W sec) b r"
  by (simp_all add: reply_ok_def is_error_def)

lemma serving_slot [simp]:
  "vs_name sec \<noteq> ''error'' \<Longrightarrow> get_slot (serving W sec) name hp s = (Inr (Some []), Suc s)"
  by (simp add: get_slot_def unsigned_req_def try_s_def bind_s_def)

lemma serving_signed [simp]:
  "vs_name sec \<noteq> ''error'' \<Longrightarrow> signed_put (serving W sec) key sec' what s = (Inr (), Suc s)"
  by (simp add: signed_put_def signed_req_def sign_envelope_def try_s_def bind_s_def)

lemma serving_chain:
  "fetch (serving demo_ext (chain_section demo_ext demo_g)) hp s = (Inr (Some demo_g), Suc s)"
proof -
  obtain w where "fold_inner demo_ext demo_g = Inr w" using demo_g_fold by blast
  from parse_ops_values [OF demo_ext_ok demo_conv_ok accepted_wire_ok [OF this demo_g_typed]]
  have ops: "parse_ops demo_ext demo_conv e (map (op_field_values demo_ext) demo_g) = Inr demo_g" for e .
  have "vs_name (chain_section demo_ext demo_g) \<noteq> ''error''" by (simp add: chain_section_def)
  then show ?thesis
    by (simp add: fetch_def try_s_def chain_from_vsf_def ops)
qed

abbreviation demo_client :: "nat client_env" where
  "demo_client \<equiv> serving demo_ext (chain_section demo_ext demo_g)"

lemma demo_g_members: "fleet_fold demo_ext demo_g = Inr [demo_seed 1]"
  using demo_g_fold by (auto simp: fleet_fold_def)

lemma demo_g_slot: "genesis_handle_proof demo_g = Some demo_hp" "demo_g \<noteq> []"
  by (simp_all add: demo_g_def build_genesis_v2_plated_def genesis_handle_proof_def)

section \<open>The chain\<close>

theorem adopting_never_rolls_back_witness:
  "\<exists>r. current_fleet_adopting demo_client demo_hp (Some demo_g) 0 = (Inr (Some r), 1) \<and> fr_members r = [demo_seed 1]
     \<and> lands (fr_verdict r)"
proof -
  obtain r where r: "current_fleet_adopting demo_client demo_hp (Some demo_g) 0 = (Inr (Some r), 1)" "fr_chain r = demo_g"
    using demo_g_members demo_g_slot
    by (simp add: current_fleet_adopting_def try_s_def serving_chain stored_fold_ts_def fold_with_ts_def)
  from adopting_never_rolls_back [OF r(1)] r demo_g_members demo_g_slot(2) show ?thesis by simp
qed

theorem checkpoint_out_of_step_witness:
  "push_checkpoint demo_client demo_hp (demo_device 1) 2 zero32 1 0 = (Inr None, 1)"
proof -
  have l: "latest_checkpoint demo_g = None"
    by (simp add: demo_g_def build_genesis_v2_plated_def latest_checkpoint_def)
  have "is_member (en_ext demo_client) demo_g (sg_public (demo_device 1))"
    using demo_g_members by (simp add: is_member_def)
  from checkpoint_out_of_step [OF serving_chain this, where k = 2 and s = 0] l show ?thesis by simp
qed

section \<open>Binding\<close>

definition demo_request :: bind_request where
  "demo_request = \<lparr>br_device = demo_seed 2, br_t = 6, br_device_sig = demo_consent 6, br_bundle = None,
     br_identity_sig = demo_sig (demo_seed 8) (bindreq_signing_bytes_plated demo_hp (demo_seed 2) 6 None UNSTATED),
     br_plate = None, br_plate_kind = UNSTATED, br_nfc_hash = zero32\<rparr>"

lemma demo_request_ok: "bind_request_verify demo_ext demo_request demo_hp (demo_seed 8)"
  using demo_base_verifies [of 2] demo_ext_ok
  by (simp add: bind_request_verify_def demo_request_def demo_consent_def verify_ed25519_def Let_def)
     (simp add: demo_ext_def)

definition demo_rows :: vsection where
  "demo_rows = \<lparr>vs_name = ''bindreqs'', vs_fields = [(''req'',
     [V_ke (demo_seed 2), V_e (E6 6), V_ge (eggs_to_bytes demo_ext (demo_consent 6)), V_ge (br_identity_sig demo_request)]),
     (''req'', [V_ke [1]])]\<rparr>"

lemma demo_consent_eggs: "eggs_from_bytes demo_ext (eggs_to_bytes demo_ext (demo_consent ct)) = Some (demo_consent ct)"
proof -
  have "wf_eggs (demo_consent ct)"
    by (simp add: wf_eggs_def demo_consent_def demo_device_def keypair_signer_def) (simp add: demo_ext_def)
  then show ?thesis using demo_ext_ok by (simp add: ext_ok_def)
qed

lemma demo_list: "bindreq_list (serving demo_ext demo_rows) (demo_device 1) demo_hp (demo_seed 8) 0 = (Inr [demo_request], 1)"
proof -
  have row: "bindreq_row demo_ext [V_ke (demo_seed 2), V_e (E6 6), V_ge (eggs_to_bytes demo_ext (demo_consent 6)),
      V_ge (br_identity_sig demo_request)] = Some demo_request"
    by (simp add: bindreq_row_def demo_consent_eggs) (simp add: demo_request_def)
  have bad: "bindreq_row demo_ext [V_ke [1]] = None" by (simp add: bindreq_row_def)
  have "abs_diff_i64 7 (br_t demo_request) \<le> BINDREQ_FRESH_OSC demo_ext"
    by (simp add: demo_request_def BINDREQ_FRESH_OSC_def demo_ext_def abs_diff_i64_def)
  moreover have "ed_public demo_ext (demo_seed 8) = demo_seed 8" by (simp add: demo_ext_def pad32_id)
  ultimately show ?thesis using row bad demo_request_ok
    by (simp add: bindreq_list_def signed_req_def sign_envelope_def try_s_def bind_s_def get_fields_def demo_rows_def
        List.map_filter_simps bindreq_listed_def)
qed

theorem bindreq_list_sound_witness:
  "\<exists>reqs. bindreq_list (serving demo_ext demo_rows) (demo_device 1) demo_hp (demo_seed 8) 0 = (Inr reqs, 1) \<and>
     reqs \<noteq> [] \<and> (\<forall>r \<in> set reqs. bind_request_verify demo_ext r demo_hp (ed_public demo_ext (demo_seed 8)))"
  using bindreq_list_sound [OF demo_list] demo_list by auto

theorem bound_request_folds_witness:
  "\<exists>build ops. bind_edit demo_client (demo_device 1) demo_request demo_g = Inr (Some build) \<and> build 7 = Some ops \<and>
     fleet_fold demo_ext ops = Inr [demo_seed 1, demo_seed 2]"
proof -
  obtain w where w: "fold_inner demo_ext demo_g = Inr w" "w_members w = [demo_seed 1]" "w_locked w = []"
    "w_bundles w = []" "base_walk w" using demo_g_fold by blast
  have ms: "may_sign (en_ext demo_client) demo_g w (demo_device 1)" using demo_may_sign [OF w(1,5)] w by simp
  have v: "bind_request_verify (en_ext demo_client) demo_request (chain_handle_proof demo_g) (demo_seed 8)"
    using demo_request_ok demo_chain_hp [of "[]"] by simp
  have r: "br_device demo_request = demo_seed 2" "br_bundle demo_request = None" "br_t demo_request = 6"
    "br_plate_kind demo_request = UNSTATED" by (simp_all add: demo_request_def)
  have "covers (bundle_mask (ed25519_only demo_ext (demo_seed 2))) (w_floor w)" using w(5) by (simp add: base_walk_def)
  then have "\<exists>build ops. bind_edit demo_client (demo_device 1) demo_request demo_g = Inr (Some build) \<and> build 7 = Some ops \<and>
     fleet_fold demo_ext ops = Inr [demo_seed 1, demo_seed 2] \<and>
     declared_bundle demo_ext ops (demo_seed 2) = Some (ed25519_only demo_ext (demo_seed 2))"
    using bound_request_folds [OF ms v, where at = 7] w r demo_window by simp
  then show ?thesis by blast
qed

end
