(* ===== verification/Demo_Key.thy ===== *)
theory Demo_Key
  imports Demo_Client
begin

text \<open>
  The fleet key's concrete inputs: a world without fingerprint collisions, a slot that serves a real
  fan-out, and a transport that fails once.
\<close>

lemma demo_seed_len: "length (demo_seed n) = 32"
  by simp

section \<open>Sealing\<close>

text \<open>The sealing of the demo curve never fails, so its loop is a \<open>map\<close>.\<close>

definition demo_wrap :: "ext \<Rightarrow> bytes \<Rightarrow> bytes \<Rightarrow> bytes \<Rightarrow> bytes \<Rightarrow> bytes \<Rightarrow> fanout_wrap" where
  "demo_wrap W hp key seed r m = projr (seal_one W demo_fan hp key seed m m r)"

lemma demo_seal_one: "seal_one W demo_fan hp key seed m m r = Inr (demo_wrap W hp key seed r m)"
  by (simp add: demo_wrap_def seal_one_def Let_def demo_fan_def case_prod_beta)

lemma demo_seal_all:
  "fanout_seal W demo_fan (\<lambda>s. (r, s)) hp key ms seed s = (Inr (map (demo_wrap W hp key seed r) ms), s)"
proof (induction ms)
  case (Cons m ms)
  have "ed_to_x25519_public demo_fan m = Some m" by (simp add: ed_to_x25519_public_def demo_fan_def)
  then show ?case using Cons by (simp add: demo_seal_one try_s_def bind_s_def)
qed simp

section \<open>A world without collisions\<close>

definition pad_ext :: ext where
  "pad_ext = demo_ext\<lparr>blake3_derive := (\<lambda>d. pad32)\<rparr>"

lemma pad_ext_ok: "ext_ok pad_ext"
  using demo_ext_ok by (simp add: ext_ok_def pad_ext_def pubkey_len_def)

lemma pad_sign_ok: "ext_sign_ok pad_ext"
  using demo_ext_sign_ok by (simp add: ext_sign_ok_def pad_ext_def)

lemma pad_fan_ok: "fan_ok pad_ext demo_fan"
  using demo_fan_ok by (simp add: fan_ok_def pad_ext_def)

lemma pad_fingerprint: "length k = 32 \<Longrightarrow> fleet_key_fingerprint pad_ext k = k"
  by (simp add: fleet_key_fingerprint_def pad_ext_def pad32_id)

lemma pad_public: "ed_public pad_ext (demo_seed n) = demo_seed n"
  by (simp add: pad_ext_def demo_ext_def pad32_id)

definition pad_epoch :: key_bundle where
  "pad_epoch = projr (epoch_public pad_ext (demo_seed 7))"

lemma keys_length:
  "\<forall>(s, k) \<in> set ks. length k = 32 \<Longrightarrow> length (concat (map key_to_bytes ks)) = 35 * length ks"
  by (induction ks) (auto simp: key_to_bytes_def)

lemma pad_epoch_key: "epoch_public pad_ext (demo_seed 7) = Inr pad_epoch"
proof -
  obtain b where "signing_public pad_ext (epoch_bundle pad_ext (demo_seed 7)) = Inr b"
    using signing_public_ok [OF pad_ext_ok pad_sign_ok] unfolding epoch_bundle_def by blast
  then show ?thesis by (simp add: pad_epoch_def epoch_public_def)
qed

lemma pad_epoch_wf: "wf_bundle pad_ext pad_epoch"
  using pad_epoch_key by (auto simp: epoch_public_def signing_public_def dest: bundle_new_wf)

lemma pad_pubkey_len: "pubkey_len pad_ext s = Some n \<Longrightarrow> n = 32"
  by (simp add: pubkey_len_def pad_ext_def demo_ext_def split: if_splits)

lemma pad_epoch_small: "length (bundle_to_bytes pad_epoch) < 65536"
proof -
  have "\<forall>(s, k) \<in> set (bundle_keys pad_epoch). length k = 32"
    using pad_epoch_wf by (auto simp: wf_bundle_def dest: pad_pubkey_len)
  then have "length (concat (map key_to_bytes (bundle_keys pad_epoch))) = 35 * length (bundle_keys pad_epoch)"
    by (rule keys_length)
  then show ?thesis using wf_bundle_length [OF pad_epoch_wf] by (simp add: bundle_to_bytes_def)
qed

section \<open>A served fan-out\<close>

abbreviation pad_wraps :: "fanout_wrap list" where
  "pad_wraps \<equiv> map (demo_wrap pad_ext demo_hp (demo_seed 7) (demo_seed 8) (demo_seed 7)) [demo_seed 1, demo_seed 2]"

definition key_blob :: bytes where
  "key_blob = fanout_to_bytes 4 (demo_seed 7) (demo_seed 1) pad_epoch pad_wraps"

definition key_section :: vsection where
  "key_section = \<lparr>vs_name = ''fanout_put'', vs_fields = [(''bl'', [V_ge key_blob])]\<rparr>"

abbreviation key_client :: "nat client_env" where
  "key_client \<equiv> serving pad_ext key_section"

lemma key_name: "vs_name key_section \<noteq> ''error''" by (simp add: key_section_def)

lemma key_bl: "first_value key_section ''bl'' = Some (V_ge key_blob)"
  by (simp add: key_section_def first_value_def get_field_def)

lemma key_blob_of: "fanout_blob_of key_client b = Inr (Some key_blob)"
  by (simp add: fanout_blob_of_def key_bl)

lemma key_unique:
  "\<forall>k. length k = 32 \<and> fleet_key_fingerprint (en_ext key_client) k = fleet_key_fingerprint (en_ext key_client) (demo_seed 7)
     \<longrightarrow> k = demo_seed 7"
  by (auto simp: pad_fingerprint)

lemma key_inputs:
  "ext_ok (en_ext key_client)" "fan_ok (en_ext key_client) (en_fan key_client)"
  "fanout_seal (en_ext key_client) (en_fan key_client) (\<lambda>s. (demo_seed 7, s)) demo_hp (demo_seed 7)
     [demo_seed 1, demo_seed 2] (demo_seed 8) (0 :: nat) = (Inr pad_wraps, 0)"
  "ed_public (en_ext key_client) (demo_seed 2) \<in> set [demo_seed 1, demo_seed 2]"
  "epoch_public (en_ext key_client) (demo_seed 7) = Inr pad_epoch"
  "get_slot key_client ''fanout_get'' demo_hp 0 = (Inr (Some []), Suc 0)"
  "fanout_blob_of key_client [] = Inr (Some (fanout_to_bytes 4 (fleet_key_fingerprint (en_ext key_client) (demo_seed 7))
     (demo_seed 1) pad_epoch pad_wraps))"
  using pad_ext_ok pad_fan_ok demo_seal_all pad_public pad_epoch_key serving_slot [OF key_name] key_blob_of
  by (simp_all add: key_blob_def pad_fingerprint del: list.map fanout_seal.simps)

theorem minted_key_reaches_members_witness:
  "recover_fleet_key key_client demo_hp (demo_seed 2) (demo_seed 8) 0 = (Inr (Some (demo_seed 7)), Suc 0)"
  using minted_key_reaches_members [OF key_inputs(1,2) demo_seed_len key_inputs(3) _ key_inputs(4,5) pad_epoch_small
      demo_seed_len key_inputs(6,7) key_unique] by simp

lemma pad_recovers:
  "recover_fleet_key_with_epoch key_client demo_hp (demo_seed 2) (demo_seed 8) 0 = (Inr (Some (4, demo_seed 7)), Suc 0)"
  using sealed_recovers [OF key_inputs(1,2) demo_seed_len key_inputs(3) _ key_inputs(4,5) pad_epoch_small
      demo_seed_len key_inputs(6,7) key_unique] by simp

theorem recovered_key_is_named_witness:
  "\<exists>f. fetch_fanout_full key_client demo_hp 0 = (Inr (Some f), Suc 0) \<and> fan_kfp f = demo_seed 7"
  using recovered_key_is_named [OF pad_recovers] by (auto simp: pad_fingerprint)

section \<open>Growing\<close>

definition key_fanout :: fanout where
  "key_fanout = \<lparr>fan_revision = 4, fan_kfp = demo_seed 7, fan_rotator_ed = demo_seed 1, fan_epoch_pub = pad_epoch, fan_wraps = pad_wraps\<rparr>"

lemma key_fanout_reads: "fanout_from_bytes_full pad_ext key_blob = Inr key_fanout"
proof -
  have "list_all wrap_ok pad_wraps"
    by (rule fanout_seal_wraps_ok [OF pad_fan_ok demo_seed_len demo_seal_all])
  then have "fanout_ok pad_ext key_fanout"
    using pad_epoch_wf pad_epoch_small by (simp add: fanout_ok_def key_fanout_def)
  from fanout_parse [OF pad_ext_ok this, of "[]"] show ?thesis by (simp add: key_fanout_def key_blob_def)
qed

lemma key_stored: "fetch_fanout_full key_client demo_hp s = (Inr (Some key_fanout), Suc s)"
  using key_name by (simp add: fetch_fanout_full_def fetch_fanout_doc_def try_s_def key_blob_of key_fanout_reads)

lemma key_grows:
  "grow_fleet_wraps key_client demo_hp (demo_device 1) (demo_seed 7) [demo_seed 1, demo_seed 2] (demo_seed 8) 0 = (Inr 5, 2)"
proof -
  have f: "fetch_fanout key_client demo_hp 0 = (Inr (Some (4, demo_seed 7, demo_seed 1, pad_wraps)), Suc 0)"
    by (simp add: fetch_fanout_def key_stored try_s_def) (simp add: key_fanout_def)
  have p: "post_fanout key_client demo_hp (demo_device 1) rv (demo_seed 7) ws s = (Inr (), Suc s)" for rv ws s
    using key_name by (simp add: post_fanout_def pad_epoch_key try_s_def)
  show ?thesis by (simp add: grow_fleet_wraps_def f p try_s_def pad_fingerprint demo_seal_all del: list.map fanout_seal.simps)
qed

theorem grow_keeps_key_witness:
  "\<exists>f u. fetch_fanout_full key_client demo_hp 0 = (Inr (Some f), u) \<and> fan_kfp f = demo_seed 7 \<and> fan_revision f + 1 = 5"
  using grow_keeps_key [OF key_grows] by (auto simp: pad_fingerprint)

section \<open>A transport that fails once\<close>

definition flaky :: "nat client_env" where
  "flaky = (serving demo_ext (chain_section demo_ext demo_g))\<lparr>en_post :=
     (\<lambda>b s. (if s = 0 then Inl ''down'' else Inr \<lparr>rs_status = 200, rs_body = []\<rparr>, Suc s))\<rparr>"

lemma flaky_sel [simp]:
  "en_ext flaky = demo_ext" "en_fan flaky = demo_fan" "en_conv flaky = demo_conv" "en_now flaky s = (7, s)"
  "en_rand flaky = (\<lambda>s. (demo_seed 7, s))" "en_doc flaky = en_doc demo_client" "en_eggs_err flaky = en_eggs_err demo_client"
  "en_show_fold flaky = en_show_fold demo_client"
  "en_post flaky b s = (if s = 0 then Inl ''down'' else Inr \<lparr>rs_status = 200, rs_body = []\<rparr>, Suc s)"
  by (simp_all add: flaky_def)

lemma chain_name: "vs_name (chain_section W c) \<noteq> ''error''" by (simp add: chain_section_def)

lemma flaky_reply: "parse_reply flaky b = Inr (''fleet'', chain_section demo_ext demo_g)"
  by (simp add: parse_reply_def) (simp add: chain_section_def)

lemma flaky_frames: "error_frame flaky b = None" "\<not> is_error flaky b r"
  "reply_ok flaky what \<lparr>rs_status = 200, rs_body = b\<rparr> = Inr ()"
  by (simp_all add: is_error_def reply_ok_def error_frame_def flaky_reply)

lemma flaky_slot: "get_slot flaky name hp s = (if s = 0 then Inl ''down'' else Inr (Some []), Suc s)"
  by (simp add: get_slot_def unsigned_req_def try_s_def bind_s_def flaky_frames)

lemma flaky_put: "signed_put flaky key sec what (Suc s) = (Inr (), Suc (Suc s))"
  by (simp add: signed_put_def signed_req_def sign_envelope_def try_s_def bind_s_def flaky_frames)

lemma flaky_members: "current_members flaky demo_hp 1 = (Inr [demo_seed 1], 2)"
proof -
  have "chain_from_vsf demo_ext demo_conv (en_doc demo_client) e [] = Inr demo_g" for e
  proof -
    obtain w where "fold_inner demo_ext demo_g = Inr w" using demo_g_fold by blast
    from parse_ops_values [OF demo_ext_ok demo_conv_ok accepted_wire_ok [OF this demo_g_typed]]
    show ?thesis by (simp add: chain_from_vsf_def)
  qed
  then have "fetch flaky demo_hp 1 = (Inr (Some demo_g), 2)" by (simp add: fetch_def try_s_def flaky_slot)
  then show ?thesis using demo_g_members by (simp add: current_members_def try_s_def stored_fold_def)
qed

lemma flaky_mint:
  "mint_fleet_key flaky demo_hp (demo_device 1) [demo_seed 1] (demo_seed 8) 2 = (Inr (1, demo_seed 7), 4)"
proof -
  have bl: "first_value (chain_section demo_ext demo_g) ''bl'' = None"
  proof -
    have "map_of (map (\<lambda>p. (''op'', op_field_values demo_ext p)) c) ''bl'' = None" for c
      by (induction c) simp_all
    then show ?thesis by (simp add: chain_section_def first_value_def get_field_def)
  qed
  have b: "fetch_fanout_blob flaky demo_hp 2 = (Inr None, 3)"
    by (simp add: fetch_fanout_blob_def try_s_def flaky_slot fanout_blob_of_def flaky_reply bl)
  obtain x where "epoch_public demo_ext (demo_seed 7) = Inr x"
    using signing_public_ok [OF demo_ext_ok demo_ext_sign_ok] unfolding epoch_bundle_def epoch_public_def by fastforce
  then have p: "post_fanout flaky demo_hp key rv (demo_seed 7) ws 3 = (Inr (), 4)" for key rv ws
    using flaky_put [of _ _ _ 2] by (simp add: post_fanout_def try_s_def numeral_eq_Suc)
  show ?thesis by (simp add: mint_fleet_key_def bind_s_def b p try_s_def demo_seal_all del: list.map fanout_seal.simps)
qed

theorem establish_over_any_error_witness:
  "recover_or_establish_fleet_key flaky demo_hp (demo_seed 1) (demo_seed 8) 0 = (Inr (Some (demo_seed 7)), 4)
     \<and> recover_fleet_key flaky demo_hp (demo_seed 1) (demo_seed 8) 0 = (Inl ''down'', 1)"
proof -
  have f: "fetch_fanout_full flaky demo_hp 0 = (Inl ''down'', 1)"
    by (simp add: fetch_fanout_full_def fetch_fanout_doc_def try_s_def flaky_slot)
  from flaky_mint have m: "mint_fleet_key flaky demo_hp (keypair_signer (en_ext flaky) (demo_seed 1)) [demo_seed 1] (demo_seed 8) 2
      = (Inr (1, demo_seed 7), 4)" by (simp add: demo_device_def)
  from establish_over_any_error [OF f flaky_members _ m] show ?thesis by (simp add: starts_with_def)
qed

end
