(* ===== verification/Scoped.thy ===== *)
theory Scoped
  imports Chain_Doc
begin

text \<open>
  src/src/scoped_blob.rs: one ciphertext, many keyholders. The signed envelope around every stored object, the
  derivation of a reader's slot address and key, sealing and opening of slots, values and contents, and the
  slot writes of a publisher. The AEADs are those of the chacha20poly1305 crate (record \<open>aead\<close>: key, nonce,
  associated data, text), the container that of \<open>vsf\<close> (record \<open>scoped_doc\<close>).
\<close>

record aead =
  xc_seal :: "bytes \<Rightarrow> bytes \<Rightarrow> bytes \<Rightarrow> bytes \<Rightarrow> bytes option"
  xc_open :: "bytes \<Rightarrow> bytes \<Rightarrow> bytes \<Rightarrow> bytes \<Rightarrow> bytes option"
  cc_open :: "bytes \<Rightarrow> bytes \<Rightarrow> bytes \<Rightarrow> bytes \<Rightarrow> bytes option"

text \<open>A verified header: whether it is signed, its time, and the parse of a named section.\<close>

record scoped_header =
  sh_signed :: bool
  sh_time :: "vsf option"
  sh_section :: "string \<Rightarrow> (string + vsection) option"

record scoped_doc =
  sd_build :: "i64 \<Rightarrow> bytes \<Rightarrow> vsection \<Rightarrow> string + bytes"
  sd_sign :: "bytes \<Rightarrow> bytes \<Rightarrow> string + bytes"
  sd_read_verified :: "bytes \<Rightarrow> string + scoped_header"
  sd_signer :: "bytes \<Rightarrow> string + bytes"
  sd_uint :: "vsection \<Rightarrow> string \<Rightarrow> u64 option"

record slot_contents =
  sc_blob_id :: bytes
  sc_dek :: bytes

definition ENVELOPE_VERSION :: u64 where "ENVELOPE_VERSION = 1"
definition SCOPED_VERSION :: byte where "SCOPED_VERSION = 0"
definition SLOT_DOMAIN :: bytes where "SLOT_DOMAIN = ascii ''PHOTON_SCOPED_SLOT_v''"
definition WRAP_DOMAIN :: bytes where "WRAP_DOMAIN = ascii ''PHOTON_SCOPED_WRAP_v''"

text \<open>The first bytes of a VSF document: R, A with ring in UTF-8, a less-than sign.\<close>

definition is_vsf :: "bytes \<Rightarrow> bool" where
  "is_vsf bs \<longleftrightarrow> take 4 bs = [0x52, 0xC3, 0x85, 0x3C]"

record signed =
  sg_by :: bytes
  sg_stamp :: i64

section \<open>Envelopes\<close>

text \<open>\<open>VsfType::v(b'e', ..)\<close>.\<close>

abbreviation v_e :: "bytes \<Rightarrow> vsf" where "v_e b \<equiv> V_v 0x65 b"

definition envelope_section :: "string \<Rightarrow> string \<Rightarrow> bytes \<Rightarrow> vsection" where
  "envelope_section section_name field sealed =
     \<lparr>vs_name = section_name, vs_fields = [(''version'', [V_u ENVELOPE_VERSION False]), (field, [v_e sealed])]\<rparr>"

definition envelope ::
  "ext \<Rightarrow> scoped_doc \<Rightarrow> string \<Rightarrow> string \<Rightarrow> bytes \<Rightarrow> bytes \<Rightarrow> i64 \<Rightarrow> string + bytes" where
  "envelope W D section_name field sealed device stamp =
     try_r (map_err (\<lambda>e. ''scoped: envelope build: '' @ e)
       (sd_build D stamp (ed_public W device) (envelope_section section_name field sealed))) (\<lambda>unsigned_doc.
     map_err (\<lambda>e. ''scoped: envelope sign: '' @ e) (sd_sign D unsigned_doc device))"

definition envelope_stamp :: "vsf option \<Rightarrow> string + i64" where
  "envelope_stamp tm =
     (case tm of
        Some (V_e (E6 t)) \<Rightarrow> Inr t
      | Some (V_e (E5 t)) \<Rightarrow> Inr (word_of_int t)
      | Some (V_e (E7 t)) \<Rightarrow> if - (2 ^ 63) \<le> t \<and> t < 2 ^ 63 then Inr (word_of_int t) else Inl ''scoped: envelope time out of range''
      | _ \<Rightarrow> Inl ''scoped: envelope is undated'')"

definition quoted :: "string \<Rightarrow> string" where
  "quoted s = [CHR 0x27] @ s @ [CHR 0x27]"

definition show_version :: "u64 option \<Rightarrow> string" where
  "show_version v = (case v of None \<Rightarrow> ''None'' | Some n \<Rightarrow> ''Some('' @ decimal (unat n) @ '')'')"

definition open_envelope :: "scoped_doc \<Rightarrow> string \<Rightarrow> string \<Rightarrow> bytes \<Rightarrow> string + bytes \<times> signed" where
  "open_envelope D section_name field doc =
     try_r (sd_read_verified D doc) (\<lambda>header.
     if \<not> sh_signed header then Inl ''scoped: envelope is unsigned'' else
     try_r (sd_signer D doc) (\<lambda>signer.
     try_r (envelope_stamp (sh_time header)) (\<lambda>stamp.
     try_r (ok_or (''scoped: no '' @ quoted section_name @ '' section'') (sh_section header section_name)) (\<lambda>parsed.
     try_r parsed (\<lambda>sec.
     let version = sd_uint D sec ''version'' in
     if version \<noteq> Some ENVELOPE_VERSION
     then Inl (''scoped: '' @ quoted section_name @ '' version '' @ show_version version @ '' unknown'')
     else case first_value sec field of
       Some (V_v k sealed) \<Rightarrow>
         if k = 0x65 then Inr (sealed, \<lparr>sg_by = signer, sg_stamp = stamp\<rparr>)
         else Inl (''scoped: '' @ quoted section_name @ '' has no v'' @ quoted ''e'' @ '' '' @ quoted field)
     | _ \<Rightarrow> Inl (''scoped: '' @ quoted section_name @ '' has no v'' @ quoted ''e'' @ '' '' @ quoted field))))))"

section \<open>Slots\<close>

definition slot_preimage :: "bytes \<Rightarrow> bytes \<Rightarrow> bytes" where
  "slot_preimage kek purpose = SLOT_DOMAIN @ [SCOPED_VERSION] @ kek @ u32_le (of_nat (length purpose)) @ purpose"

definition slot_address :: "ext \<Rightarrow> bytes \<Rightarrow> bytes \<Rightarrow> bytes" where
  "slot_address W kek purpose = blake3 W (slot_preimage kek purpose)"

definition slot_key :: "ext \<Rightarrow> bytes \<Rightarrow> bytes \<Rightarrow> bytes" where
  "slot_key W kek purpose = blake3 W (WRAP_DOMAIN @ [SCOPED_VERSION] @ kek @ slot_address W kek purpose)"

text \<open>A fresh nonce prefixed to what it sealed; \<open>rnd\<close> draws the 24 bytes.\<close>

definition seal_prefixed ::
  "aead \<Rightarrow> ('s \<Rightarrow> bytes \<times> 's) \<Rightarrow> string \<Rightarrow> bytes \<Rightarrow> bytes \<Rightarrow> bytes \<Rightarrow> 's \<Rightarrow> (string + bytes) \<times> 's" where
  "seal_prefixed A rnd what key aad msg =
     bind_s rnd (\<lambda>nonce.
     lift_s (try_r (ok_or what (xc_seal A key nonce aad msg)) (\<lambda>ct. Inr (nonce @ ct))))"

definition open_prefixed :: "aead \<Rightarrow> bytes \<Rightarrow> bytes \<Rightarrow> bytes \<Rightarrow> bytes option" where
  "open_prefixed A key aad sealed =
     (if 24 + 16 \<le> length sealed then xc_open A key (take 24 sealed) aad (drop 24 sealed) else None)"

definition seal_slot ::
  "ext \<Rightarrow> aead \<Rightarrow> ('s \<Rightarrow> bytes \<times> 's) \<Rightarrow> bytes \<Rightarrow> bytes \<Rightarrow> slot_contents \<Rightarrow> 's \<Rightarrow> (string + bytes) \<times> 's" where
  "seal_slot W A rnd kek purpose contents =
     seal_prefixed A rnd ''scoped: slot seal failed'' (slot_key W kek purpose) [] (sc_blob_id contents @ sc_dek contents)"

definition or_else :: "'a option \<Rightarrow> 'a option \<Rightarrow> 'a option" where
  "or_else x y = (case x of Some v \<Rightarrow> Some v | None \<Rightarrow> y)"

definition slot_plain :: "aead \<Rightarrow> bytes \<Rightarrow> bytes \<Rightarrow> bytes option" where
  "slot_plain A key sealed =
     or_else (or_else (open_prefixed A key [] sealed) (xc_open A key (replicate 24 0) [] sealed))
       (cc_open A key (replicate 12 0) [] sealed)"

definition open_slot_signed :: "ext \<Rightarrow> aead \<Rightarrow> scoped_doc \<Rightarrow> bytes \<Rightarrow> bytes \<Rightarrow> bytes \<Rightarrow> (slot_contents \<times> signed) option" where
  "open_slot_signed W A D kek purpose stored =
     (case open_envelope D ''slot'' ''wrap'' stored of Inl _ \<Rightarrow> None
      | Inr (sealed, sg) \<Rightarrow>
          (case slot_plain A (slot_key W kek purpose) sealed of None \<Rightarrow> None
           | Some plain \<Rightarrow>
               if length plain \<noteq> 64 then None
               else Some (\<lparr>sc_blob_id = take 32 plain, sc_dek = drop 32 plain\<rparr>, sg)))"

definition open_slot :: "ext \<Rightarrow> aead \<Rightarrow> scoped_doc \<Rightarrow> bytes \<Rightarrow> bytes \<Rightarrow> bytes \<Rightarrow> slot_contents option" where
  "open_slot W A D kek purpose stored = map_option fst (open_slot_signed W A D kek purpose stored)"

section \<open>Values and contents\<close>

definition seal_value ::
  "ext \<Rightarrow> aead \<Rightarrow> ('s \<Rightarrow> bytes \<times> 's) \<Rightarrow> bytes \<Rightarrow> bytes \<Rightarrow> bytes \<Rightarrow> 's \<Rightarrow> (string + bytes) \<times> 's" where
  "seal_value W A rnd kek purpose v = seal_prefixed A rnd ''scoped: value seal failed'' (slot_key W kek purpose) [] v"

text \<open>The legacy layout, a 12-byte nonce before the text: a value has no associated data, a content has its
  blob id.\<close>

definition open_legacy :: "aead \<Rightarrow> bytes \<Rightarrow> bytes \<Rightarrow> bytes \<Rightarrow> bytes option" where
  "open_legacy A key aad sealed =
     (if length sealed < 12 + 16 then None else cc_open A key (take 12 sealed) aad (drop 12 sealed))"

definition open_value :: "ext \<Rightarrow> aead \<Rightarrow> bytes \<Rightarrow> bytes \<Rightarrow> bytes \<Rightarrow> bytes option" where
  "open_value W A kek purpose sealed =
     (let key = slot_key W kek purpose in
      case or_else (open_prefixed A key [] sealed) (open_legacy A key [] sealed) of None \<Rightarrow> None
      | Some plain \<Rightarrow> if length plain = 32 then Some plain else None)"

definition seal_content :: "aead \<Rightarrow> ('s \<Rightarrow> bytes \<times> 's) \<Rightarrow> bytes \<Rightarrow> bytes \<Rightarrow> bytes \<Rightarrow> 's \<Rightarrow> (string + bytes) \<times> 's" where
  "seal_content A rnd dek blob_id plaintext =
     seal_prefixed A rnd ''scoped: content seal failed'' dek blob_id plaintext"

definition seal_content_doc ::
  "ext \<Rightarrow> aead \<Rightarrow> scoped_doc \<Rightarrow> ('s \<Rightarrow> bytes \<times> 's) \<Rightarrow> bytes \<Rightarrow> bytes \<Rightarrow> bytes \<Rightarrow> bytes \<Rightarrow> i64 \<Rightarrow> 's \<Rightarrow> (string + bytes) \<times> 's" where
  "seal_content_doc W A D rnd dek blob_id plaintext device stamp =
     try_s (seal_content A rnd dek blob_id plaintext) (\<lambda>sealed.
     lift_s (envelope W D ''blob'' ''content'' sealed device stamp))"

definition open_bare_content :: "aead \<Rightarrow> bytes \<Rightarrow> bytes \<Rightarrow> bytes \<Rightarrow> bytes option" where
  "open_bare_content A dek blob_id sealed =
     or_else (open_prefixed A dek blob_id sealed) (open_legacy A dek blob_id sealed)"

definition open_content_signed :: "aead \<Rightarrow> scoped_doc \<Rightarrow> bytes \<Rightarrow> bytes \<Rightarrow> bytes \<Rightarrow> (bytes \<times> signed) option" where
  "open_content_signed A D dek blob_id stored =
     (case open_envelope D ''blob'' ''content'' stored of Inl _ \<Rightarrow> None
      | Inr (sealed, sg) \<Rightarrow> map_option (\<lambda>c. (c, sg)) (open_bare_content A dek blob_id sealed))"

definition open_content :: "aead \<Rightarrow> scoped_doc \<Rightarrow> bytes \<Rightarrow> bytes \<Rightarrow> bytes \<Rightarrow> bytes option" where
  "open_content A D dek blob_id stored = map_option fst (open_content_signed A D dek blob_id stored)"

section \<open>Publishing\<close>

record slot_write =
  sw_address :: bytes
  sw_sealed :: bytes

definition one_slot_write ::
  "ext \<Rightarrow> aead \<Rightarrow> scoped_doc \<Rightarrow> ('s \<Rightarrow> bytes \<times> 's) \<Rightarrow> bytes \<Rightarrow> slot_contents \<Rightarrow> bytes \<Rightarrow> i64 \<Rightarrow> bytes
    \<Rightarrow> 's \<Rightarrow> (string + slot_write) \<times> 's" where
  "one_slot_write W A D rnd purpose contents device stamp kek =
     try_s (seal_slot W A rnd kek purpose contents) (\<lambda>sealed.
     lift_s (try_r (envelope W D ''slot'' ''wrap'' sealed device stamp) (\<lambda>doc.
       Inr \<lparr>sw_address = slot_address W kek purpose, sw_sealed = doc\<rparr>)))"

fun slot_writes ::
  "ext \<Rightarrow> aead \<Rightarrow> scoped_doc \<Rightarrow> ('s \<Rightarrow> bytes \<times> 's) \<Rightarrow> bytes list \<Rightarrow> bytes \<Rightarrow> slot_contents \<Rightarrow> bytes \<Rightarrow> i64
    \<Rightarrow> 's \<Rightarrow> (string + slot_write list) \<times> 's" where
  "slot_writes W A D rnd [] purpose contents device stamp = lift_s (Inr [])"
| "slot_writes W A D rnd (kek # readers) purpose contents device stamp =
     try_s (one_slot_write W A D rnd purpose contents device stamp kek) (\<lambda>w.
     try_s (slot_writes W A D rnd readers purpose contents device stamp) (\<lambda>ws. lift_s (Inr (w # ws))))"

definition self_kek :: "ext \<Rightarrow> bytes \<Rightarrow> bytes" where
  "self_kek W device = blake3 W (ascii ''PHOTON_SCOPED_SELF_v'' @ [SCOPED_VERSION] @ device)"

section \<open>What the code relies on\<close>

text \<open>What an AEAD sealed opens under the same key, nonce and data, and is 16 bytes longer.\<close>

definition aead_ok :: "aead \<Rightarrow> bool" where
  "aead_ok A \<longleftrightarrow> (\<forall>k n d m c. xc_seal A k n d m = Some c \<longrightarrow> xc_open A k n d c = Some m \<and> length c = length m + 16)"

text \<open>The container: a built and signed envelope verifies and gives back its signer, its time and a section
  with the sealed bytes in their field and a version number that reads as the one written, at whatever width
  it was stored.\<close>

definition scoped_doc_ok :: "ext \<Rightarrow> scoped_doc \<Rightarrow> bool" where
  "scoped_doc_ok W D \<longleftrightarrow>
     (\<forall>t dev n f b u d. sd_build D t (ed_public W dev) (envelope_section n f b) = Inr u \<and> sd_sign D u dev = Inr d \<longrightarrow>
        sd_signer D d = Inr (ed_public W dev) \<and>
        (\<exists>h sec. sd_read_verified D d = Inr h \<and> sh_signed h \<and> sh_time h = Some (V_e (E6 t)) \<and>
             sh_section h n = Some (Inr sec) \<and> first_value sec f = Some (v_e b) \<and>
             sd_uint D sec ''version'' = Some ENVELOPE_VERSION))"

text \<open>The draw of a nonce.\<close>

definition nonce_ok :: "('s \<Rightarrow> bytes \<times> 's) \<Rightarrow> bool" where
  "nonce_ok rnd \<longleftrightarrow> (\<forall>s. length (fst (rnd s)) = 24)"

end
