(* ===== verification/Scoped_Props.thy ===== *)
theory Scoped_Props
  imports Scoped Demo_Fleet
begin

text \<open>
  What a publisher's readers get: every reader opens its own slot and the content behind it, a slot that opens
  is the one that was sealed, and two readers share an address only by a collision of the hash.
\<close>

section \<open>Envelopes\<close>

lemma open_envelope_of:
  assumes "scoped_doc_ok W D" and "envelope W D sec_name field sealed device stamp = Inr doc"
  shows "open_envelope D sec_name field doc = Inr (sealed, \<lparr>sg_by = ed_public W device, sg_stamp = stamp\<rparr>)"
proof -
  obtain u where u: "sd_build D stamp (ed_public W device) (envelope_section sec_name field sealed) = Inr u" "sd_sign D u device = Inr doc"
    using assms(2) by (auto simp: envelope_def try_elims)
  then obtain h sec where h: "sd_read_verified D doc = Inr h" "sh_signed h" "sh_time h = Some (V_e (E6 stamp))"
    "sh_section h sec_name = Some (Inr sec)" "first_value sec field = Some (v_e sealed)"
    "sd_uint D sec ''version'' = Some ENVELOPE_VERSION" "sd_signer D doc = Inr (ed_public W device)"
    using assms(1) unfolding scoped_doc_ok_def by metis
  then show ?thesis by (simp add: open_envelope_def envelope_stamp_def Let_def)
qed

section \<open>Seals\<close>

lemma open_prefixed_of:
  assumes "aead_ok A" and "nonce_ok rnd" and "seal_prefixed A rnd what key aad msg s = (Inr sealed, t)"
  shows "open_prefixed A key aad sealed = Some msg"
proof -
  obtain ct where ct: "xc_seal A key (fst (rnd s)) aad msg = Some ct" "sealed = fst (rnd s) @ ct"
    using assms(3) by (auto simp: seal_prefixed_def try_elims)
  moreover have "length (fst (rnd s)) = 24" using assms(2) by (simp add: nonce_ok_def)
  ultimately show ?thesis using assms(1) by (auto simp: open_prefixed_def aead_ok_def)
qed

lemma one_slot_opens:
  assumes "aead_ok A" and "scoped_doc_ok W D" and "nonce_ok rnd"
    and "length (sc_blob_id contents) = 32" and "length (sc_dek contents) = 32"
    and "one_slot_write W A D rnd purpose contents device stamp kek s = (Inr w, t)"
  shows "sw_address w = slot_address W kek purpose \<and>
    open_slot_signed W A D kek purpose (sw_sealed w) = Some (contents, \<lparr>sg_by = ed_public W device, sg_stamp = stamp\<rparr>)"
proof -
  obtain sealed doc where sd: "seal_slot W A rnd kek purpose contents s = (Inr sealed, t)"
    "envelope W D ''slot'' ''wrap'' sealed device stamp = Inr doc" "w = \<lparr>sw_address = slot_address W kek purpose, sw_sealed = doc\<rparr>"
    using assms(6) by (auto simp: one_slot_write_def try_elims)
  have "open_envelope D ''slot'' ''wrap'' doc = Inr (sealed, \<lparr>sg_by = ed_public W device, sg_stamp = stamp\<rparr>)"
    by (rule open_envelope_of [OF assms(2) sd(2)])
  moreover have "slot_plain A (slot_key W kek purpose) sealed = Some (sc_blob_id contents @ sc_dek contents)"
    using open_prefixed_of [OF assms(1,3)] sd(1) by (simp add: slot_plain_def or_else_def seal_slot_def)
  ultimately show ?thesis using assms(4,5) sd(3) by (simp add: open_slot_signed_def)
qed

text \<open>C24: publishing is readable: the slot writes of a reader set are one per reader, at that reader's address, and
  with its own secret each reader opens its slot to the blob id and the data key, which open the content
  published under them; both objects name the publishing device and its stamp.\<close>

theorem scoped_publish_readable:
  assumes "aead_ok A" and "scoped_doc_ok W D" and "nonce_ok rnd"
    and "length (sc_blob_id contents) = 32" and "length (sc_dek contents) = 32"
    and "seal_content_doc W A D rnd (sc_dek contents) (sc_blob_id contents) plaintext device stamp s = (Inr stored, t)"
    and "slot_writes W A D rnd readers purpose contents device stamp t = (Inr ws, u)"
  shows "map sw_address ws = map (\<lambda>kek. slot_address W kek purpose) readers \<and>
    list_all2 (\<lambda>kek w. \<exists>c. open_slot_signed W A D kek purpose (sw_sealed w) = Some (c, \<lparr>sg_by = ed_public W device, sg_stamp = stamp\<rparr>) \<and>
      open_content_signed A D (sc_dek c) (sc_blob_id c) stored = Some (plaintext, \<lparr>sg_by = ed_public W device, sg_stamp = stamp\<rparr>)) readers ws"
proof -
  have c: "open_content_signed A D (sc_dek contents) (sc_blob_id contents) stored = Some (plaintext, \<lparr>sg_by = ed_public W device, sg_stamp = stamp\<rparr>)"
  proof -
    obtain sealed where sd: "seal_content A rnd (sc_dek contents) (sc_blob_id contents) plaintext s = (Inr sealed, t)"
      "envelope W D ''blob'' ''content'' sealed device stamp = Inr stored"
      using assms(6) by (auto simp: seal_content_doc_def try_elims)
    have "open_envelope D ''blob'' ''content'' stored = Inr (sealed, \<lparr>sg_by = ed_public W device, sg_stamp = stamp\<rparr>)"
      by (rule open_envelope_of [OF assms(2) sd(2)])
    then show ?thesis using open_prefixed_of [OF assms(1,3)] sd(1)
      by (simp add: open_content_signed_def open_bare_content_def or_else_def seal_content_def)
  qed
  show ?thesis
    using assms(7)
  proof (induction readers arbitrary: ws t)
    case (Cons kek readers)
    obtain w ws' m where w: "one_slot_write W A D rnd purpose contents device stamp kek t = (Inr w, m)"
      "slot_writes W A D rnd readers purpose contents device stamp m = (Inr ws', u)" "ws = w # ws'"
      using Cons.prems by (auto simp: try_elims)
    from one_slot_opens [OF assms(1-5) w(1)] Cons.IH [OF w(2)] c w(3) show ?case by auto
  qed simp
qed

section \<open>Addresses\<close>

lemma slot_preimage_inj:
  assumes "length k = 32" and "length k' = 32" and "length p < 2 ^ 32" and "length p' < 2 ^ 32"
    and "slot_preimage k p = slot_preimage k' p'"
  shows "k = k' \<and> p = p'"
  using assms by (simp add: slot_preimage_def)

text \<open>Slots do not meet: two readers, or two purposes of one reader, share an address only through a collision
  of the hash.\<close>

theorem slot_addresses_apart:
  assumes "length k = 32" and "length k' = 32" and "length p < 2 ^ 32" and "length p' < 2 ^ 32"
    and "slot_address W k p = slot_address W k' p'"
  shows "(k = k' \<and> p = p') \<or> (\<exists>x y. x \<noteq> y \<and> blake3 W x = blake3 W y)"
  using slot_preimage_inj [OF assms(1-4)] assms(5) unfolding slot_address_def by blast

section \<open>Concrete inputs\<close>

definition demo_aead :: aead where
  "demo_aead = \<lparr>xc_seal = (\<lambda>k n d m. Some (m @ take 16 (pad32 (k @ d)))),
     xc_open = (\<lambda>k n d c. if 16 \<le> length c \<and> drop (length c - 16) c = take 16 (pad32 (k @ d)) then Some (take (length c - 16) c) else None),
     cc_open = (\<lambda>k n d c. None)\<rparr>"

lemma demo_aead_ok: "aead_ok demo_aead"
  by (simp add: aead_ok_def demo_aead_def)

text \<open>A container for the two envelopes: time, signer, a byte that tells the section, the sealed bytes. It gives
  the version back one byte wide.\<close>

definition narrow_section :: "string \<Rightarrow> string \<Rightarrow> bytes \<Rightarrow> vsection" where
  "narrow_section n f b = \<lparr>vs_name = n, vs_fields = [(''version'', [V_u3 1]), (f, [v_e b])]\<rparr>"

definition demo_scoped :: scoped_doc where
  "demo_scoped = \<lparr>
     sd_build = (\<lambda>t pk sec. case vs_fields sec of
         [_, (_, [V_v _ b])] \<Rightarrow>
           if length pk = 32 \<and> sec = envelope_section ''slot'' ''wrap'' b then Inr (u64_be t @ pk @ [0] @ b)
           else if length pk = 32 \<and> sec = envelope_section ''blob'' ''content'' b then Inr (u64_be t @ pk @ [1] @ b)
           else Inl ''section''
       | _ \<Rightarrow> Inl ''section''),
     sd_sign = (\<lambda>d sk. Inr d),
     sd_read_verified = (\<lambda>d. Inr \<lparr>sh_signed = True, sh_time = Some (V_e (E6 (u64_of_be (take 8 d)))),
       sh_section = (\<lambda>n. let sec = (if d ! 40 = 0 then narrow_section ''slot'' ''wrap'' (drop 41 d)
           else narrow_section ''blob'' ''content'' (drop 41 d)) in if n = vs_name sec then Some (Inr sec) else None)\<rparr>),
     sd_signer = (\<lambda>d. Inr (take 32 (drop 8 d))),
     sd_uint = (\<lambda>s n. case first_value s n of Some (V_u3 x) \<Rightarrow> Some (ucast x) | _ \<Rightarrow> None)\<rparr>"

lemma demo_scoped_build:
  assumes "sd_build demo_scoped t pk sec = Inr u"
  shows "\<exists>b. length pk = 32 \<and> (sec = envelope_section ''slot'' ''wrap'' b \<and> u = u64_be t @ pk @ [0] @ b
    \<or> sec = envelope_section ''blob'' ''content'' b \<and> u = u64_be t @ pk @ [1] @ b)"
  using assms by (auto simp: demo_scoped_def split: list.splits prod.splits vsf.splits if_splits)

lemma demo_scoped_read:
  assumes "length pk = 32" and "u = u64_be t @ pk @ [k] @ b"
  shows "sd_signer demo_scoped u = Inr pk" "take 8 u = u64_be t" "u ! 40 = k" "drop 41 u = b"
  using assms by (simp_all add: demo_scoped_def nth_append)

lemma envelope_section_inj:
  "envelope_section n f b = envelope_section n' f' b' \<longleftrightarrow> n = n' \<and> f = f' \<and> b = b'"
  by (simp add: envelope_section_def)

lemma narrow_reads:
  "f \<noteq> ''version'' \<Longrightarrow> first_value (narrow_section n f b) f = Some (v_e b)" "vs_name (narrow_section n f b) = n"
  "sd_uint demo_scoped (narrow_section n f b) ''version'' = Some ENVELOPE_VERSION"
  by (simp_all add: narrow_section_def first_value_def get_field_def demo_scoped_def ENVELOPE_VERSION_def)

lemma demo_scoped_ok: "scoped_doc_ok demo_ext demo_scoped"
proof -
  have "sd_signer demo_scoped u = Inr pk \<and> (\<exists>h sec. sd_read_verified demo_scoped u = Inr h \<and> sh_signed h \<and>
      sh_time h = Some (V_e (E6 t)) \<and> sh_section h n = Some (Inr sec) \<and> first_value sec f = Some (v_e b) \<and>
      sd_uint demo_scoped sec ''version'' = Some ENVELOPE_VERSION)"
    if b: "sd_build demo_scoped t pk (envelope_section n f b) = Inr u" for t pk n f b u
  proof -
    from demo_scoped_build [OF b] have l: "length pk = 32"
      and c: "n = ''slot'' \<and> f = ''wrap'' \<and> u = u64_be t @ pk @ [0] @ b \<or> n = ''blob'' \<and> f = ''content'' \<and> u = u64_be t @ pk @ [1] @ b"
      by (auto simp: envelope_section_inj)
    obtain k where k: "u = u64_be t @ pk @ [k] @ b" using c by blast
    let ?sec = "narrow_section n f b"
    have ne: "f \<noteq> ''version''" using c by auto
    obtain h where h: "sd_read_verified demo_scoped u = Inr h" by (simp add: demo_scoped_def)
    have "sh_signed h" "sh_time h = Some (V_e (E6 t))" "sh_section h n = Some (Inr ?sec)"
      using h c demo_scoped_read(2,3,4) [OF l k] narrow_reads(2) k by (auto simp: demo_scoped_def Let_def)
    then show ?thesis using h demo_scoped_read(1) [OF l k] narrow_reads(1) [OF ne] narrow_reads(3) by blast
  qed
  moreover have "sd_sign demo_scoped u d = Inr u" for u d by (simp add: demo_scoped_def)
  ultimately show ?thesis by (auto simp: scoped_doc_ok_def)
qed

abbreviation demo_nonce :: "nat \<Rightarrow> bytes \<times> nat" where
  "demo_nonce \<equiv> (\<lambda>s. (replicate 24 7, Suc s))"

lemma demo_nonce_ok: "nonce_ok demo_nonce"
  by (simp add: nonce_ok_def)

definition demo_contents :: slot_contents where
  "demo_contents = \<lparr>sc_blob_id = demo_seed 3, sc_dek = demo_seed 4\<rparr>"

lemma demo_envelopes:
  "\<exists>d. envelope demo_ext demo_scoped ''slot'' ''wrap'' b (demo_seed 1) 5 = Inr d"
  "\<exists>d. envelope demo_ext demo_scoped ''blob'' ''content'' b (demo_seed 1) 5 = Inr d"
proof -
  have "length (ed_public demo_ext (demo_seed 1)) = 32" by (simp add: demo_ext_def)
  then show "\<exists>d. envelope demo_ext demo_scoped ''slot'' ''wrap'' b (demo_seed 1) 5 = Inr d"
    "\<exists>d. envelope demo_ext demo_scoped ''blob'' ''content'' b (demo_seed 1) 5 = Inr d"
    by (simp_all add: envelope_def demo_scoped_def envelope_section_def)
qed

lemma demo_publish:
  "\<exists>stored. seal_content_doc demo_ext demo_aead demo_scoped demo_nonce (sc_dek demo_contents) (sc_blob_id demo_contents) [1, 2] (demo_seed 1) 5 0
     = (Inr stored, 1)"
  "\<exists>w. one_slot_write demo_ext demo_aead demo_scoped demo_nonce [9] demo_contents (demo_seed 1) 5 kek s = (Inr w, Suc s)"
proof -
  show "\<exists>stored. seal_content_doc demo_ext demo_aead demo_scoped demo_nonce (sc_dek demo_contents) (sc_blob_id demo_contents) [1, 2] (demo_seed 1) 5 0
     = (Inr stored, 1)"
    using demo_envelopes(2) by (simp add: seal_content_doc_def seal_content_def seal_prefixed_def demo_aead_def try_s_def bind_s_def)
  obtain b where b: "seal_slot demo_ext demo_aead demo_nonce kek [9] demo_contents s = (Inr b, Suc s)"
    by (simp add: seal_slot_def seal_prefixed_def demo_aead_def bind_s_def)
  obtain d where "envelope demo_ext demo_scoped ''slot'' ''wrap'' b (demo_seed 1) 5 = Inr d" using demo_envelopes(1) by blast
  with b show "\<exists>w. one_slot_write demo_ext demo_aead demo_scoped demo_nonce [9] demo_contents (demo_seed 1) 5 kek s = (Inr w, Suc s)"
    by (simp add: one_slot_write_def try_s_def)
qed

theorem scoped_publish_readable_witness:
  "\<exists>ws u. slot_writes demo_ext demo_aead demo_scoped demo_nonce [demo_seed 5] [9] demo_contents (demo_seed 1) 5 1 = (Inr ws, u) \<and>
     list_all2 (\<lambda>kek w. open_slot demo_ext demo_aead demo_scoped kek [9] (sw_sealed w) \<noteq> None) [demo_seed 5] ws"
proof -
  obtain stored where c: "seal_content_doc demo_ext demo_aead demo_scoped demo_nonce (sc_dek demo_contents) (sc_blob_id demo_contents) [1, 2] (demo_seed 1) 5 0
     = (Inr stored, 1)" using demo_publish(1) by blast
  obtain w where w: "one_slot_write demo_ext demo_aead demo_scoped demo_nonce [9] demo_contents (demo_seed 1) 5 (demo_seed 5) 1 = (Inr w, 2)"
    using demo_publish(2) [of "demo_seed 5" 1] by (auto simp: numeral_2_eq_2)
  have ws: "slot_writes demo_ext demo_aead demo_scoped demo_nonce [demo_seed 5] [9] demo_contents (demo_seed 1) 5 1 = (Inr [w], 2)"
    using w by (simp add: try_s_def)
  have "length (sc_blob_id demo_contents) = 32" "length (sc_dek demo_contents) = 32" by (simp_all add: demo_contents_def)
  from scoped_publish_readable [OF demo_aead_ok demo_scoped_ok demo_nonce_ok this c ws] ws show ?thesis
    by (auto simp: open_slot_def)
qed

theorem slot_addresses_apart_witness:
  "slot_address demo_ext (demo_seed 5) [9] \<noteq> slot_address demo_ext (demo_seed 5) [8] \<or> (\<exists>x y. x \<noteq> y \<and> blake3 demo_ext x = blake3 demo_ext y)"
  using slot_addresses_apart [of "demo_seed 5" "demo_seed 5" "[9]" "[8]" demo_ext] by auto

end
