(* ===== verification/Traverse.thy ===== *)
theory Traverse
  imports Fgtw_Prelude
begin

text \<open>
  src/src/traverse: candidates and their order (candidate.rs), gathering (gather.rs), the reflexive address
  with its quorum (reflexive.rs), path freshness (session.rs) and the address bytes of the punch messages
  (wire.rs). Addresses are those of \<open>core::net\<close>: octets of the right number, a port, and for IPv6 the
  flow and scope that \<open>SocketAddr\<close> compares and \<open>SocketAddr::new\<close> leaves zero. Instants are nanoseconds.
\<close>

section \<open>Addresses (core::net)\<close>

datatype ip_addr = V4 bytes | V6 bytes

record sock_addr =
  sa_ip :: ip_addr
  sa_port :: u16
  sa_scope :: "u32 \<times> u32"

definition addr_new :: "ip_addr \<Rightarrow> u16 \<Rightarrow> sock_addr" where
  "addr_new ip port = \<lparr>sa_ip = ip, sa_port = port, sa_scope = (0, 0)\<rparr>"

fun ip_v6 :: "ip_addr \<Rightarrow> bool" where
  "ip_v6 (V4 _) = False"
| "ip_v6 (V6 _) = True"

abbreviation is_ipv6 :: "sock_addr \<Rightarrow> bool" where "is_ipv6 a \<equiv> ip_v6 (sa_ip a)"

fun is_unspecified :: "ip_addr \<Rightarrow> bool" where
  "is_unspecified (V4 b) \<longleftrightarrow> b = replicate 4 0"
| "is_unspecified (V6 b) \<longleftrightarrow> b = replicate 16 0"

fun is_multicast :: "ip_addr \<Rightarrow> bool" where
  "is_multicast (V4 b) \<longleftrightarrow> 224 \<le> b ! 0 \<and> b ! 0 \<le> 239"
| "is_multicast (V6 b) \<longleftrightarrow> b ! 0 = 255"

fun is_broadcast :: "ip_addr \<Rightarrow> bool" where
  "is_broadcast (V4 b) \<longleftrightarrow> b = replicate 4 255"
| "is_broadcast (V6 _) = False"

section \<open>Candidates (candidate.rs)\<close>

datatype candidate_kind = HostV6 | HostV4Lan | HostV4P2p | Reflexive

record candidate =
  ca_addr :: sock_addr
  ca_kind :: candidate_kind
  ca_priority :: nat

fun priority :: "candidate_kind \<Rightarrow> sock_addr \<Rightarrow> nat" where
  "priority HostV6 a = 100"
| "priority Reflexive a = (if is_ipv6 a then 80 else 40)"
| "priority HostV4Lan a = 60"
| "priority HostV4P2p a = 50"

definition candidate_new :: "sock_addr \<Rightarrow> candidate_kind \<Rightarrow> candidate" where
  "candidate_new a k = \<lparr>ca_addr = a, ca_kind = k, ca_priority = priority k a\<rparr>"

text \<open>\<open>CandidateSet::add\<close>: the first candidate of that address is replaced by a better one, in its place.\<close>

fun cset_add :: "candidate \<Rightarrow> candidate list \<Rightarrow> candidate list" where
  "cset_add c [] = [c]"
| "cset_add c (e # es) =
     (if ca_addr e = ca_addr c then (if ca_priority e < ca_priority c then c else e) # es else e # cset_add c es)"

definition cset_sorted :: "candidate list \<Rightarrow> candidate list" where
  "cset_sorted cs = sort_key (\<lambda>c. - int (ca_priority c)) cs"

definition best_pair :: "candidate list \<Rightarrow> (sock_addr \<times> sock_addr option) option" where
  "best_pair cs =
     (case cset_sorted cs of [] \<Rightarrow> None
      | c # rest \<Rightarrow> Some (ca_addr c, find (\<lambda>a. a \<noteq> ca_addr c) (map ca_addr (c # rest))))"

section \<open>Gathering (gather.rs)\<close>

text \<open>Here \<open>o\<close> of the source is the list of octets of an IPv4 address.\<close>

definition is_usable_lan_ipv4 :: "bytes \<Rightarrow> bool" where
  "is_usable_lan_ipv4 b \<longleftrightarrow> b ! 0 \<noteq> 127 \<and> \<not> (b ! 0 = 169 \<and> b ! 1 = 254) \<and> \<not> is_unspecified (V4 b)
     \<and> \<not> (b ! 0 = 192 \<and> b ! 1 = 0 \<and> b ! 2 = 0)"

definition is_private_ipv4 :: "bytes \<Rightarrow> bool" where
  "is_private_ipv4 b \<longleftrightarrow> b ! 0 = 10 \<or> (b ! 0 = 172 \<and> 16 \<le> b ! 1 \<and> b ! 1 \<le> 31) \<or> (b ! 0 = 192 \<and> b ! 1 = 168)
     \<or> (b ! 0 = 100 \<and> 64 \<le> b ! 1 \<and> b ! 1 \<le> 127)"

definition public_kind :: "sock_addr \<Rightarrow> candidate_kind" where
  "public_kind a = (if is_ipv6 a then HostV6 else Reflexive)"

definition is_bogus_addr :: "sock_addr \<Rightarrow> bool" where
  "is_bogus_addr a \<longleftrightarrow> is_unspecified (sa_ip a) \<or> is_multicast (sa_ip a) \<or> is_broadcast (sa_ip a) \<or> sa_port a = 0"

definition is_wfd_subnet :: "bytes \<Rightarrow> bool" where
  "is_wfd_subnet b \<longleftrightarrow> b ! 0 = 192 \<and> b ! 1 = 168 \<and> b ! 2 = 49"

definition peer_lan_reachable :: "bytes \<Rightarrow> bytes option \<Rightarrow> bool" where
  "peer_lan_reachable peer ours =
     (case ours of Some b \<Rightarrow> peer ! 0 = b ! 0 \<and> peer ! 1 = b ! 1 \<and> peer ! 2 = b ! 2 | None \<Rightarrow> False)"

definition is_foreign_peer_lan :: "sock_addr \<Rightarrow> bytes option \<Rightarrow> bool" where
  "is_foreign_peer_lan peer ours =
     (case sa_ip peer of
        V4 b \<Rightarrow> if is_wfd_subnet b then False else if is_private_ipv4 b then \<not> peer_lan_reachable b ours else False
      | V6 _ \<Rightarrow> False)"

datatype lan_policy = AnyUsable | SameSubnetAs "bytes option"

definition admits :: "lan_policy \<Rightarrow> bytes \<Rightarrow> bool" where
  "admits policy b =
     (if \<not> is_usable_lan_ipv4 b then False
      else case policy of AnyUsable \<Rightarrow> True | SameSubnetAs ours \<Rightarrow> peer_lan_reachable b ours)"

record peer_endpoint =
  pe_public :: "sock_addr option"
  pe_lan :: "sock_addr option"

text \<open>The candidate of one public address, of one LAN address and of the group address, when there is one.\<close>

definition public_candidate :: "lan_policy \<Rightarrow> sock_addr \<Rightarrow> candidate option" where
  "public_candidate policy a =
     (if is_bogus_addr a then None
      else case sa_ip a of
        V4 b \<Rightarrow> if is_private_ipv4 b then (if admits policy b then Some (candidate_new a HostV4Lan) else None)
                else Some (candidate_new a (public_kind a))
      | V6 _ \<Rightarrow> Some (candidate_new a (public_kind a)))"

definition lan_candidate :: "lan_policy \<Rightarrow> sock_addr \<Rightarrow> candidate option" where
  "lan_candidate policy a =
     (case sa_ip a of V4 b \<Rightarrow> if admits policy b then Some (candidate_new a HostV4Lan) else None | V6 _ \<Rightarrow> None)"

definition p2p_candidate :: "sock_addr \<Rightarrow> candidate option" where
  "p2p_candidate a = (if is_bogus_addr a then None else Some (candidate_new a HostV4P2p))"

definition add_some :: "candidate option \<Rightarrow> candidate list \<Rightarrow> candidate list" where
  "add_some c cs = (case c of Some x \<Rightarrow> cset_add x cs | None \<Rightarrow> cs)"

definition gather_endpoint :: "lan_policy \<Rightarrow> peer_endpoint \<Rightarrow> candidate list \<Rightarrow> candidate list" where
  "gather_endpoint policy ep cs =
     add_some (Option.bind (pe_lan ep) (lan_candidate policy))
       (add_some (Option.bind (pe_public ep) (public_candidate policy)) cs)"

definition gather_peer_candidates :: "peer_endpoint list \<Rightarrow> sock_addr option \<Rightarrow> lan_policy \<Rightarrow> candidate list" where
  "gather_peer_candidates endpoints p2p policy =
     add_some (Option.bind p2p p2p_candidate) (foldl (\<lambda>cs ep. gather_endpoint policy ep cs) [] endpoints)"

definition gather_own_candidates :: "sock_addr option \<Rightarrow> bytes option \<Rightarrow> u16 \<Rightarrow> candidate list" where
  "gather_own_candidates our_reflexive local_v4 port =
     add_some (case local_v4 of Some b \<Rightarrow> if is_usable_lan_ipv4 b then Some (candidate_new (addr_new (V4 b) port) HostV4Lan) else None
         | None \<Rightarrow> None)
       (add_some (map_option (\<lambda>a. candidate_new a (if is_ipv6 a then HostV6 else Reflexive)) our_reflexive) [])"

section \<open>The reflexive address (reflexive.rs)\<close>

definition QUORUM :: nat where "QUORUM = 2"
definition MAX_PENDING :: nat where "MAX_PENDING = 8"

record reflexive =
  rx_v4 :: "sock_addr option"
  rx_v6 :: "sock_addr option"
  rx_votes :: "(sock_addr \<times> bytes list) list"

definition reflexive_new :: reflexive where
  "reflexive_new = \<lparr>rx_v4 = None, rx_v6 = None, rx_votes = []\<rparr>"

fun is_lan_scope :: "ip_addr \<Rightarrow> bool" where
  "is_lan_scope (V4 b) = is_private_ipv4 b"
| "is_lan_scope (V6 b) \<longleftrightarrow> b ! 0 AND 0xFE = 0xFC \<or> (b ! 0 = 0xFE \<and> b ! 1 AND 0xC0 = 0x80)"

text \<open>The entry of an address in the vote list, opened at the end when there is none, the oldest entry making room.\<close>

definition open_entry :: "sock_addr \<Rightarrow> (sock_addr \<times> bytes list) list \<Rightarrow> (sock_addr \<times> bytes list) list" where
  "open_entry a votes =
     (if a \<in> fst ` set votes then votes
      else (if MAX_PENDING \<le> length votes then tl votes else votes) @ [(a, [])])"

fun push_voter :: "sock_addr \<Rightarrow> bytes \<Rightarrow> (sock_addr \<times> bytes list) list \<Rightarrow> (sock_addr \<times> bytes list) list" where
  "push_voter a v [] = []"
| "push_voter a v ((b, vs) # rest) =
     (if b = a then (b, if v \<in> set vs then vs else vs @ [v]) # rest else (b, vs) # push_voter a v rest)"

definition cast_vote :: "sock_addr \<Rightarrow> bytes \<Rightarrow> (sock_addr \<times> bytes list) list \<Rightarrow> (sock_addr \<times> bytes list) list" where
  "cast_vote a v votes = push_voter a v (open_entry a votes)"

definition voters :: "sock_addr \<Rightarrow> (sock_addr \<times> bytes list) list \<Rightarrow> bytes list" where
  "voters a votes = (case map_of votes a of Some vs \<Rightarrow> vs | None \<Rightarrow> [])"

definition rx_slot :: "sock_addr \<Rightarrow> reflexive \<Rightarrow> sock_addr option" where
  "rx_slot a s = (if is_ipv6 a then rx_v6 s else rx_v4 s)"

definition adopt_addr :: "sock_addr \<Rightarrow> reflexive \<Rightarrow> sock_addr option \<times> reflexive" where
  "adopt_addr a s =
     (if is_lan_scope (sa_ip a) \<and> (case rx_slot a s of Some held \<Rightarrow> \<not> is_lan_scope (sa_ip held) | None \<Rightarrow> False) then (None, s)
      else if rx_slot a s = Some a then (None, s)
      else (Some a, (if is_ipv6 a then s\<lparr>rx_v6 := Some a\<rparr> else s\<lparr>rx_v4 := Some a\<rparr>)
              \<lparr>rx_votes := filter (\<lambda>e. fst e \<noteq> a) (rx_votes s)\<rparr>))"

definition record_addr :: "sock_addr \<Rightarrow> bytes \<Rightarrow> bool \<Rightarrow> reflexive \<Rightarrow> sock_addr option \<times> reflexive" where
  "record_addr observed source trusted s =
     (if is_bogus_addr observed then (None, s)
      else if trusted then adopt_addr observed s
      else let votes = cast_vote observed source (rx_votes s); s' = s\<lparr>rx_votes := votes\<rparr> in
        if QUORUM \<le> length (voters observed votes) then adopt_addr observed s' else (None, s'))"

definition reflexive_clear :: "reflexive \<Rightarrow> reflexive" where
  "reflexive_clear s = s\<lparr>rx_v4 := None, rx_v6 := None, rx_votes := []\<rparr>"

definition public_ip :: "reflexive \<Rightarrow> ip_addr option" where
  "public_ip s = (case rx_v4 s of Some a \<Rightarrow> Some (sa_ip a) | None \<Rightarrow> map_option sa_ip (rx_v6 s))"

section \<open>Paths (session.rs)\<close>

definition PATH_TTL :: nat where "PATH_TTL = 120 * 10 ^ 9"
definition KEEPALIVE_INTERVAL :: nat where "KEEPALIVE_INTERVAL = 20 * 10 ^ 9"

datatype punch_state =
    Idle | Gathering | Punching nat byte
  | Validated sock_addr | PunchUnreachable bool

record validated_path =
  vp_remote :: sock_addr
  vp_validated_at :: nat
  vp_last_rx :: nat

definition path_new :: "sock_addr \<Rightarrow> nat \<Rightarrow> validated_path" where
  "path_new remote now = \<lparr>vp_remote = remote, vp_validated_at = now, vp_last_rx = now\<rparr>"

text \<open>\<open>duration_since\<close> is zero for an earlier instant, as subtraction on \<open>nat\<close> is.\<close>

definition is_still_valid :: "validated_path \<Rightarrow> nat \<Rightarrow> bool" where
  "is_still_valid p now \<longleftrightarrow> now - vp_validated_at p < PATH_TTL"

definition keepalive_due :: "validated_path \<Rightarrow> nat \<Rightarrow> bool" where
  "keepalive_due p now \<longleftrightarrow> KEEPALIVE_INTERVAL \<le> now - vp_last_rx p"

record peer_session =
  ps_pubkey :: bytes
  ps_state :: punch_state
  ps_validated :: "validated_path option"
  ps_candidates :: "candidate list"

definition session_new :: "bytes \<Rightarrow> peer_session" where
  "session_new pk = \<lparr>ps_pubkey = pk, ps_state = Idle, ps_validated = None, ps_candidates = []\<rparr>"

definition cached_remote :: "peer_session \<Rightarrow> nat \<Rightarrow> sock_addr option" where
  "cached_remote s now =
     (case ps_validated s of Some p \<Rightarrow> if is_still_valid p now then Some (vp_remote p) else None | None \<Rightarrow> None)"

section \<open>Address bytes (wire.rs)\<close>

definition socketaddr_to_bytes :: "sock_addr \<Rightarrow> bytes" where
  "socketaddr_to_bytes a = (case sa_ip a of V4 b \<Rightarrow> b | V6 b \<Rightarrow> b) @ u16_be (sa_port a)"

definition bytes_to_socketaddr :: "bytes \<Rightarrow> sock_addr option" where
  "bytes_to_socketaddr bs =
     (if length bs = 6 then Some (addr_new (V4 (take 4 bs)) (u16_of_be (drop 4 bs)))
      else if length bs = 18 then Some (addr_new (V6 (take 16 bs)) (u16_of_be (drop 16 bs)))
      else None)"

end
