(* ===== verification/Frames.thy ===== *)
theory Frames
  imports Chain_Doc Pair Traverse
begin

text \<open>
  The frames between devices: the punch messages of src/src/traverse/wire.rs, the relay envelope and the
  stream frame of src/src/pipe.rs and the fleet frames of src/src/protocol.rs. The container is the \<open>vsf\<close>
  crate: \<open>vsf_doc\<close> of the chain documents and what these frames use besides, in \<open>frame_doc\<close>.
\<close>

record frame_header =
  fh_time :: "vsf option"
  fh_provenance :: vsf
  fh_signer :: "vsf option"
  fh_signature :: "vsf option"

record frame_doc =
  fd_doc :: vsf_doc
  fd_decode :: "bytes \<Rightarrow> string + frame_header"
  fd_signer :: "bytes \<Rightarrow> string + bytes"
  fd_build_anchored :: "i64 \<Rightarrow> bytes \<Rightarrow> bytes \<Rightarrow> bytes \<Rightarrow> vsection \<Rightarrow> string + bytes"
  fd_build_provenance :: "i64 \<Rightarrow> bytes \<Rightarrow> vsection \<Rightarrow> string + bytes"
  fd_eagle :: "vsection \<Rightarrow> string \<Rightarrow> i64 option"

section \<open>Punch messages (traverse/wire.rs)\<close>

datatype punch_message =
    Probe (pm_timestamp: i64) (pm_pubkey: bytes) (pm_provenance: bytes) (pm_signature: bytes)
  | ProbeAck (pm_timestamp: i64) (pm_pubkey: bytes) (pm_provenance: bytes) (pm_signature: bytes) (pm_observed: sock_addr)

definition punch_section :: "punch_message \<Rightarrow> vsection" where
  "punch_section m =
     (case m of
        Probe _ _ _ _ \<Rightarrow> \<lparr>vs_name = ''punch'', vs_fields = []\<rparr>
      | ProbeAck _ _ _ _ a \<Rightarrow> \<lparr>vs_name = ''punch_ack'', vs_fields = [(''obs'', [V_hb (socketaddr_to_bytes a)])]\<rparr>)"

definition punch_to_vsf :: "frame_doc \<Rightarrow> punch_message \<Rightarrow> string + bytes" where
  "punch_to_vsf D m = fd_build_anchored D (pm_timestamp m) (pm_provenance m) (pm_pubkey m) (pm_signature m) (punch_section m)"

definition header_timestamp :: "frame_header \<Rightarrow> string + i64" where
  "header_timestamp h = (case fh_time h of Some (V_e (E6 t)) \<Rightarrow> Inr t | _ \<Rightarrow> Inl ''invalid header timestamp'')"

definition header_provenance :: "frame_header \<Rightarrow> string + bytes" where
  "header_provenance h =
     (case fh_provenance h of
        V_hp b \<Rightarrow> if length b = 32 then Inr b else Inl ''invalid or missing header provenance hash''
      | _ \<Rightarrow> Inl ''invalid or missing header provenance hash'')"

definition header_pubkey :: "frame_header \<Rightarrow> string + bytes" where
  "header_pubkey h =
     (case fh_signer h of
        Some (V_ke b) \<Rightarrow> if length b = 32 then Inr b else Inl ''invalid or missing header signer pubkey''
      | _ \<Rightarrow> Inl ''invalid or missing header signer pubkey'')"

definition header_signature :: "frame_header \<Rightarrow> string + bytes" where
  "header_signature h =
     (case fh_signature h of
        Some (V_ge b) \<Rightarrow> if length b = 64 then Inr b else Inl ''invalid or missing header signature''
      | _ \<Rightarrow> Inl ''invalid or missing header signature'')"

definition observed_addr :: "vsection \<Rightarrow> sock_addr option" where
  "observed_addr sec =
     (case find (\<lambda>f. fst f = ''obs'') (vs_fields sec) of
        Some (_, V_hb b # _) \<Rightarrow> bytes_to_socketaddr b
      | _ \<Rightarrow> None)"

definition VSF_MAGIC :: bytes where "VSF_MAGIC = [0x52, 0xC3, 0x85, 0x3C]"

definition punch_from_vsf :: "frame_doc \<Rightarrow> bytes \<Rightarrow> string + punch_message option" where
  "punch_from_vsf D bs =
     (if length bs < 4 \<or> take 4 bs \<noteq> VSF_MAGIC then Inl ''not a VSF file (invalid magic)'' else
      try_r (map_err (\<lambda>e. ''failed to parse VSF header: '' @ e) (fd_decode D bs)) (\<lambda>h.
      try_r (map_err (\<lambda>e. ''failed to parse section: '' @ e) (vd_primary (fd_doc D) bs)) (\<lambda>sec.
      if vs_name sec = ''punch'' then
        try_r (header_timestamp h) (\<lambda>t. try_r (header_pubkey h) (\<lambda>pk. try_r (header_provenance h) (\<lambda>prov.
        try_r (header_signature h) (\<lambda>sig. Inr (Some (Probe t pk prov sig))))))
      else if vs_name sec = ''punch_ack'' then
        try_r (header_timestamp h) (\<lambda>t. try_r (header_pubkey h) (\<lambda>pk. try_r (header_provenance h) (\<lambda>prov.
        try_r (header_signature h) (\<lambda>sig.
        try_r (ok_or ''punch_ack missing observed_addr'' (observed_addr sec)) (\<lambda>a. Inr (Some (ProbeAck t pk prov sig a)))))))
      else Inr None)))"

section \<open>The relay envelope (pipe.rs)\<close>

definition hex_digit :: "nat \<Rightarrow> char" where
  "hex_digit n = ''0123456789abcdef'' ! n"

definition hex_lower :: "bytes \<Rightarrow> string" where
  "hex_lower bs = concat (map (\<lambda>b. [hex_digit (unat b div 16), hex_digit (unat b mod 16)]) bs)"

definition pipe_url :: "string \<Rightarrow> bytes \<Rightarrow> string option \<Rightarrow> string" where
  "pipe_url seed_host device svc =
     ''wss://'' @ seed_host @ ''/pipe?dev='' @ hex_lower device @ (case svc of Some s \<Rightarrow> ''&svc='' @ s | None \<Rightarrow> [])"

definition relay_section :: "bytes \<Rightarrow> string option \<Rightarrow> bytes \<Rightarrow> vsection" where
  "relay_section recipient svc payload = \<lparr>vs_name = ''relay'', vs_fields =
     [(''recipient'', [V_kx recipient]), (''payload'', [V_v 0x72 payload])]
     @ (case svc of Some s \<Rightarrow> [(''svc'', [V_d s])] | None \<Rightarrow> [])\<rparr>"

definition build_relay_envelope ::
  "ext \<Rightarrow> vsf_doc \<Rightarrow> signer \<Rightarrow> bytes \<Rightarrow> string option \<Rightarrow> bytes \<Rightarrow> i64 \<Rightarrow> string + bytes" where
  "build_relay_envelope W D key recipient svc payload now =
     (if payload = [] then Inl ''relay envelope: empty payload''
      else try_r (map_err (\<lambda>e. ''relay envelope build: '' @ e)
        (vd_build_signed D now (sg_public key) (reserve_eggs W (envelope_mask W key)) (relay_section recipient svc payload)))
        (\<lambda>doc. sign_envelope W D doc key))"

definition peel_relay_envelope_eggs :: "frame_doc \<Rightarrow> bytes \<Rightarrow> (bytes \<times> bytes \<times> egg list \<times> bytes) option" where
  "peel_relay_envelope_eggs D bs =
     (case (vd_header_eggs (fd_doc D) bs, fd_decode D bs, vd_primary (fd_doc D) bs) of
        (Inr (sender, eggs, file_hash), Inr _, Inr sec) \<Rightarrow>
          (case first_value sec ''payload'' of
             Some (V_v _ payload) \<Rightarrow> if payload = [] then None else Some (sender, payload, eggs, file_hash)
           | _ \<Rightarrow> None)
      | _ \<Rightarrow> None)"

definition peel_relay_envelope :: "frame_doc \<Rightarrow> bytes \<Rightarrow> (bytes \<times> bytes) option" where
  "peel_relay_envelope D bs = map_option (\<lambda>(k, p, _, _). (k, p)) (peel_relay_envelope_eggs D bs)"

section \<open>The stream frame (pipe.rs)\<close>

definition RD_MAGIC :: bytes where "RD_MAGIC = ascii ''RDS1''"
definition RD_HEADER_LEN :: nat where "RD_HEADER_LEN = 4 + 16 + 8 + 1"

record rd_frame =
  rd_conn :: bytes
  rd_seq :: u64
  rd_flags :: byte
  rd_data :: bytes

definition rd_encode :: "rd_frame \<Rightarrow> bytes" where
  "rd_encode f = RD_MAGIC @ rd_conn f @ u64_be (rd_seq f) @ [rd_flags f] @ rd_data f"

definition rd_decode :: "bytes \<Rightarrow> rd_frame option" where
  "rd_decode bs =
     (if length bs < RD_HEADER_LEN \<or> take 4 bs \<noteq> RD_MAGIC then None
      else Some \<lparr>rd_conn = take 16 (drop 4 bs), rd_seq = u64_of_be (take 8 (drop 20 bs)), rd_flags = bs ! 28,
        rd_data = drop RD_HEADER_LEN bs\<rparr>)"

section \<open>The beacon (protocol.rs)\<close>

definition beacon :: "frame_doc \<Rightarrow> bytes \<Rightarrow> u16 \<Rightarrow> bytes \<Rightarrow> i64 \<Rightarrow> bytes" where
  "beacon D hp port device now =
     (case fd_build_provenance D now hp \<lparr>vs_name = ''pt_disc'', vs_fields = [(''port'', [V_u (ucast port) False]), (''ke'', [V_ke device])]\<rparr>
      of Inr d \<Rightarrow> d | Inl _ \<Rightarrow> [])"

definition parse_beacon :: "vsf_conv \<Rightarrow> frame_doc \<Rightarrow> bytes \<Rightarrow> (bytes \<times> u16 \<times> bytes option) option" where
  "parse_beacon C D bs =
     (case fd_decode D bs of Inl _ \<Rightarrow> None | Inr h \<Rightarrow>
     (case header_provenance h of Inl _ \<Rightarrow> None | Inr hp \<Rightarrow>
     (case vd_primary (fd_doc D) bs of Inl _ \<Rightarrow> None | Inr sec \<Rightarrow>
        if vs_name sec \<noteq> ''pt_disc'' then None
        else (case Option.bind (first_value sec ''port'') (as_u64 C) of None \<Rightarrow> None
          | Some n \<Rightarrow>
              if 65536 \<le> unat n then None
              else Some (hp, ucast n, case first_value sec ''ke'' of
                Some (V_ke b) \<Rightarrow> if length b = 32 then Some b else None | _ \<Rightarrow> None)))))"

section \<open>Fleet frames (protocol.rs)\<close>

definition signed_frame :: "ext \<Rightarrow> frame_doc \<Rightarrow> vsection \<Rightarrow> signer \<Rightarrow> i64 \<Rightarrow> string + bytes" where
  "signed_frame W D sec key now =
     try_r (map_err (\<lambda>e. ''frame build: '' @ e)
       (vd_build_signed (fd_doc D) now (sg_public key) (reserve_eggs W (envelope_mask W key)) sec))
       (\<lambda>doc. sign_envelope W (fd_doc D) doc key)"

definition open_frame :: "frame_doc \<Rightarrow> bytes \<Rightarrow> string + vsection \<times> bytes" where
  "open_frame D bs =
     try_r (map_err (\<lambda>e. ''frame verification failed: '' @ e) (vd_read_verified (fd_doc D) bs)) (\<lambda>_.
     try_r (fd_signer D bs) (\<lambda>sg.
     try_r (map_err (\<lambda>e. ''frame section: '' @ e) (vd_primary (fd_doc D) bs)) (\<lambda>sec. Inr (sec, sg))))"

definition tick :: string where "tick = [CHR 0x27]"

definition open_named :: "frame_doc \<Rightarrow> bytes \<Rightarrow> string \<Rightarrow> string + vsection \<times> bytes" where
  "open_named D bs name =
     try_r (map_err (\<lambda>e. name @ '': '' @ e) (open_frame D bs)) (\<lambda>(sec, sg).
     if vs_name sec \<noteq> name
     then Inl (''Expected '' @ tick @ name @ tick @ '' section, got '' @ tick @ vs_name sec @ tick)
     else Inr (sec, sg))"

definition field_handle_proof :: "vsection \<Rightarrow> string \<Rightarrow> bytes option" where
  "field_handle_proof sec n =
     (case first_value sec n of
        Some (V_hP b) \<Rightarrow> if length b = 32 then Some b else None
      | Some (V_hp b) \<Rightarrow> if length b = 32 then Some b else None
      | Some (V_hb b) \<Rightarrow> if length b = 32 then Some b else None
      | _ \<Rightarrow> None)"

definition field_ge :: "vsection \<Rightarrow> string \<Rightarrow> bytes option" where
  "field_ge sec n = (case first_value sec n of Some (V_ge b) \<Rightarrow> Some b | _ \<Rightarrow> None)"

definition bind_request_plated ::
  "ext \<Rightarrow> signer \<Rightarrow> bytes \<Rightarrow> bytes \<Rightarrow> i64 \<Rightarrow> bytes \<Rightarrow> bytes option \<Rightarrow> byte \<Rightarrow> bind_request" where
  "bind_request_plated W key identity_seed hp t nfc_secret plate plate_k =
     (let me = sg_public key;
          msg = bindreq_signing_bytes_plated hp me t plate plate_k;
          m = (case sg_bundle key of Some b \<Rightarrow> bundle_mask b | None \<Rightarrow> MASK_BASE W) in
      \<lparr>br_device = me, br_t = t, br_device_sig = sg_eggs key msg m, br_bundle = sg_bundle key,
        br_identity_sig = ed_sign W identity_seed msg, br_plate = plate, br_plate_kind = plate_k,
        br_nfc_hash = (if nfc_secret = zero32 then zero32 else nfc_secret_hash W nfc_secret me t)\<rparr>)"

definition bind_request_of :: "ext \<Rightarrow> signer \<Rightarrow> bytes \<Rightarrow> bytes \<Rightarrow> i64 \<Rightarrow> bytes \<Rightarrow> bind_request" where
  "bind_request_of W key identity_seed hp t nfc_secret = bind_request_plated W key identity_seed hp t nfc_secret None UNSTATED"

definition bind_req_section :: "ext \<Rightarrow> bind_request \<Rightarrow> bytes \<Rightarrow> vsection" where
  "bind_req_section W r hp = \<lparr>vs_name = ''bind_req'', vs_fields =
     [(''hp'', [V_hP hp]), (''dk'', [V_ke (br_device r)]), (''t'', [V_e (E6 (br_t r))]),
      (''ds'', [V_ge (eggs_to_bytes W (br_device_sig r))]), (''is'', [V_ge (br_identity_sig r)])]
     @ (case br_bundle r of Some b \<Rightarrow> [(''kb'', [V_ge (bundle_to_bytes b)])] | None \<Rightarrow> [])
     @ (case br_plate r of Some p \<Rightarrow> [(''pl'', [V_hb p])] | None \<Rightarrow> [])
     @ (if br_plate_kind r \<noteq> UNSTATED then [(''pk'', [V_u (ucast (br_plate_kind r)) False])] else [])
     @ [(''nh'', [V_hb (br_nfc_hash r)])]\<rparr>"

definition bind_req :: "ext \<Rightarrow> frame_doc \<Rightarrow> bind_request \<Rightarrow> bytes \<Rightarrow> signer \<Rightarrow> i64 \<Rightarrow> string + bytes" where
  "bind_req W D r hp key now = signed_frame W D (bind_req_section W r hp) key now"

definition parse_bind_req :: "ext \<Rightarrow> vsf_conv \<Rightarrow> frame_doc \<Rightarrow> string \<Rightarrow> bytes \<Rightarrow> string + bytes \<times> bind_request \<times> bytes" where
  "parse_bind_req W C D eggs_err bs =
     try_r (open_named D bs ''bind_req'') (\<lambda>(sec, sender).
     try_r (ok_or ''bind_req missing hp'' (field_handle_proof sec ''hp'')) (\<lambda>hp.
     try_r (case first_value sec ''dk'' of
         Some (V_ke b) \<Rightarrow> if length b = 32 then Inr b else Inl ''bind_req missing dk''
       | _ \<Rightarrow> Inl ''bind_req missing dk'') (\<lambda>device.
     if device \<noteq> sender then Inl ''bind_req envelope signer is not the request's device'' else
     try_r (ok_or ''bind_req missing t'' (fd_eagle D sec ''t'')) (\<lambda>t.
     try_r (case first_value sec ''ds'' of
         Some (V_ge b) \<Rightarrow> ok_or eggs_err (eggs_from_bytes W b)
       | _ \<Rightarrow> Inl ''bind_req missing ds'') (\<lambda>device_sig.
     try_r (ok_or ''bind_req missing is'' (field_ge sec ''is'')) (\<lambda>identity_sig.
     try_r (case first_value sec ''kb'' of
         Some (V_ge b) \<Rightarrow> map_err bundle_error_text (try_r (bundle_from_bytes W b) (\<lambda>x. Inr (Some x)))
       | _ \<Rightarrow> Inr None) (\<lambda>bundle.
     let nfc_hash = (case first_value sec ''nh'' of Some (V_hb h) \<Rightarrow> if length h = 32 then h else zero32 | _ \<Rightarrow> zero32);
         plate = (case first_value sec ''pl'' of Some (V_hb p) \<Rightarrow> if length p = 32 then Some p else None | _ \<Rightarrow> None) in
     try_r (case first_value sec ''pk'' of Some v \<Rightarrow> ok_or ''bind_req pk'' (as_u8 C v) | None \<Rightarrow> Inr UNSTATED) (\<lambda>plate_k.
     Inr (hp, \<lparr>br_device = device, br_t = t, br_device_sig = device_sig, br_bundle = bundle,
       br_identity_sig = identity_sig, br_plate = plate, br_plate_kind = plate_k, br_nfc_hash = nfc_hash\<rparr>, sender)))))))))"

record depart_req =
  dr_t :: i64
  dr_consent_sig :: bytes
  dr_intent :: byte
  dr_words_commit :: "bytes option"

definition depart_words_commit :: "ext \<Rightarrow> string \<Rightarrow> bytes" where
  "depart_words_commit W words = blake3 W (ascii (map to_lower words))"

definition depart_req_section :: "depart_req \<Rightarrow> vsection" where
  "depart_req_section r = \<lparr>vs_name = ''depart_req'', vs_fields =
     [(''t'', [V_e (E6 (dr_t r))]), (''cs'', [V_ge (dr_consent_sig r)])]
     @ (if dr_intent r \<noteq> 0 then [(''it'', [V_u (ucast (dr_intent r)) False])] else [])
     @ (case dr_words_commit r of Some c \<Rightarrow> [(''wc'', [V_hp c])] | None \<Rightarrow> [])\<rparr>"

definition depart_req_frame :: "ext \<Rightarrow> frame_doc \<Rightarrow> depart_req \<Rightarrow> signer \<Rightarrow> i64 \<Rightarrow> string + bytes" where
  "depart_req_frame W D r key now = signed_frame W D (depart_req_section r) key now"

definition parse_depart_req :: "vsf_conv \<Rightarrow> frame_doc \<Rightarrow> bytes \<Rightarrow> string + depart_req \<times> bytes" where
  "parse_depart_req C D bs =
     try_r (open_named D bs ''depart_req'') (\<lambda>(sec, sender).
     try_r (ok_or ''depart_req missing t'' (fd_eagle D sec ''t'')) (\<lambda>t.
     try_r (ok_or ''depart_req missing cs'' (field_ge sec ''cs'')) (\<lambda>cs.
     Inr (\<lparr>dr_t = t, dr_consent_sig = cs,
       dr_intent = (case Option.bind (first_value sec ''it'') (as_u64 C) of Some n \<Rightarrow> if unat n < 256 then ucast n else 0 | None \<Rightarrow> 0),
       dr_words_commit = (case first_value sec ''wc'' of Some (V_hp b) \<Rightarrow> if length b = 32 then Some b else None | _ \<Rightarrow> None)\<rparr>,
       sender))))"

definition depart_consent :: "ext \<Rightarrow> signer \<Rightarrow> bytes \<Rightarrow> i64 \<Rightarrow> bytes" where
  "depart_consent W key hp t =
     eggs_to_bytes W (sg_eggs key (departreq_signing_bytes hp (sg_public key) t)
       (case sg_bundle key of Some b \<Rightarrow> bundle_mask b | None \<Rightarrow> MASK_BASE W))"

text \<open>The padding loop of \<open>depart_words\<close>: it ends only if a zero word adds a token, so it is an option. The
  zero word is built in the loop as \<open>zero_word\<close> of pair.rs builds it: the first word of the list, its first
  letter capitalised.\<close>

partial_function (option) pad_three :: "string list \<Rightarrow> string \<Rightarrow> string option" where
  "pad_three voc words = (if pair_word_tokens words < 3 then pad_three voc (zero_word_of voc @ words) else Some words)"

definition depart_words :: "(nat \<Rightarrow> string) \<Rightarrow> string list \<Rightarrow> u64 \<Rightarrow> string option" where
  "depart_words encode voc nonce = pad_three voc (encode (unat nonce mod length voc ^ 3))"

text \<open>A frame of one handle proof and one byte string, the shape of three of the frames.\<close>

definition hp_frame :: "string \<Rightarrow> bytes \<Rightarrow> (string \<times> bytes) list \<Rightarrow> vsection" where
  "hp_frame name hp blobs = \<lparr>vs_name = name, vs_fields = (''hp'', [V_hP hp]) # map (\<lambda>(n, b). (n, [V_ge b])) blobs\<rparr>"

definition fleet_req :: "ext \<Rightarrow> frame_doc \<Rightarrow> bytes \<Rightarrow> signer \<Rightarrow> i64 \<Rightarrow> string + bytes" where
  "fleet_req W D hp key now = signed_frame W D (hp_frame ''fleet_req'' hp []) key now"

definition parse_fleet_req :: "frame_doc \<Rightarrow> bytes \<Rightarrow> string + bytes \<times> bytes" where
  "parse_fleet_req D bs =
     try_r (open_named D bs ''fleet_req'') (\<lambda>(sec, sender).
     try_r (ok_or ''fleet_req missing hp'' (field_handle_proof sec ''hp'')) (\<lambda>hp. Inr (hp, sender)))"

definition fleet_resp :: "ext \<Rightarrow> frame_doc \<Rightarrow> bytes \<Rightarrow> bytes \<Rightarrow> signer \<Rightarrow> i64 \<Rightarrow> string + bytes" where
  "fleet_resp W D hp chain key now = signed_frame W D (hp_frame ''fleet_resp'' hp [(''ch'', chain)]) key now"

definition parse_fleet_resp :: "frame_doc \<Rightarrow> bytes \<Rightarrow> string + bytes \<times> bytes \<times> bytes" where
  "parse_fleet_resp D bs =
     try_r (open_named D bs ''fleet_resp'') (\<lambda>(sec, sender).
     try_r (ok_or ''fleet_resp missing hp'' (field_handle_proof sec ''hp'')) (\<lambda>hp.
     try_r (ok_or ''fleet_resp missing ch'' (field_ge sec ''ch'')) (\<lambda>c. Inr (hp, c, sender))))"

definition fanout_resp :: "ext \<Rightarrow> frame_doc \<Rightarrow> bytes \<Rightarrow> bytes \<Rightarrow> signer \<Rightarrow> i64 \<Rightarrow> string + bytes" where
  "fanout_resp W D hp blob key now = signed_frame W D (hp_frame ''fanout_resp'' hp [(''bl'', blob)]) key now"

definition parse_fanout_resp :: "frame_doc \<Rightarrow> bytes \<Rightarrow> string + bytes \<times> bytes \<times> bytes" where
  "parse_fanout_resp D bs =
     try_r (open_named D bs ''fanout_resp'') (\<lambda>(sec, sender).
     try_r (ok_or ''fanout_resp missing hp'' (field_handle_proof sec ''hp'')) (\<lambda>hp.
     try_r (ok_or ''fanout_resp missing bl'' (field_ge sec ''bl'')) (\<lambda>b. Inr (hp, b, sender))))"

end
