(* ===== verification/Phonebook_Doc.thy ===== *)
theory Phonebook_Doc
  imports Complex_Main Slice_Props Registry_Props Frames Demo_Wire
begin

text \<open>
  src/src/phonebook.rs, the documents: the set of addresses a device publishes behind a content-addressed
  pointer, and a slice in transport. The container is the \<open>vsf\<close> crate, by what these two use of it.
\<close>

section \<open>Address sets\<close>

definition ADDRESS_SET_MAX :: nat where "ADDRESS_SET_MAX = 2 ^ 5"
definition ADDRESS_SET_BLOB_MAX :: nat where "ADDRESS_SET_BLOB_MAX = 2 ^ 13"

datatype addr_kind = K_Interface | K_Reflexive | K_WifiDirect | K_Unknown

fun addr_kind_u64 :: "addr_kind \<Rightarrow> u64" where
  "addr_kind_u64 K_Interface = 0"
| "addr_kind_u64 K_Reflexive = 1"
| "addr_kind_u64 K_WifiDirect = 2"
| "addr_kind_u64 K_Unknown = 255"

definition addr_kind_from_u64 :: "u64 \<Rightarrow> addr_kind" where
  "addr_kind_from_u64 n = (if n = 0 then K_Interface else if n = 1 then K_Reflexive else if n = 2 then K_WifiDirect else K_Unknown)"

record set_addr =
  se_addr :: sock_addr
  se_kind :: addr_kind
  se_seen :: i64

record addr_doc =
  ad_build :: "i64 \<Rightarrow> vsection list \<Rightarrow> string + bytes"
  ad_verified :: "bytes \<Rightarrow> string + unit"
  ad_sections :: "bytes \<Rightarrow> string + vsection list"
  ad_uint :: "vsection \<Rightarrow> string \<Rightarrow> u64 option"
  ad_eagle :: "vsection \<Rightarrow> string \<Rightarrow> i64 option"

definition set_addr_section :: "set_addr \<Rightarrow> vsection" where
  "set_addr_section e = \<lparr>vs_name = ''addr'', vs_fields =
     [(''ip'', [case sa_ip (se_addr e) of V4 b \<Rightarrow> V_ni b | V6 b \<Rightarrow> V_nj b]), (''port'', [V_np (sa_port (se_addr e))]),
      (''kind'', [V_u (addr_kind_u64 (se_kind e)) False]), (''seen'', [V_e (E6 (se_seen e))])]\<rparr>"

text \<open>Both panics of the writer, the cap and a document that does not encode, are \<open>None\<close>.\<close>

definition address_set_blob :: "addr_doc \<Rightarrow> set_addr list \<Rightarrow> i64 \<Rightarrow> bytes option" where
  "address_set_blob D entries timestamp =
     (if ADDRESS_SET_MAX < length entries then None
      else (case ad_build D timestamp (map set_addr_section entries) of Inr b \<Rightarrow> Some b | Inl _ \<Rightarrow> None))"

definition read_set_addr :: "addr_doc \<Rightarrow> vsection \<Rightarrow> set_addr option" where
  "read_set_addr D s =
     (case (case first_value s ''ip'' of Some (V_ni b) \<Rightarrow> Some (V4 b) | Some (V_nj b) \<Rightarrow> Some (V6 b) | _ \<Rightarrow> None) of
        None \<Rightarrow> None
      | Some ip \<Rightarrow> (case first_value s ''port'' of
          Some (V_np p) \<Rightarrow> Some \<lparr>se_addr = addr_new ip p,
            se_kind = (case ad_uint D s ''kind'' of Some n \<Rightarrow> addr_kind_from_u64 n | None \<Rightarrow> K_Unknown),
            se_seen = (case ad_eagle D s ''seen'' of Some t \<Rightarrow> t | None \<Rightarrow> 0)\<rparr>
        | _ \<Rightarrow> None))"

definition freshest_first :: "set_addr list \<Rightarrow> set_addr list" where
  "freshest_first = sort_key (\<lambda>e. - sint (se_seen e))"

definition address_set_entries :: "addr_doc \<Rightarrow> bytes \<Rightarrow> set_addr list option" where
  "address_set_entries D blob =
     (if ADDRESS_SET_BLOB_MAX < length blob then None
      else (case (ad_verified D blob, ad_sections D blob) of
        (Inr _, Inr secs) \<Rightarrow>
          (case those (map (read_set_addr D) (filter (\<lambda>s. vs_name s = ''addr'') secs)) of
             None \<Rightarrow> None
           | Some out \<Rightarrow> if ADDRESS_SET_MAX < length out then None else Some (freshest_first out))
      | _ \<Rightarrow> None))"

definition sign_device_address_set ::
  "ext \<Rightarrow> addr_doc \<Rightarrow> signer \<Rightarrow> u16 \<Rightarrow> bytes \<Rightarrow> set_addr list \<Rightarrow> i64 \<Rightarrow> (bytes \<times> bytes \<times> bytes) option" where
  "sign_device_address_set W D s m hp entries timestamp =
     (case address_set_blob D entries timestamp of None \<Rightarrow> None | Some sb \<Rightarrow>
        let mk = new_device_address_set (sg_public s) hp (address_set_ptr W sb) timestamp;
            eggs = sg_eggs s (address_set_signing_bytes (mk zero32)) m;
            blob = eggs_blob W [eggs]
        in Some (mk (eggs_ptr W blob), blob, sb))"

definition verify_address_set_with :: "ext \<Rightarrow> addr_doc \<Rightarrow> bytes \<Rightarrow> bytes \<Rightarrow> bytes \<Rightarrow> egg_policy \<Rightarrow> bool" where
  "verify_address_set_with W D r eggs sb policy \<longleftrightarrow>
     rec_kind r = DeviceAddressSet \<and> length sb \<le> ADDRESS_SET_BLOB_MAX \<and> address_set_ptr W sb = rec_set_ptr r \<and>
     address_set_entries D sb \<noteq> None \<and> verify_list W r eggs 0 1 (rec_device r) (address_set_signing_bytes r) policy"

text \<open>The checks of a reader without the chain.\<close>

definition verify_address :: "ext \<Rightarrow> bytes \<Rightarrow> bytes \<Rightarrow> bool" where
  "verify_address W r blob = verify_address_with W r blob anchor_only"
definition verify_address_set :: "ext \<Rightarrow> addr_doc \<Rightarrow> bytes \<Rightarrow> bytes \<Rightarrow> bytes \<Rightarrow> bool" where
  "verify_address_set W D r eggs sb = verify_address_set_with W D r eggs sb anchor_only"
definition verify_placement :: "ext \<Rightarrow> bytes \<Rightarrow> bytes \<Rightarrow> bool" where
  "verify_placement W r blob = verify_placement_with W r blob anchor_only"
definition verify_count :: "ext \<Rightarrow> bytes \<Rightarrow> bytes \<Rightarrow> bool" where
  "verify_count W r blob = verify_count_with W r blob anchor_only"
definition verify_departure :: "ext \<Rightarrow> bytes \<Rightarrow> bytes \<Rightarrow> bool" where
  "verify_departure W r blob = verify_departure_with W r blob anchor_only"

section \<open>The fill band\<close>

text \<open>The quotient of a count up to 4096 by 4096 is exact in single precision, so it is a rational here.\<close>

definition fill_ratio :: "slice \<Rightarrow> rat" where "fill_ratio sl = of_nat (sl_fill sl) / of_nat SLICE_SLOTS"
definition FILL_MIN :: rat where "FILL_MIN = 375 / 1000"
definition FILL_MAX :: rat where "FILL_MAX = 75 / 100"
definition wants_grow :: "slice \<Rightarrow> bool" where "wants_grow sl \<longleftrightarrow> FILL_MAX < fill_ratio sl"
definition wants_shrink :: "slice \<Rightarrow> bool" where "wants_shrink sl \<longleftrightarrow> fill_ratio sl < FILL_MIN"

lemma fill_band:
  "wants_grow sl \<longleftrightarrow> 3072 < sl_fill sl" "wants_shrink sl \<longleftrightarrow> sl_fill sl < 1536"
  by (auto simp: wants_grow_def wants_shrink_def fill_ratio_def FILL_MIN_def FILL_MAX_def SLICE_SLOTS_def field_simps)

section \<open>A slice in transport\<close>

record toc_field =
  tf_name :: string
  tf_offset :: u64
  tf_size :: u64
  tf_inline :: "vsf list"

record slice_doc =
  sd_build :: "i64 \<Rightarrow> (string \<times> vsf list) list \<Rightarrow> string \<Rightarrow> bytes \<Rightarrow> string + bytes"
  sd_verified :: "bytes \<Rightarrow> string + toc_field list"

definition SLICE_SECTION :: string where "SLICE_SECTION = ''pb_slice''"

fun vsf_u64 :: "vsf \<Rightarrow> u64 option" where
  "vsf_u64 (V_u3 n) = Some (ucast n)"
| "vsf_u64 (V_u4 n) = Some (ucast n)"
| "vsf_u64 (V_u5 n) = Some (ucast n)"
| "vsf_u64 (V_u6 n) = Some n"
| "vsf_u64 _ = None"

definition slice_inline :: "slice \<Rightarrow> (string \<times> vsf list) list" where
  "slice_inline sl = [(''slice_bits'', [V_u3 (of_nat (sl_bits sl))]), (''slice_id'', [V_u5 (sl_id sl)]),
     (''fill'', [V_u5 (of_nat (sl_fill sl))])]"

definition slice_to_document :: "slice_doc \<Rightarrow> i64 \<Rightarrow> slice \<Rightarrow> string + bytes" where
  "slice_to_document D now sl = sd_build D now (slice_inline sl) SLICE_SECTION (sl_buf sl)"

definition read_num :: "toc_field list \<Rightarrow> string \<Rightarrow> string + u64" where
  "read_num fs n = ok_or (''missing header field '' @ tick @ n @ tick)
     (case find (\<lambda>f. tf_name f = n) fs of None \<Rightarrow> None
      | Some g \<Rightarrow> (case tf_inline g of v # _ \<Rightarrow> vsf_u64 v | [] \<Rightarrow> None))"

definition slice_from_document :: "slice_doc \<Rightarrow> bytes \<Rightarrow> string + slice" where
  "slice_from_document D doc =
     try_r (map_err (\<lambda>e. ''phonebook slice failed verified read: '' @ e) (sd_verified D doc)) (\<lambda>fs.
     try_r (ok_or (''no '' @ tick @ SLICE_SECTION @ tick @ '' section in document TOC'') (find (\<lambda>f. tf_name f = SLICE_SECTION) fs)) (\<lambda>field.
     let start = unat (tf_offset field); stop = start + unat (tf_size field) in
     if 2 ^ 64 \<le> stop then Inl ''slice byte range overflows''
     else if length doc < stop
       then Inl (''slice range '' @ decimal start @ ''..'' @ decimal stop @ '' out of bounds ('' @ decimal (length doc) @ '' bytes)'')
     else try_r (read_num fs ''slice_bits'') (\<lambda>bits. try_r (read_num fs ''slice_id'') (\<lambda>i.
       ok_or (''body is '' @ decimal (stop - start) @ '' bytes, expected '' @ decimal (SLICE_SLOTS * STRIDE))
         (slice_from_bytes (unat (ucast bits :: u32)) (ucast i) (take (stop - start) (drop start doc)))))))"

section \<open>What they give\<close>

text \<open>The set's document verifies and gives back its sections, an integer at whatever width fits;
  \<open>s.uint\<close> reads an unsigned field at any width and \<open>s.eagle\<close> a time field.\<close>

definition addr_doc_ok :: "addr_doc \<Rightarrow> bool" where
  "addr_doc_ok D \<longleftrightarrow>
     (\<forall>s n v k. first_value s n = Some v \<and> unsigned_of v = Some k \<longrightarrow> ad_uint D s n = Some k) \<and>
     (\<forall>s n t. first_value s n = Some (V_e (E6 t)) \<longrightarrow> ad_eagle D s n = Some t)"

definition addr_doc_keeps :: "addr_doc \<Rightarrow> set_addr list \<Rightarrow> bytes \<Rightarrow> bool" where
  "addr_doc_keeps D entries blob \<longleftrightarrow> addr_doc_ok D \<and> ad_verified D blob = Inr () \<and>
     (\<exists>secs. ad_sections D blob = Inr secs \<and> list_all2 same_section (map set_addr_section entries) secs)"

text \<open>An entry as its readers have it: address and port only.\<close>

definition bare_addr :: "set_addr \<Rightarrow> set_addr" where
  "bare_addr e = e\<lparr>se_addr := addr_new (sa_ip (se_addr e)) (sa_port (se_addr e))\<rparr>"

lemma addr_kind_roundtrip [simp]: "addr_kind_from_u64 (addr_kind_u64 k) = k"
  by (cases k) (simp_all add: addr_kind_from_u64_def)

lemma read_set_addr_of:
  assumes D: "addr_doc_ok D" and rel: "same_section (set_addr_section e) s"
  shows "read_set_addr D s = Some (bare_addr e)"
proof -
  let ?e = "set_addr_section e"
  have f: "first_value ?e ''ip'' = Some (case sa_ip (se_addr e) of V4 b \<Rightarrow> V_ni b | V6 b \<Rightarrow> V_nj b)"
    "first_value ?e ''port'' = Some (V_np (sa_port (se_addr e)))"
    "first_value ?e ''kind'' = Some (V_u (addr_kind_u64 (se_kind e)) False)" "first_value ?e ''seen'' = Some (V_e (E6 (se_seen e)))"
    by (simp_all add: set_addr_section_def first_value_def get_field_def)
  note k = f [THEN same_section_first_Some [OF rel]]
  have "first_value s ''ip'' = Some (case sa_ip (se_addr e) of V4 b \<Rightarrow> V_ni b | V6 b \<Rightarrow> V_nj b)"
    using k(1) by (cases "sa_ip (se_addr e)") simp_all
  moreover have "first_value s ''port'' = Some (V_np (sa_port (se_addr e)))" using k(2) by simp
  moreover have "ad_uint D s ''kind'' = Some (addr_kind_u64 (se_kind e))" "ad_eagle D s ''seen'' = Some (se_seen e)"
    using D k(3,4) by (auto simp: addr_doc_ok_def)
  ultimately show ?thesis by (cases "sa_ip (se_addr e)") (simp_all add: read_set_addr_def bare_addr_def)
qed

lemma read_set_addrs_of:
  assumes "addr_doc_ok D"
  shows "list_all2 same_section (map set_addr_section entries) secs \<Longrightarrow>
    filter (\<lambda>s. vs_name s = ''addr'') secs = secs \<and> those (map (read_set_addr D) secs) = Some (map bare_addr entries)"
proof (induction entries arbitrary: secs)
  case (Cons e entries)
  then obtain s ss where s: "secs = s # ss" "same_section (set_addr_section e) s" "list_all2 same_section (map set_addr_section entries) ss"
    by (auto simp: list_all2_Cons1)
  have "vs_name s = ''addr''" using s(2) by (simp add: same_section_def set_addr_section_def)
  then show ?case using s(1) read_set_addr_of [OF assms s(2)] Cons.IH [OF s(3)] by simp
qed simp

lemma address_set_reads:
  assumes "addr_doc_keeps D entries blob" and "length entries \<le> ADDRESS_SET_MAX" and "length blob \<le> ADDRESS_SET_BLOB_MAX"
  shows "address_set_entries D blob = Some (freshest_first (map bare_addr entries))"
proof -
  obtain secs where s: "addr_doc_ok D" "ad_verified D blob = Inr ()" "ad_sections D blob = Inr secs"
    "list_all2 same_section (map set_addr_section entries) secs" using assms(1) by (auto simp: addr_doc_keeps_def)
  show ?thesis using assms(2,3) s(2,3) read_set_addrs_of [OF s(1,4)] by (simp add: address_set_entries_def)
qed

lemma freshest_first_sorted: "sorted_wrt (\<lambda>a b. sint (se_seen b) \<le> sint (se_seen a)) (freshest_first es)"
proof -
  have "sorted (map (\<lambda>e. - sint (se_seen e)) (freshest_first es))" by (simp add: freshest_first_def)
  then show ?thesis by (simp add: sorted_map sorted_wrt_iff_nth_less)
qed

text \<open>C30: what a device publishes is what its peers read: the record of a signed address set verifies at every
  policy its eggs satisfy, with the set and the egg blob it was minted with, and the set reads as the
  published addresses, freshest first.\<close>

theorem address_set_published:
  fixes m :: u16 and timestamp :: i64
  assumes "sign_device_address_set W D s m hp entries timestamp = Some (r, blob, sb)" and "ext_ok W"
    and "length hp = 32" and "length (sg_public s) = 32"
    and "\<forall>msg. meets_policy W policy (sg_public s) msg (sg_eggs s msg m)"
    and "addr_doc_keeps D entries sb" and "length sb \<le> ADDRESS_SET_BLOB_MAX"
  shows "verify_address_set_with W D r blob sb policy \<and>
    address_set_entries D sb = Some (freshest_first (map bare_addr entries)) \<and>
    sorted_wrt (\<lambda>a b. sint (se_seen b) \<le> sint (se_seen a)) (freshest_first (map bare_addr entries)) \<and>
    rec_device r = sg_public s \<and> rec_epoch r = timestamp"
proof -
  let ?e = "sg_eggs s (address_set_signing_bytes (new_device_address_set (sg_public s) hp (address_set_ptr W sb) timestamp zero32)) m"
  have d: "length entries \<le> ADDRESS_SET_MAX" "blob = eggs_blob W [?e]"
    "r = new_device_address_set (sg_public s) hp (address_set_ptr W sb) timestamp (eggs_ptr W blob)"
    using assms(1) by (auto simp: sign_device_address_set_def address_set_blob_def Let_def split: option.splits if_splits sum.splits)
  have len: "length (address_set_ptr W sb) = 32" "length (eggs_ptr W blob) = 32" "length zero32 = 32"
    using assms(2) by (simp_all add: address_set_ptr_def eggs_ptr_def ext_ok_def zero32_def)
  note f = device_address_set_fields [OF assms(4,3) len(1,2), of timestamp, folded d(3)]
  note z = device_address_set_fields [OF assms(4,3) len(1,3), of timestamp]
  have msg: "address_set_signing_bytes r
      = address_set_signing_bytes (new_device_address_set (sg_public s) hp (address_set_ptr W sb) timestamp zero32)"
    using f z by (simp add: address_set_signing_bytes_def rec_device_def rec_handle_proof_def)
  have fit: "eggs_fit W ?e" using assms(5) by (simp add: meets_policy_def)
  have "verify_list W r blob 0 1 (sg_public s) (address_set_signing_bytes r) policy"
    unfolding d(2) msg using assms(2,5) fit length_eggs_blob_part [OF fit] f(7) d(2)
    by (intro verify_list_minted) (simp_all add: eggs_fit_def eggs_blob_def EGGS_BLOB_MAX_def)
  moreover note e = address_set_reads [OF assms(6) d(1) assms(7)]
  ultimately have "verify_address_set_with W D r blob sb policy"
    using f assms(7) by (simp add: verify_address_set_with_def)
  then show ?thesis using e f freshest_first_sorted by blast
qed

definition slice_doc_keeps :: "slice_doc \<Rightarrow> (string \<times> vsf list) list \<Rightarrow> string \<Rightarrow> bytes \<Rightarrow> bytes \<Rightarrow> bool" where
  "slice_doc_keeps D inl name body doc \<longleftrightarrow> (\<exists>fs f. sd_verified D doc = Inr fs \<and>
     find (\<lambda>g. tf_name g = name) fs = Some f \<and> unat (tf_offset f) + unat (tf_size f) \<le> length doc \<and> length doc < 2 ^ 64 \<and>
     take (unat (tf_size f)) (drop (unat (tf_offset f)) doc) = body \<and>
     list_all (\<lambda>(n, vs). \<exists>g w ws. find (\<lambda>g. tf_name g = n) fs = Some g \<and> tf_inline g = w # ws \<and> vsf_u64 w = vsf_u64 (hd vs)) inl)"

lemma occupied_count:
  "wf_slice W sl \<Longrightarrow> length (filter (\<lambda>i. \<not> rec_is_empty (slice_at sl i)) [0..<SLICE_SLOTS]) = sl_fill sl"
proof -
  assume w: "wf_slice W sl"
  have "{t. t < SLICE_SLOTS \<and> \<not> rec_is_empty (slice_at sl t)} = occupied W sl"
    by (auto simp: occupied_def keys_at_def rec_key_None)
  moreover have "length (filter P [0..<n]) = card {t. t < n \<and> P t}" for P n
  proof -
    have "set (filter P [0..<n]) = {t. t < n \<and> P t}" by auto
    then show ?thesis using distinct_card [of "filter P [0..<n]"] by simp
  qed
  ultimately show ?thesis using w by (simp add: wf_slice_def)
qed

text \<open>A slice survives its transport: the document of a well-formed slice reads back as that slice, its fill
  recounted from the body and not believed from the header.\<close>

theorem slice_document_roundtrip:
  assumes "wf_slice W sl" and "sl_bits sl \<le> 32" and "slice_to_document D now sl = Inr doc"
    and "slice_doc_keeps D (slice_inline sl) SLICE_SECTION (sl_buf sl) doc"
  shows "slice_from_document D doc = Inr sl"
proof -
  obtain fs f where f: "sd_verified D doc = Inr fs" "find (\<lambda>g. tf_name g = SLICE_SECTION) fs = Some f"
    "unat (tf_offset f) + unat (tf_size f) \<le> length doc" "length doc < 2 ^ 64"
    "take (unat (tf_size f)) (drop (unat (tf_offset f)) doc) = sl_buf sl"
    and inl: "list_all (\<lambda>(n, vs). \<exists>g w ws. find (\<lambda>g. tf_name g = n) fs = Some g \<and> tf_inline g = w # ws \<and> vsf_u64 w = vsf_u64 (hd vs))
      (slice_inline sl)"
    using assms(4) unfolding slice_doc_keeps_def by blast
  have rd: "read_num fs n = Inr x" if "find (\<lambda>g. tf_name g = n) fs = Some g" "tf_inline g = w # ws" "vsf_u64 w = Some x" for n g w ws x
    using that by (simp add: read_num_def)
  have bits: "read_num fs ''slice_bits'' = Inr (ucast (of_nat (sl_bits sl) :: byte))" and i: "read_num fs ''slice_id'' = Inr (ucast (sl_id sl))"
    using inl rd by (auto simp: slice_inline_def)
  have b: "unat (ucast (ucast (of_nat (sl_bits sl) :: byte) :: u64) :: u32) = sl_bits sl"
    using assms(2) by (simp add: unsigned_ucast_eq unsigned_of_nat take_bit_nat_eq_self)
  have "length (sl_buf sl) = SLICE_SLOTS * STRIDE" using assms(1) by (simp add: wf_slice_def slice_layout_def buf_ok_def)
  moreover have "slice_at \<lparr>sl_bits = sl_bits sl, sl_id = sl_id sl, sl_buf = sl_buf sl, sl_fill = 0\<rparr> = slice_at sl"
    by (simp add: fun_eq_iff slice_at_def)
  ultimately have "slice_from_bytes (sl_bits sl) (sl_id sl) (sl_buf sl) = Some sl"
    using occupied_count [OF assms(1)] by (simp add: slice_from_bytes_def Let_def)
  moreover have "ucast (ucast (sl_id sl) :: u64) = sl_id sl"
    by (rule bit_word_eqI) (simp add: bit_simps)
  ultimately show ?thesis
    using f bits i b by (simp add: slice_from_document_def Let_def)
qed

section \<open>Concrete documents\<close>

definition demo_entries :: "set_addr list" where
  "demo_entries = [\<lparr>se_addr = addr_new (V4 [10, 0, 0, 2]) 4383, se_kind = K_Interface, se_seen = 3\<rparr>,
     \<lparr>se_addr = addr_new (V4 [9, 9, 9, 9]) 4383, se_kind = K_Reflexive, se_seen = 5\<rparr>]"

text \<open>A container that gives every kind back as an 8-bit integer.\<close>

definition narrow_addr :: "vsection \<Rightarrow> vsection" where
  "narrow_addr s = s\<lparr>vs_fields := map (\<lambda>f. (fst f, map narrow_value (snd f))) (vs_fields s)\<rparr>"

definition demo_addr_doc :: addr_doc where
  "demo_addr_doc = \<lparr>ad_build = (\<lambda>t s. Inr [9]), ad_verified = (\<lambda>b. Inr ()),
     ad_sections = (\<lambda>b. Inr (map (narrow_addr \<circ> set_addr_section) demo_entries)),
     ad_uint = (\<lambda>s n. case first_value s n of Some v \<Rightarrow> unsigned_of v | None \<Rightarrow> None),
     ad_eagle = (\<lambda>s n. case first_value s n of Some (V_e (E6 k)) \<Rightarrow> Some k | _ \<Rightarrow> None)\<rparr>"

lemma same_section_narrow_addr [simp]: "same_section s (narrow_addr s)"
  by (simp add: same_section_def narrow_addr_def list_all2_map2 list.rel_refl)

lemma demo_addr_keeps: "addr_doc_keeps demo_addr_doc demo_entries [9]"
  by (simp add: addr_doc_keeps_def addr_doc_ok_def demo_addr_doc_def list_all2_map1 list_all2_map2 list.rel_refl)

theorem address_set_published_witness:
  "\<exists>r blob. sign_device_address_set demo_ext demo_addr_doc (demo_device 4) 1 (demo_seed 1) demo_entries 7 = Some (r, blob, [9]) \<and>
     verify_address_set demo_ext demo_addr_doc r blob [9] \<and>
     address_set_entries demo_addr_doc [9] = Some (rev demo_entries)"
proof -
  obtain r blob where r: "sign_device_address_set demo_ext demo_addr_doc (demo_device 4) 1 (demo_seed 1) demo_entries 7 = Some (r, blob, [9])"
    by (simp add: sign_device_address_set_def address_set_blob_def Let_def demo_addr_doc_def demo_entries_def ADDRESS_SET_MAX_def)
  have m: "\<forall>msg. meets_policy demo_ext anchor_only (sg_public (demo_device 4)) msg (sg_eggs (demo_device 4) msg 1)"
    using demo_meets by simp
  have "map bare_addr demo_entries = demo_entries" by (simp add: bare_addr_def demo_entries_def addr_new_def)
  moreover have "freshest_first demo_entries = rev demo_entries" by (simp add: freshest_first_def demo_entries_def)
  ultimately show ?thesis
    using address_set_published [OF r demo_ext_ok _ _ m demo_addr_keeps] r
    by (simp add: verify_address_set_def ADDRESS_SET_BLOB_MAX_def)
qed

definition demo_slice_doc :: slice_doc where
  "demo_slice_doc = \<lparr>sd_build = (\<lambda>t inl n body. Inr body), sd_verified = (\<lambda>d. Inr
     [\<lparr>tf_name = SLICE_SECTION, tf_offset = 0, tf_size = 1048576, tf_inline = []\<rparr>,
      \<lparr>tf_name = ''slice_bits'', tf_offset = 0, tf_size = 0, tf_inline = [V_u6 0]\<rparr>,
      \<lparr>tf_name = ''slice_id'', tf_offset = 0, tf_size = 0, tf_inline = [V_u3 0]\<rparr>,
      \<lparr>tf_name = ''fill'', tf_offset = 0, tf_size = 0, tf_inline = [V_u5 1]\<rparr>])\<rparr>"

theorem slice_document_roundtrip_witness:
  "\<exists>doc. slice_to_document demo_slice_doc 5 demo_slice = Inr doc \<and> slice_from_document demo_slice_doc doc = Inr demo_slice"
proof -
  have g: "wf_slice demo_ext demo_slice" "sl_bits demo_slice \<le> 32" using demo_slice_good by (simp_all add: good_slice_def)
  have s: "sl_bits demo_slice = 0" "sl_id demo_slice = 0" "sl_fill demo_slice = 1"
    using demo_slice_sel by (simp_all add: demo_slice_def)
  have d: "slice_to_document demo_slice_doc 5 demo_slice = Inr (sl_buf demo_slice)"
    by (simp add: slice_to_document_def demo_slice_doc_def)
  have l: "length (sl_buf demo_slice) = 1048576"
    using g(1) by (simp add: wf_slice_def slice_layout_def buf_ok_def SLICE_SLOTS_def STRIDE_def)
  have "slice_doc_keeps demo_slice_doc (slice_inline demo_slice) SLICE_SECTION (sl_buf demo_slice) (sl_buf demo_slice)"
    using l s by (simp add: slice_doc_keeps_def demo_slice_doc_def slice_inline_def SLICE_SECTION_def)
  from slice_document_roundtrip [OF g d this] show ?thesis using d by blast
qed

end
