(* ===== verification/Traverse_Props.thy ===== *)
theory Traverse_Props
  imports Traverse "HOL-Library.Multiset"
begin

text \<open>
  What traversal gives: the candidate set keeps the best claim on each address, the send pair is its top, no
  address the policy forbids is gathered, and the reflexive address is adopted only on trust or quorum.
\<close>

section \<open>Candidate sets\<close>

text \<open>The set is a map from addresses to candidates: adding merges by priority.\<close>

definition cset_at :: "candidate list \<Rightarrow> sock_addr \<Rightarrow> candidate option" where
  "cset_at cs a = find (\<lambda>c. ca_addr c = a) cs"

lemma cset_at_add:
  "cset_at (cset_add c cs) = (cset_at cs)(ca_addr c \<mapsto>
     (case cset_at cs (ca_addr c) of Some e \<Rightarrow> if ca_priority e < ca_priority c then c else e | None \<Rightarrow> c))"
proof (induction cs)
  case (Cons e es)
  then show ?case by (auto simp: cset_at_def fun_eq_iff)
qed (auto simp: cset_at_def fun_eq_iff)

lemma addrs_add: "map ca_addr (cset_add c cs) = (if ca_addr c \<in> ca_addr ` set cs then map ca_addr cs else map ca_addr cs @ [ca_addr c])"
  by (induction cs) auto

lemma set_add: "set (cset_add c cs) \<subseteq> insert c (set cs)"
  by (induction cs) auto

definition candidate_ok :: "candidate \<Rightarrow> bool" where
  "candidate_ok c \<longleftrightarrow> ca_priority c = priority (ca_kind c) (ca_addr c)"

definition cset_ok :: "candidate list \<Rightarrow> bool" where
  "cset_ok cs \<longleftrightarrow> distinct (map ca_addr cs) \<and> list_all candidate_ok cs"

lemma cset_ok_add: "cset_ok cs \<Longrightarrow> candidate_ok c \<Longrightarrow> cset_ok (cset_add c cs)"
  using set_add [of c cs] by (auto simp: cset_ok_def addrs_add list_all_iff)

text \<open>What a gathering offers, in the order of the code, and what it adds up to.\<close>

definition some_list :: "'a option \<Rightarrow> 'a list" where
  "some_list x = (case x of Some y \<Rightarrow> [y] | None \<Rightarrow> [])"

lemma in_some_list [simp]: "c \<in> set (some_list x) \<longleftrightarrow> x = Some c"
  by (cases x) (auto simp: some_list_def)

definition offered :: "peer_endpoint list \<Rightarrow> sock_addr option \<Rightarrow> lan_policy \<Rightarrow> candidate list" where
  "offered eps p2p policy =
     concat (map (\<lambda>ep. some_list (Option.bind (pe_public ep) (public_candidate policy))
       @ some_list (Option.bind (pe_lan ep) (lan_candidate policy))) eps)
     @ some_list (Option.bind p2p p2p_candidate)"

definition add_all :: "candidate list \<Rightarrow> candidate list \<Rightarrow> candidate list" where
  "add_all cs news = foldl (\<lambda>s c. cset_add c s) cs news"

lemma add_all_simps [simp]: "add_all cs [] = cs" "add_all cs (c # news) = add_all (cset_add c cs) news"
  by (simp_all add: add_all_def)

lemma add_all_append: "add_all cs (xs @ ys) = add_all (add_all cs xs) ys"
  by (simp add: add_all_def)

lemma add_some_all: "add_some c cs = add_all cs (some_list c)"
  by (simp add: add_some_def some_list_def split: option.splits)

lemma gather_offered: "gather_peer_candidates eps p2p policy = add_all [] (offered eps p2p policy)"
proof -
  have "foldl (\<lambda>cs ep. gather_endpoint policy ep cs) cs eps =
      add_all cs (concat (map (\<lambda>ep. some_list (Option.bind (pe_public ep) (public_candidate policy))
       @ some_list (Option.bind (pe_lan ep) (lan_candidate policy))) eps))" for cs
    by (induction eps arbitrary: cs) (simp_all add: gather_endpoint_def add_some_all add_all_append)
  then show ?thesis by (simp add: gather_peer_candidates_def offered_def add_some_all add_all_append)
qed

lemma add_all_ok: "cset_ok cs \<Longrightarrow> list_all candidate_ok news \<Longrightarrow> cset_ok (add_all cs news)"
  by (induction news arbitrary: cs) (simp_all add: cset_ok_add)

lemma set_add_all: "set (add_all cs news) \<subseteq> set cs \<union> set news"
proof (induction news arbitrary: cs)
  case (Cons c news)
  show ?case using Cons.IH [of "cset_add c cs"] set_add [of c cs] by auto
qed simp

text \<open>Every offer is represented by a candidate of its address that is at least as good.\<close>

lemma add_dominates:
  "e \<in> set (c # cs) \<Longrightarrow> \<exists>x \<in> set (cset_add c cs). ca_addr x = ca_addr e \<and> ca_priority e \<le> ca_priority x"
  by (induction cs) force+

lemma add_all_dominates:
  "e \<in> set cs \<union> set news \<Longrightarrow> \<exists>x \<in> set (add_all cs news). ca_addr x = ca_addr e \<and> ca_priority e \<le> ca_priority x"
proof (induction news arbitrary: cs e)
  case (Cons c news)
  show ?case
  proof (cases "e \<in> set news")
    case True
    then show ?thesis using Cons.IH by simp
  next
    case False
    with Cons.prems have "e \<in> set (c # cs)" by auto
    then obtain x where x: "x \<in> set (cset_add c cs)" "ca_addr x = ca_addr e" "ca_priority e \<le> ca_priority x"
      using add_dominates by blast
    then obtain y where "y \<in> set (add_all (cset_add c cs) news)" "ca_addr y = ca_addr x" "ca_priority x \<le> ca_priority y"
      using Cons.IH [of x] by blast
    then show ?thesis using x by (auto intro: order_trans)
  qed
qed auto

lemma candidate_new_ok [simp]: "candidate_ok (candidate_new a k)"
  by (simp add: candidate_ok_def candidate_new_def)

lemma offers_ok:
  "public_candidate policy a = Some c \<Longrightarrow> candidate_ok c" "lan_candidate policy a = Some c \<Longrightarrow> candidate_ok c"
  "p2p_candidate a = Some c \<Longrightarrow> candidate_ok c"
  by (auto simp: public_candidate_def lan_candidate_def p2p_candidate_def split: if_splits ip_addr.splits)

lemma offered_ok: "list_all candidate_ok (offered eps p2p policy)"
  by (auto simp: offered_def list_all_iff bind_eq_Some_conv dest: offers_ok)

section \<open>The send pair\<close>

lemma sorted_top:
  assumes "cset_sorted cs = c # rest"
  shows "c \<in> set cs \<and> (\<forall>d \<in> set cs. ca_priority d \<le> ca_priority c)"
proof -
  have "mset (c # rest) = mset cs" using assms by (metis cset_sorted_def mset_sort)
  then have s: "set (c # rest) = set cs" by (metis set_mset_mset)
  have "sorted (map (\<lambda>c. - int (ca_priority c)) (c # rest))" using assms by (metis cset_sorted_def sorted_sort_key)
  then show ?thesis using s by auto
qed

lemma find_map_distinct:
  "distinct (map f (x # xs)) \<Longrightarrow> find (\<lambda>a. a \<noteq> f x) (map f (x # xs)) = (case xs of [] \<Rightarrow> None | y # _ \<Rightarrow> Some (f y))"
  by (cases xs) auto

text \<open>The pair handed to the transport: over what the peer's endpoints offer, the primary is an address whose
  best claim is at least as good as every offer, the alternate is another address whose best claim is at
  least as good as every offer of a third address, and there is a pair whenever anything is offered.\<close>

theorem best_pair_spec:
  assumes "best_pair (gather_peer_candidates eps p2p policy) = Some (p, alt)"
  shows "\<exists>c \<in> set (offered eps p2p policy). ca_addr c = p \<and>
    (\<forall>d \<in> set (offered eps p2p policy). ca_priority d \<le> ca_priority c) \<and>
    (case alt of
       None \<Rightarrow> \<forall>d \<in> set (offered eps p2p policy). ca_addr d = p
     | Some q \<Rightarrow> q \<noteq> p \<and> (\<exists>e \<in> set (offered eps p2p policy). ca_addr e = q \<and>
         (\<forall>d \<in> set (offered eps p2p policy). ca_addr d \<noteq> p \<longrightarrow> ca_priority d \<le> ca_priority e)))"
proof -
  let ?o = "offered eps p2p policy" and ?g = "gather_peer_candidates eps p2p policy"
  have ok: "cset_ok ?g" unfolding gather_offered by (rule add_all_ok) (simp_all add: cset_ok_def offered_ok)
  have sub: "set ?g \<subseteq> set ?o" unfolding gather_offered using set_add_all [of "[]" ?o] by simp
  have dom: "\<exists>x \<in> set ?g. ca_addr x = ca_addr e \<and> ca_priority e \<le> ca_priority x" if "e \<in> set ?o" for e
    unfolding gather_offered using add_all_dominates [of e "[]" ?o] that by simp
  obtain c rest where s: "cset_sorted ?g = c # rest" "p = ca_addr c"
    and alt: "alt = find (\<lambda>a. a \<noteq> ca_addr c) (map ca_addr (c # rest))"
    using assms by (auto simp: best_pair_def split: list.splits)
  have ms: "mset (c # rest) = mset ?g" using s by (metis cset_sorted_def mset_sort)
  then have st: "set (c # rest) = set ?g" by (metis set_mset_mset)
  have "distinct (map ca_addr (c # rest))"
    using ok ms unfolding cset_ok_def by (metis mset_map distinct_count_atmost_1 set_mset_mset)
  note d = find_map_distinct [OF this, folded alt] this
  have srt: "sorted (map (\<lambda>c. - int (ca_priority c)) (c # rest))" using s by (metis cset_sorted_def sorted_sort_key)
  have top: "ca_priority x \<le> ca_priority c" if "x \<in> set ?o" for x
    using dom [OF that] sorted_top [OF s(1)] order_trans by blast
  have c: "c \<in> set ?o" using sub st by auto
  show ?thesis
  proof (cases rest)
    case Nil
    then have g: "set ?g = {c}" using st by simp
    then have "ca_addr x = p" if "x \<in> set ?o" for x using dom [OF that] s(2) by (auto simp: g)
    moreover have n: "alt = None" using d(1) Nil by simp
    ultimately show ?thesis unfolding n option.case using c s(2) top by blast
  next
    case (Cons e rest')
    have "ca_priority x \<le> ca_priority e" if x: "x \<in> set ?o" "ca_addr x \<noteq> p" for x
    proof -
      obtain y where y: "y \<in> set ?g" "ca_addr y = ca_addr x" "ca_priority x \<le> ca_priority y" using dom [OF x(1)] by blast
      have "y \<in> set (c # e # rest')" using y(1) unfolding st [symmetric] Cons .
      moreover have "y \<noteq> c" using y(2) x(2) s(2) by auto
      ultimately have "y \<in> set (e # rest')" by simp
      then have "ca_priority y \<le> ca_priority e" using srt Cons by auto
      then show ?thesis using y(3) by simp
    qed
    moreover have "e \<in> set ?o" "ca_addr e \<noteq> p" using sub d(2) s(2) unfolding st [symmetric] Cons by auto
    moreover have q: "alt = Some (ca_addr e)" using d(1) Cons by simp
    ultimately show ?thesis unfolding q option.case using c s(2) top by blast
  qed
qed

section \<open>What is never gathered\<close>

lemma offered_cases:
  "c \<in> set (offered eps p2p policy) \<longleftrightarrow>
     (\<exists>ep \<in> set eps. Option.bind (pe_public ep) (public_candidate policy) = Some c
        \<or> Option.bind (pe_lan ep) (lan_candidate policy) = Some c)
     \<or> Option.bind p2p p2p_candidate = Some c"
  by (auto simp: offered_def)

lemma admits_not_foreign: "admits (SameSubnetAs ours) b \<Longrightarrow> peer_lan_reachable b ours"
  by (simp add: admits_def split: if_splits)

lemma public_candidate_Some:
  assumes "public_candidate policy a = Some c"
  shows "ca_addr c = a \<and> \<not> is_bogus_addr a \<and> (case sa_ip a of V4 b \<Rightarrow> is_private_ipv4 b \<longrightarrow> admits policy b | V6 _ \<Rightarrow> True)"
  using assms by (auto simp: public_candidate_def candidate_new_def split: if_splits ip_addr.splits)

lemma lan_candidate_Some:
  assumes "lan_candidate policy a = Some c"
  shows "ca_addr c = a \<and> (case sa_ip a of V4 b \<Rightarrow> admits policy b | V6 _ \<Rightarrow> False)"
  using assms by (auto simp: lan_candidate_def candidate_new_def split: if_splits ip_addr.splits)

lemma gathered_without_group:
  assumes "c \<in> set (gather_peer_candidates eps None (SameSubnetAs ours))"
  shows "\<not> is_foreign_peer_lan (ca_addr c) ours \<and> (\<not> is_bogus_addr (ca_addr c) \<or> (\<exists>ep \<in> set eps. pe_lan ep = Some (ca_addr c)))"
proof -
  have "c \<in> set (offered eps None (SameSubnetAs ours))"
    using assms set_add_all [of "[]"] unfolding gather_offered by fastforce
  then consider (pub) ep a where "ep \<in> set eps" "public_candidate (SameSubnetAs ours) a = Some c"
    | (lan) ep a where "ep \<in> set eps" "pe_lan ep = Some a" "lan_candidate (SameSubnetAs ours) a = Some c"
    unfolding offered_cases by (auto simp: bind_eq_Some_conv)
  then show ?thesis
  proof cases
    case pub
    from public_candidate_Some [OF pub(2)] show ?thesis
      using admits_not_foreign by (auto simp: is_foreign_peer_lan_def split: ip_addr.splits)
  next
    case lan
    from lan_candidate_Some [OF lan(3)] show ?thesis
      using admits_not_foreign lan(1,2) by (auto simp: is_foreign_peer_lan_def split: ip_addr.splits)
  qed
qed

lemma gathered_with_group:
  assumes "c \<in> set (gather_peer_candidates eps (Some g) policy)"
  shows "c \<in> set (gather_peer_candidates eps None policy) \<or> ca_addr c = g \<and> ca_kind c = HostV4P2p \<and> \<not> is_bogus_addr g"
proof (cases "p2p_candidate g")
  case None
  then show ?thesis using assms by (simp add: gather_peer_candidates_def add_some_def)
next
  case (Some d)
  have "c = d \<or> c \<in> set (gather_peer_candidates eps None policy)"
    using assms set_add [of d] Some by (auto simp: gather_peer_candidates_def add_some_def)
  then show ?thesis using Some by (auto simp: p2p_candidate_def candidate_new_def split: if_splits)
qed

text \<open>C38: no black holes: with the same-subnet policy, no private address of a foreign LAN is gathered from any
  column of any endpoint, and an address nobody can be reached at comes in through the LAN column only.
  The Wi-Fi Direct group adds at most one candidate, its own address under its own kind, and admits nothing
  else: every other candidate is one that is gathered without the group.\<close>

theorem gather_never_foreign:
  "(\<forall>c \<in> set (gather_peer_candidates eps None (SameSubnetAs ours)).
      \<not> is_foreign_peer_lan (ca_addr c) ours \<and>
      (is_bogus_addr (ca_addr c) \<longrightarrow> (\<exists>ep \<in> set eps. pe_lan ep = Some (ca_addr c)))) \<and>
   (\<forall>g. \<forall>c \<in> set (gather_peer_candidates eps (Some g) (SameSubnetAs ours)).
      c \<in> set (gather_peer_candidates eps None (SameSubnetAs ours)) \<or>
      ca_addr c = g \<and> ca_kind c = HostV4P2p \<and> \<not> is_bogus_addr g)"
  using gathered_without_group gathered_with_group by blast

lemma replicate_4: "replicate 4 x = [x, x, x, x]"
  by (simp add: eval_nat_numeral)

text \<open>The LAN column is the one that is not filtered: a LAN address with port zero is a candidate.\<close>

theorem lan_column_unfiltered:
  "\<exists>ep c. is_bogus_addr (ca_addr c) \<and> c \<in> set (gather_peer_candidates [ep] None AnyUsable)"
proof -
  let ?a = "addr_new (V4 [192, 168, 1, 5]) 0"
  have "is_bogus_addr (ca_addr (candidate_new ?a HostV4Lan))" by (simp add: is_bogus_addr_def addr_new_def candidate_new_def)
  moreover have "candidate_new ?a HostV4Lan \<in> set (gather_peer_candidates [\<lparr>pe_public = None, pe_lan = Some ?a\<rparr>] None AnyUsable)"
    by (simp add: gather_peer_candidates_def gather_endpoint_def add_some_def lan_candidate_def addr_new_def admits_def
        is_usable_lan_ipv4_def replicate_4)
  ultimately show ?thesis by blast
qed

end
