(* ===== verification/Reflexive_Props.thy ===== *)
theory Reflexive_Props
  imports Traverse_Props
begin

text \<open>
  The reflexive address over a history of observations: a step relation with its reachable states, the
  invariant of the vote list, and what an adoption proves about the history.
\<close>

section \<open>Histories\<close>

datatype rx_event = Observed sock_addr bytes bool | Cleared

inductive rx_reach :: "rx_event list \<Rightarrow> reflexive \<Rightarrow> bool" where
  rx_start: "rx_reach [] reflexive_new"
| rx_observe: "rx_reach h s \<Longrightarrow> record_addr a f t s = (b, s') \<Longrightarrow> rx_reach (h @ [Observed a f t]) s'"
| rx_clear: "rx_reach h s \<Longrightarrow> rx_reach (h @ [Cleared]) (reflexive_clear s)"

inductive_cases rx_reach_snocE: "rx_reach (h @ [e]) s"

section \<open>The vote list\<close>

definition votes_ok :: "rx_event list \<Rightarrow> (sock_addr \<times> bytes list) list \<Rightarrow> bool" where
  "votes_ok h votes \<longleftrightarrow> distinct (map fst votes) \<and> length votes \<le> MAX_PENDING \<and>
     (\<forall>(a, vs) \<in> set votes. \<not> is_bogus_addr a \<and> distinct vs \<and> (\<forall>f \<in> set vs. Observed a f False \<in> set h))"

lemma votes_ok_mono: "votes_ok h votes \<Longrightarrow> votes_ok (h @ h') votes"
  by (fastforce simp: votes_ok_def)

lemma votes_ok_filter: "votes_ok h votes \<Longrightarrow> votes_ok h (filter P votes)"
  by (auto simp: votes_ok_def distinct_map_filter intro: le_trans [OF length_filter_le])

lemma votes_ok_tl: "votes_ok h votes \<Longrightarrow> votes_ok h (tl votes)"
  by (cases votes) (auto simp: votes_ok_def)

lemma votes_ok_open:
  assumes "votes_ok h votes" and "\<not> is_bogus_addr a"
  shows "votes_ok h (open_entry a votes)"
proof (cases "a \<in> fst ` set votes")
  case False
  let ?v = "if MAX_PENDING \<le> length votes then tl votes else votes"
  have "votes_ok h ?v" using assms(1) votes_ok_tl by simp
  moreover have "length ?v < MAX_PENDING" using assms(1) by (auto simp: votes_ok_def MAX_PENDING_def)
  moreover have "a \<notin> fst ` set ?v" using False by (cases votes) auto
  ultimately have "votes_ok h (?v @ [(a, [])])" using assms(2) by (auto simp: votes_ok_def)
  then show ?thesis using False by (simp add: open_entry_def)
qed (simp add: open_entry_def assms)

lemma fst_push [simp]: "map fst (push_voter a v votes) = map fst votes"
  by (induction a v votes rule: push_voter.induct) auto

lemma set_push: "(b, vs) \<in> set (push_voter a v votes) \<Longrightarrow>
    (b, vs) \<in> set votes \<or> (b = a \<and> (\<exists>ws. (a, ws) \<in> set votes \<and> vs = (if v \<in> set ws then ws else ws @ [v])))"
  by (induction a v votes rule: push_voter.induct) (auto split: if_splits)

lemma votes_ok_push:
  assumes "votes_ok h votes"
  shows "votes_ok (h @ [Observed a f False]) (push_voter a f votes)"
proof -
  have "length (push_voter a f votes) = length votes" by (metis fst_push length_map)
  moreover have "\<not> is_bogus_addr b \<and> distinct vs \<and> (\<forall>g \<in> set vs. Observed b g False \<in> set (h @ [Observed a f False]))"
    if "(b, vs) \<in> set (push_voter a f votes)" for b vs
  proof -
    have v: "\<not> is_bogus_addr b \<and> distinct ws \<and> (\<forall>g \<in> set ws. Observed b g False \<in> set h)" if "(b, ws) \<in> set votes" for b ws
      using assms that by (auto simp: votes_ok_def)
    show ?thesis using set_push [OF that]
    proof (elim disjE conjE exE)
      fix ws assume "b = a" "(a, ws) \<in> set votes" "vs = (if f \<in> set ws then ws else ws @ [f])"
      then show ?thesis using v [of a ws] by simp
    qed (use v in auto)
  qed
  ultimately show ?thesis using assms unfolding votes_ok_def by auto
qed

lemma votes_ok_cast: "votes_ok h votes \<Longrightarrow> \<not> is_bogus_addr a \<Longrightarrow> votes_ok (h @ [Observed a f False]) (cast_vote a f votes)"
  by (simp add: cast_vote_def votes_ok_open votes_ok_push)

lemma quorum_other:
  assumes "votes_ok (h @ [Observed a f False]) votes" and "QUORUM \<le> length (voters a votes)"
  shows "\<exists>g. g \<noteq> f \<and> Observed a g False \<in> set h"
proof -
  obtain vs where vs: "map_of votes a = Some vs" "2 \<le> length vs"
    using assms(2) by (cases "map_of votes a") (auto simp: voters_def QUORUM_def)
  then have v: "distinct vs" "\<forall>g \<in> set vs. Observed a g False \<in> set (h @ [Observed a f False])"
    using assms(1) map_of_SomeD [OF vs(1)] by (auto simp: votes_ok_def)
  have "\<not> set vs \<subseteq> {f}"
  proof
    assume "set vs \<subseteq> {f}"
    then have "card (set vs) \<le> 1" using card_mono [of "{f}" "set vs"] by simp
    then show False using distinct_card [OF v(1)] vs(2) by simp
  qed
  then show ?thesis using v(2) by auto
qed

section \<open>The invariant\<close>

definition rx_ok :: "rx_event list \<Rightarrow> reflexive \<Rightarrow> bool" where
  "rx_ok h s \<longleftrightarrow> votes_ok h (rx_votes s) \<and>
     (\<forall>a. rx_v4 s = Some a \<longrightarrow> \<not> is_ipv6 a \<and> \<not> is_bogus_addr a) \<and>
     (\<forall>a. rx_v6 s = Some a \<longrightarrow> is_ipv6 a \<and> \<not> is_bogus_addr a)"

lemma rx_slot_votes [simp]: "rx_slot a (s\<lparr>rx_votes := v\<rparr>) = rx_slot a s"
  by (simp add: rx_slot_def)

lemma adopt_addr_ok: "rx_ok h s \<Longrightarrow> \<not> is_bogus_addr a \<Longrightarrow> adopt_addr a s = (b, s') \<Longrightarrow> rx_ok h s'"
  by (auto simp: adopt_addr_def rx_ok_def votes_ok_filter split: if_splits)

lemma record_addr_ok:
  assumes "rx_ok h s" and "record_addr a f t s = (b, s')"
  shows "rx_ok (h @ [Observed a f t]) s'"
proof (cases "is_bogus_addr a \<or> t")
  case True
  have "rx_ok (h @ [Observed a f t]) s" using assms(1) by (simp add: rx_ok_def votes_ok_mono)
  then show ?thesis using assms(2) True adopt_addr_ok by (auto simp: record_addr_def split: if_splits)
next
  case False
  let ?s = "s\<lparr>rx_votes := cast_vote a f (rx_votes s)\<rparr>"
  have "rx_ok (h @ [Observed a f t]) ?s" using assms(1) False by (simp add: rx_ok_def votes_ok_cast)
  then show ?thesis using assms(2) False adopt_addr_ok by (auto simp: record_addr_def Let_def split: if_splits)
qed

lemma rx_reach_ok: "rx_reach h s \<Longrightarrow> rx_ok h s"
proof (induction rule: rx_reach.induct)
  case rx_start
  then show ?case by (simp add: rx_ok_def reflexive_new_def votes_ok_def)
next
  case (rx_observe h s a f t b s')
  then show ?case by (simp add: record_addr_ok)
next
  case (rx_clear h s)
  then show ?case by (simp add: rx_ok_def reflexive_clear_def votes_ok_def)
qed

text \<open>C37: whatever anyone reports, in any order: at most eight addresses are pending, each once and each with
  distinct sources, and an adopted address is in the slot of its family and is one that can be reached.\<close>

theorem reflexive_bounded:
  assumes "rx_reach h s"
  shows "length (rx_votes s) \<le> 8 \<and> distinct (map fst (rx_votes s)) \<and> (\<forall>e \<in> set (rx_votes s). distinct (snd e)) \<and>
    (\<forall>a. rx_v4 s = Some a \<longrightarrow> \<not> is_ipv6 a \<and> \<not> is_bogus_addr a) \<and>
    (\<forall>a. rx_v6 s = Some a \<longrightarrow> is_ipv6 a \<and> \<not> is_bogus_addr a)"
  using rx_reach_ok [OF assms] by (auto simp: rx_ok_def votes_ok_def MAX_PENDING_def)

section \<open>Adoption\<close>

lemma adopt_addr_Some:
  "adopt_addr a s = (Some b, s') \<Longrightarrow> b = a \<and> rx_slot a s' = Some a \<and> rx_slot a s \<noteq> Some a \<and>
     (is_lan_scope (sa_ip a) \<longrightarrow> (case rx_slot a s of Some held \<Rightarrow> is_lan_scope (sa_ip held) | None \<Rightarrow> True))"
  by (auto simp: adopt_addr_def rx_slot_def split: if_splits option.splits)

text \<open>C36: no single liar poisons the published address: an address is adopted only when a trusted peer reported it
  or two different devices did, it is one that can be reached, and an address of a LAN never replaces one
  the internet sees.\<close>

theorem reflexive_quorum:
  assumes "rx_reach h s" and "record_addr a f t s = (Some b, s')"
  shows "b = a \<and> \<not> is_bogus_addr a \<and> rx_slot a s' = Some a \<and>
    (t \<or> (\<exists>g. g \<noteq> f \<and> Observed a g False \<in> set h)) \<and>
    (is_lan_scope (sa_ip a) \<longrightarrow> (case rx_slot a s of Some held \<Rightarrow> is_lan_scope (sa_ip held) | None \<Rightarrow> True))"
proof -
  have nb: "\<not> is_bogus_addr a" using assms(2) by (auto simp: record_addr_def)
  show ?thesis
  proof (cases t)
    case True
    then show ?thesis using assms(2) nb adopt_addr_Some [of a s b s'] by (simp add: record_addr_def)
  next
    case False
    let ?v = "cast_vote a f (rx_votes s)"
    have q: "QUORUM \<le> length (voters a ?v)" and ad: "adopt_addr a (s\<lparr>rx_votes := ?v\<rparr>) = (Some b, s')"
      using assms(2) nb False by (auto simp: record_addr_def Let_def split: if_splits)
    have "votes_ok (h @ [Observed a f False]) ?v"
      using rx_reach_ok [OF assms(1)] nb by (simp add: rx_ok_def votes_ok_cast)
    from quorum_other [OF this q] adopt_addr_Some [OF ad] nb show ?thesis by simp
  qed
qed

text \<open>The bound is on the addresses, not on the voters of one: an adopted address keeps collecting a voter per
  untrusted report, without end.\<close>

theorem adopted_address_collects_voters:
  assumes "rx_slot a s = Some a" and "rx_votes s = []" and "\<not> is_bogus_addr a" and "distinct fs" and "fs \<noteq> []"
  shows "rx_votes (foldl (\<lambda>s f. snd (record_addr a f False s)) s fs) = [(a, fs)]"
proof -
  have keep: "record_addr a f False u = (None, u\<lparr>rx_votes := cast_vote a f (rx_votes u)\<rparr>)" if "rx_slot a u = Some a" for u f
    using that assms(3) by (auto simp: record_addr_def adopt_addr_def Let_def rx_slot_def)
  have "rx_slot a (foldl (\<lambda>s f. snd (record_addr a f False s)) s fs) = Some a \<and>
      rx_votes (foldl (\<lambda>s f. snd (record_addr a f False s)) s fs) = (if fs = [] then [] else [(a, fs)])"
    using assms(4)
  proof (induction fs rule: rev_induct)
    case Nil
    then show ?case using assms(1,2) by simp
  next
    case (snoc f fs)
    then show ?case using keep by (auto simp: cast_vote_def open_entry_def MAX_PENDING_def rx_slot_def)
  qed
  then show ?thesis using assms(5) by simp
qed

section \<open>Concrete inputs\<close>

definition demo_home :: sock_addr where "demo_home = addr_new (V4 [192, 168, 0, 9]) 4383"
definition demo_wan :: sock_addr where "demo_wan = addr_new (V4 [9, 9, 9, 9]) 4383"

lemma demo_addrs: "sa_ip demo_home = V4 [192, 168, 0, 9]" "sa_ip demo_wan = V4 [9, 9, 9, 9]"
  "\<not> is_bogus_addr demo_home" "\<not> is_bogus_addr demo_wan"
  by (simp_all add: demo_home_def demo_wan_def addr_new_def is_bogus_addr_def replicate_4)

lemma demo_ne: "demo_wan \<noteq> demo_home"
  using demo_addrs(1,2) by force

lemma demo_vote: "record_addr demo_wan [1] False reflexive_new = (None, reflexive_new\<lparr>rx_votes := [(demo_wan, [[1]])]\<rparr>)"
  by (simp add: record_addr_def demo_addrs Let_def cast_vote_def open_entry_def reflexive_new_def MAX_PENDING_def voters_def QUORUM_def)

lemma demo_voted: "rx_reach [Observed demo_wan [1] False] (reflexive_new\<lparr>rx_votes := [(demo_wan, [[1]])]\<rparr>)"
  using rx_observe [OF rx_start demo_vote] by simp

theorem reflexive_bounded_witness:
  "length (rx_votes (reflexive_new\<lparr>rx_votes := [(demo_wan, [[1]])]\<rparr>)) \<le> 8"
  using reflexive_bounded [OF demo_voted] by simp

theorem reflexive_quorum_witness:
  "\<exists>s. record_addr demo_wan [2] False (reflexive_new\<lparr>rx_votes := [(demo_wan, [[1]])]\<rparr>) = (Some demo_wan, s) \<and>
     rx_slot demo_wan s = Some demo_wan"
proof -
  obtain s where s: "record_addr demo_wan [2] False (reflexive_new\<lparr>rx_votes := [(demo_wan, [[1]])]\<rparr>) = (Some demo_wan, s)"
    by (simp add: record_addr_def demo_addrs Let_def cast_vote_def open_entry_def reflexive_new_def voters_def QUORUM_def
        adopt_addr_def rx_slot_def)
  from reflexive_quorum [OF demo_voted s] s show ?thesis by blast
qed

theorem adopted_address_collects_voters_witness:
  "rx_votes (foldl (\<lambda>s f. snd (record_addr demo_wan f False s)) (reflexive_new\<lparr>rx_v4 := Some demo_wan\<rparr>) [[1], [2], [3]])
     = [(demo_wan, [[1], [2], [3]])]"
  by (rule adopted_address_collects_voters) (simp_all add: rx_slot_def demo_addrs reflexive_new_def)

text \<open>A peer at home on our subnet, with a public address as well.\<close>

definition demo_peer :: peer_endpoint where
  "demo_peer = \<lparr>pe_public = Some demo_wan, pe_lan = Some demo_home\<rparr>"

abbreviation demo_policy :: lan_policy where
  "demo_policy \<equiv> SameSubnetAs (Some [192, 168, 0, 2])"

lemma demo_gather: "gather_peer_candidates [demo_peer] None demo_policy = [candidate_new demo_wan Reflexive, candidate_new demo_home HostV4Lan]"
proof -
  have "public_candidate demo_policy demo_wan = Some (candidate_new demo_wan Reflexive)"
    by (simp add: public_candidate_def demo_addrs is_private_ipv4_def public_kind_def)
  moreover have "lan_candidate demo_policy demo_home = Some (candidate_new demo_home HostV4Lan)"
    by (simp add: lan_candidate_def demo_addrs admits_def is_usable_lan_ipv4_def peer_lan_reachable_def replicate_4)
  ultimately show ?thesis using demo_ne
    by (simp add: gather_peer_candidates_def gather_endpoint_def add_some_def demo_peer_def candidate_new_def)
qed

theorem gather_never_foreign_witness:
  "\<not> is_foreign_peer_lan demo_home (Some [192, 168, 0, 2])"
proof -
  have "candidate_new demo_home HostV4Lan \<in> set (gather_peer_candidates [demo_peer] None demo_policy)" by (simp add: demo_gather)
  with gather_never_foreign [of "[demo_peer]" "Some [192, 168, 0, 2]"] show ?thesis by (auto simp: candidate_new_def)
qed

theorem best_pair_spec_witness:
  "best_pair (gather_peer_candidates [demo_peer] None demo_policy) = Some (demo_home, Some demo_wan) \<and> demo_wan \<noteq> demo_home"
proof -
  have p: "best_pair (gather_peer_candidates [demo_peer] None demo_policy) = Some (demo_home, Some demo_wan)"
    using demo_ne by (simp add: demo_gather best_pair_def cset_sorted_def candidate_new_def demo_addrs)
  have "demo_wan \<noteq> demo_home" using best_pair_spec [OF p] unfolding option.case by blast
  with p show ?thesis by blast
qed

end
