(* ===== verification/Frames_Props.thy ===== *)
theory Frames_Props
  imports Frames Client_Chain Reflexive_Props
begin

text \<open>
  What the frames give: they read back as they were written, a join request built here is the one the
  sponsor reads and accepts, and the approval words are always three.
\<close>

section \<open>Laws of the container\<close>

text \<open>A frame built and signed by \<open>key\<close> verifies, names its signer and keeps its section, integers at the
  width that fits; a time field reads back.\<close>

definition frame_keeps :: "ext \<Rightarrow> frame_doc \<Rightarrow> signer \<Rightarrow> i64 \<Rightarrow> vsection \<Rightarrow> bool" where
  "frame_keeps W D key now sec \<longleftrightarrow>
     (\<forall>doc. signed_frame W D sec key now = Inr doc \<longrightarrow>
        vd_read_verified (fd_doc D) doc = Inr () \<and> (\<exists>sec'. vd_primary (fd_doc D) doc = Inr sec' \<and> same_section sec sec') \<and>
        fd_signer D doc = Inr (sg_public key))"

definition eagle_ok :: "frame_doc \<Rightarrow> bool" where
  "eagle_ok D \<longleftrightarrow> (\<forall>sec n t. first_value sec n = Some (V_e (E6 t)) \<longrightarrow> fd_eagle D sec n = Some t)"

lemma open_named_of:
  "frame_keeps W D key now sec \<Longrightarrow> signed_frame W D sec key now = Inr doc \<Longrightarrow>
     \<exists>sec'. open_named D doc (vs_name sec) = Inr (sec', sg_public key) \<and> same_section sec sec'"
  by (auto simp: frame_keeps_def open_named_def open_frame_def same_section_def)

lemma kept_value:
  "same_section s s' \<Longrightarrow> first_value s n = Some v \<Longrightarrow> (\<And>v'. same_value v v' \<Longrightarrow> v' = v) \<Longrightarrow> first_value s' n = Some v"
  using same_section_first_Some by blast

lemma kept_option:
  "same_section s s' \<Longrightarrow> first_value s n = map_option f x \<Longrightarrow> (\<And>y v'. same_value (f y) v' \<Longrightarrow> v' = f y) \<Longrightarrow>
     first_value s' n = map_option f x"
  by (cases x) (auto dest: same_section_first_None kept_value)

lemma first_value_simps [simp]:
  "first_value \<lparr>vs_name = n, vs_fields = []\<rparr> k = None"
  "first_value \<lparr>vs_name = n, vs_fields = (k', v # vs) # fs\<rparr> k =
     (if k' = k then Some v else first_value \<lparr>vs_name = n, vs_fields = fs\<rparr> k)"
  by (simp_all add: first_value_def get_field_def)

section \<open>The stream frame\<close>

text \<open>C39: the stream codec is exact: a byte string reads as a frame when, and only when, it is what the encoder
  writes for that frame, with a 16-byte connection id.\<close>

theorem rd_frame_exact:
  "rd_decode bs = Some f \<longleftrightarrow> length (rd_conn f) = 16 \<and> bs = rd_encode f"
proof
  assume d: "rd_decode bs = Some f"
  then have l: "29 \<le> length bs" "take 4 bs = RD_MAGIC" by (auto simp: rd_decode_def RD_HEADER_LEN_def split: if_splits)
  have f: "f = \<lparr>rd_conn = take 16 (drop 4 bs), rd_seq = u64_of_be (take 8 (drop 20 bs)), rd_flags = bs ! 28, rd_data = drop 29 bs\<rparr>"
    using d by (auto simp: rd_decode_def RD_HEADER_LEN_def split: if_splits)
  have "u64_be (u64_of_be (take 8 (drop 20 bs))) = take 8 (drop 20 bs)"
  proof -
    have len: "length (take 8 (drop 20 bs)) = 8" using l(1) by simp
    show ?thesis using be_enc_dec [OF len] le_dec_bound [of "rev (take 8 (drop 20 bs))"] len
      by (simp add: u64_be_def u64_of_be_def be_dec_def unat_of_nat)
  qed
  moreover have "bs = take 4 bs @ take 16 (drop 4 bs) @ take 8 (drop 20 bs) @ [bs ! 28] @ drop 29 bs"
  proof -
    have "drop 28 bs = bs ! 28 # drop 29 bs" using l(1) Cons_nth_drop_Suc [of 28 bs] by simp
    then have "take 8 (drop 20 bs) @ [bs ! 28] @ drop 29 bs = drop 20 bs"
      using append_take_drop_id [of 8 "drop 20 bs"] by simp
    moreover have "take 16 (drop 4 bs) @ drop 20 bs = drop 4 bs" using append_take_drop_id [of 16 "drop 4 bs"] by simp
    ultimately show ?thesis using append_take_drop_id [of 4 bs] by metis
  qed
  ultimately show "length (rd_conn f) = 16 \<and> bs = rd_encode f"
    using l by (simp add: f rd_encode_def)
next
  assume e: "length (rd_conn f) = 16 \<and> bs = rd_encode f"
  have m: "length RD_MAGIC = 4" by (simp add: RD_MAGIC_def)
  have "length (u64_be (rd_seq f)) = 8" by simp
  then show "rd_decode bs = Some f" using e m
    by (simp add: rd_decode_def rd_encode_def RD_HEADER_LEN_def nth_append)
qed

section \<open>Punch messages\<close>

definition addr_ok :: "sock_addr \<Rightarrow> bool" where
  "addr_ok a \<longleftrightarrow> (case sa_ip a of V4 b \<Rightarrow> length b = 4 | V6 b \<Rightarrow> length b = 16)"

lemma socketaddr_roundtrip: "addr_ok a \<Longrightarrow> bytes_to_socketaddr (socketaddr_to_bytes a) = Some (addr_new (sa_ip a) (sa_port a))"
  by (auto simp: addr_ok_def socketaddr_to_bytes_def bytes_to_socketaddr_def split: ip_addr.splits)

definition punch_ok :: "punch_message \<Rightarrow> bool" where
  "punch_ok m \<longleftrightarrow> length (pm_pubkey m) = 32 \<and> length (pm_provenance m) = 32 \<and> length (pm_signature m) = 64 \<and>
     (case m of Probe _ _ _ _ \<Rightarrow> True | ProbeAck _ _ _ _ a \<Rightarrow> addr_ok a)"

definition punch_keeps :: "frame_doc \<Rightarrow> punch_message \<Rightarrow> bool" where
  "punch_keeps D m \<longleftrightarrow> (\<forall>bs. punch_to_vsf D m = Inr bs \<longrightarrow>
     4 \<le> length bs \<and> take 4 bs = VSF_MAGIC \<and> vd_primary (fd_doc D) bs = Inr (punch_section m) \<and>
     fd_decode D bs = Inr \<lparr>fh_time = Some (V_e (E6 (pm_timestamp m))), fh_provenance = V_hp (pm_provenance m),
       fh_signer = Some (V_ke (pm_pubkey m)), fh_signature = Some (V_ge (pm_signature m))\<rparr>)"

text \<open>The message a reader gets: the scope of an IPv6 address stays behind.\<close>

definition unscoped :: "punch_message \<Rightarrow> punch_message" where
  "unscoped m = (case m of ProbeAck t pk prov sig a \<Rightarrow> ProbeAck t pk prov sig (addr_new (sa_ip a) (sa_port a)) | _ \<Rightarrow> m)"

lemma punch_reads:
  assumes "punch_ok m" and "punch_keeps D m" and "punch_to_vsf D m = Inr bs"
  shows "punch_from_vsf D bs = Inr (Some (unscoped m))"
proof -
  have k: "\<not> length bs < 4" "take 4 bs = VSF_MAGIC" "vd_primary (fd_doc D) bs = Inr (punch_section m)"
    "fd_decode D bs = Inr \<lparr>fh_time = Some (V_e (E6 (pm_timestamp m))), fh_provenance = V_hp (pm_provenance m),
       fh_signer = Some (V_ke (pm_pubkey m)), fh_signature = Some (V_ge (pm_signature m))\<rparr>"
    using assms(2,3) by (auto simp: punch_keeps_def not_less)
  show ?thesis
  proof (cases m)
    case (Probe t pk prov sig)
    then show ?thesis using assms(1) k
      by (simp add: punch_from_vsf_def punch_section_def punch_ok_def unscoped_def header_timestamp_def header_pubkey_def
          header_provenance_def header_signature_def)
  next
    case (ProbeAck t pk prov sig a)
    then show ?thesis using assms(1) k socketaddr_roundtrip [of a]
      by (simp add: punch_from_vsf_def punch_section_def punch_ok_def unscoped_def header_timestamp_def header_pubkey_def
          header_provenance_def header_signature_def observed_addr_def)
  qed
qed

section \<open>Relay envelopes\<close>

definition relay_keeps :: "ext \<Rightarrow> frame_doc \<Rightarrow> signer \<Rightarrow> i64 \<Rightarrow> vsection \<Rightarrow> bool" where
  "relay_keeps W D key now sec \<longleftrightarrow>
     (\<forall>u doc. vd_build_signed (fd_doc D) now (sg_public key) (reserve_eggs W (envelope_mask W key)) sec = Inr u \<and>
        sign_envelope W (fd_doc D) u key = Inr doc \<longrightarrow>
        (\<exists>h fh. vd_header_eggs (fd_doc D) doc = Inr (sg_public key, sg_eggs key fh (envelope_mask W key), fh) \<and>
           fd_decode D doc = Inr h \<and> vd_primary (fd_doc D) doc = Inr sec))"

text \<open>Datagrams and envelopes arrive as they were sent: a punch message reads back as itself (an IPv6 scope
  apart), and a relayed payload peels to the sender's key and the payload, never for an empty one.\<close>

theorem transport_frames_roundtrip:
  assumes "punch_ok m" and "punch_keeps D m" and "punch_to_vsf D m = Inr bs"
    and "relay_keeps W D key now (relay_section recipient svc payload)"
    and "build_relay_envelope W (fd_doc D) key recipient svc payload now = Inr doc"
  shows "punch_from_vsf D bs = Inr (Some (unscoped m)) \<and> peel_relay_envelope D doc = Some (sg_public key, payload) \<and> payload \<noteq> []"
proof -
  obtain u where u: "payload \<noteq> []"
    "vd_build_signed (fd_doc D) now (sg_public key) (reserve_eggs W (envelope_mask W key)) (relay_section recipient svc payload) = Inr u"
    "sign_envelope W (fd_doc D) u key = Inr doc"
    using assms(5) by (auto simp: build_relay_envelope_def try_elims split: if_splits)
  then obtain h fh where h: "vd_header_eggs (fd_doc D) doc = Inr (sg_public key, sg_eggs key fh (envelope_mask W key), fh)"
    "fd_decode D doc = Inr h" "vd_primary (fd_doc D) doc = Inr (relay_section recipient svc payload)"
    using assms(4) unfolding relay_keeps_def by blast
  have "first_value (relay_section recipient svc payload) ''payload'' = Some (V_v 0x72 payload)"
    by (simp add: relay_section_def)
  then have "peel_relay_envelope D doc = Some (sg_public key, payload)"
    using h u(1) by (simp add: peel_relay_envelope_def peel_relay_envelope_eggs_def)
  then show ?thesis using punch_reads [OF assms(1-3)] u(1) by blast
qed

section \<open>Joining\<close>

definition join_subject :: "ext \<Rightarrow> signer \<Rightarrow> key_bundle" where
  "join_subject W key = (case sg_bundle key of Some b \<Rightarrow> b | None \<Rightarrow> ed25519_only W (sg_public key))"

lemma bind_req_reads:
  assumes W: "ext_ok W" "conv_ok C" "eagle_ok D" and r: "length (br_device r) = 32" "br_device r = sg_public key"
    "wf_eggs (br_device_sig r)" "case br_bundle r of Some b \<Rightarrow> wf_bundle W b | None \<Rightarrow> True"
    "case br_plate r of Some p \<Rightarrow> length p = 32 | None \<Rightarrow> True" "length (br_nfc_hash r) = 32" and hp: "length hp = 32"
    and k: "frame_keeps W D key now (bind_req_section W r hp)" and d: "bind_req W D r hp key now = Inr doc"
  shows "parse_bind_req W C D err doc = Inr (hp, r, sg_public key)"
proof -
  let ?b = "bind_req_section W r hp"
  obtain s where o: "open_named D doc ''bind_req'' = Inr (s, sg_public key)" and rel: "same_section ?b s"
    using open_named_of [OF k] d by (auto simp: bind_req_def) (auto simp: bind_req_section_def)
  have fs: "first_value ?b ''hp'' = Some (V_hP hp)" "first_value ?b ''dk'' = Some (V_ke (br_device r))"
    "first_value ?b ''t'' = Some (V_e (E6 (br_t r)))" "first_value ?b ''ds'' = Some (V_ge (eggs_to_bytes W (br_device_sig r)))"
    "first_value ?b ''is'' = Some (V_ge (br_identity_sig r))" "first_value ?b ''nh'' = Some (V_hb (br_nfc_hash r))"
    by (cases "br_bundle r"; cases "br_plate r"; simp add: bind_req_section_def)+
  have os: "first_value ?b ''kb'' = map_option (\<lambda>b. V_ge (bundle_to_bytes b)) (br_bundle r)"
    "first_value ?b ''pl'' = map_option V_hb (br_plate r)"
    "first_value ?b ''pk'' = (if br_plate_kind r \<noteq> UNSTATED then Some (V_u (ucast (br_plate_kind r)) False) else None)"
    by (cases "br_bundle r"; cases "br_plate r"; simp add: bind_req_section_def)+
  note kept = fs [THEN kept_value [OF rel], simplified] os(1,2) [THEN kept_option [OF rel], simplified]
  have t: "fd_eagle D s ''t'' = Some (br_t r)" using W(3) kept by (simp add: eagle_ok_def)
  have hp': "field_handle_proof s ''hp'' = Some hp" "field_ge s ''is'' = Some (br_identity_sig r)"
    using hp kept by (simp_all add: field_handle_proof_def field_ge_def)
  have pk: "(case first_value s ''pk'' of Some v \<Rightarrow> ok_or e (as_u8 C v) | None \<Rightarrow> Inr UNSTATED) = Inr (br_plate_kind r)" for e
  proof (cases "br_plate_kind r = UNSTATED")
    case True
    then show ?thesis using same_section_first_None [OF rel, of "''pk''"] os(3) by simp
  next
    case False
    then obtain v where v: "first_value s ''pk'' = Some v" "unsigned_of v = Some (ucast (br_plate_kind r))"
      using same_section_first_Some [OF rel, of "''pk''"] os(3) by fastforce
    show ?thesis using small_read [OF W(2) v(2)] by (simp add: v(1))
  qed
  have "eggs_from_bytes W (eggs_to_bytes W (br_device_sig r)) = Some (br_device_sig r)" using W(1) r(3) by (simp add: ext_ok_def)
  moreover have "bundle_from_bytes W (bundle_to_bytes b) = Inr b" if "br_bundle r = Some b" for b
    using bundle_roundtrip [OF W(1)] r(4) that by simp
  ultimately show ?thesis
    using r by (cases "br_bundle r"; cases "br_plate r") (simp_all add: parse_bind_req_def o t kept hp' pk Let_def)
qed

lemma join_request_reads:
  assumes "ext_ok W" and "ext_sign_ok W" and "conv_ok C" and "eagle_ok D" and "length hp = 32"
    and "signer_ok W key (join_subject W key) (bundle_mask (join_subject W key))"
    and "\<forall>msg m. wf_eggs (sg_eggs key msg m)" and "case plate of Some p \<Rightarrow> length p = 32 | None \<Rightarrow> True"
    and "r = bind_request_plated W key identity_seed hp t nfc_secret plate plate_k"
    and "frame_keeps W D key now (bind_req_section W r hp)" and "bind_req W D r hp key now = Inr doc"
  shows "parse_bind_req W C D err doc = Inr (hp, r, sg_public key) \<and>
    bind_request_verify W r hp (ed_public W identity_seed)"
proof -
  have wf: "case sg_bundle key of Some b \<Rightarrow> wf_bundle W b | None \<Rightarrow> True"
    using assms(6) by (auto simp: signer_ok_def join_subject_def split: option.splits)
  have "length (sg_public key) = 32" using assms(6) by (simp add: signer_ok_def)
  moreover have "length (br_nfc_hash r) = 32" using assms(1)
    by (simp add: assms(9) bind_request_plated_def Let_def nfc_secret_hash_def ext_ok_def)
  ultimately have "parse_bind_req W C D err doc = Inr (hp, r, sg_public key)"
    using assms wf by (intro bind_req_reads [where now = now]) (simp_all add: bind_request_plated_def Let_def)
  moreover have "bind_request_verify W r hp (ed_public W identity_seed)"
    using assms(2,6) unfolding assms(9)
    by (cases "sg_bundle key")
      (simp_all add: bind_request_verify_def bind_request_plated_def Let_def signer_ok_def join_subject_def
        verify_ed25519_def ext_sign_ok_def)
  ultimately show ?thesis by blast
qed

text \<open>C21: joining, end to end: the request a device builds and sends is, byte for byte of its fields, the request
  the sponsor reads, it names the sending device, and it passes the sponsor's verification under the
  identity key.\<close>

theorem join_request_accepted:
  assumes "ext_ok W" and "ext_sign_ok W" and "conv_ok C" and "eagle_ok D" and "length hp = 32"
    and "signer_ok W key (join_subject W key) (bundle_mask (join_subject W key))"
    and "\<forall>msg m. wf_eggs (sg_eggs key msg m)" and "case plate of Some p \<Rightarrow> length p = 32 | None \<Rightarrow> True"
    and "r = bind_request_plated W key identity_seed hp t nfc_secret plate plate_k"
    and "frame_keeps W D key now (bind_req_section W r hp)" and "bind_req W D r hp key now = Inr doc"
  shows "parse_bind_req W C D err doc = Inr (hp, r, sg_public key) \<and>
    bind_request_verify W r hp (ed_public W identity_seed)"
  by (rule join_request_reads [OF assms])

section \<open>Leaving\<close>

lemma depart_req_reads:
  assumes e: "eagle_ok D" and c: "conv64_ok C" and w: "case dr_words_commit r of Some x \<Rightarrow> length x = 32 | None \<Rightarrow> True"
    and k: "frame_keeps W D key now (depart_req_section r)" and d: "depart_req_frame W D r key now = Inr doc"
  shows "parse_depart_req C D doc = Inr (r, sg_public key)"
proof -
  let ?b = "depart_req_section r"
  obtain s where o: "open_named D doc ''depart_req'' = Inr (s, sg_public key)" and rel: "same_section ?b s"
    using open_named_of [OF k] d by (auto simp: depart_req_frame_def) (auto simp: depart_req_section_def)
  have fs: "first_value ?b ''t'' = Some (V_e (E6 (dr_t r)))" "first_value ?b ''cs'' = Some (V_ge (dr_consent_sig r))"
    by (simp_all add: depart_req_section_def)
  have os: "first_value ?b ''it'' = (if dr_intent r \<noteq> 0 then Some (V_u (ucast (dr_intent r)) False) else None)"
    "first_value ?b ''wc'' = map_option V_hp (dr_words_commit r)"
    by (cases "dr_words_commit r"; simp add: depart_req_section_def)+
  note kept = fs [THEN kept_value [OF rel], simplified] os(2) [THEN kept_option [OF rel], simplified]
  have t: "fd_eagle D s ''t'' = Some (dr_t r)" and cs: "field_ge s ''cs'' = Some (dr_consent_sig r)"
    using e kept by (simp_all add: eagle_ok_def field_ge_def)
  have "unat (dr_intent r) < 2 ^ LENGTH(8)" by (rule unsigned_less)
  then have u: "unat (ucast (dr_intent r) :: u64) < 256" by (simp add: unsigned_ucast_eq take_bit_nat_eq_self)
  have it: "(case Option.bind (first_value s ''it'') (as_u64 C) of Some n \<Rightarrow> if unat n < 256 then ucast n else 0 | None \<Rightarrow> 0)
      = dr_intent r"
  proof (cases "dr_intent r = 0")
    case True
    then show ?thesis using same_section_first_None [OF rel, of "''it''"] os(1) by simp
  next
    case False
    then obtain v where v: "first_value s ''it'' = Some v" "unsigned_of v = Some (ucast (dr_intent r))"
      using same_section_first_Some [OF rel, of "''it''"] os(1) by fastforce
    then show ?thesis using c u by (simp add: conv64_ok_def)
  qed
  show ?thesis using w by (cases "dr_words_commit r") (auto simp: parse_depart_req_def o t cs it kept)
qed

lemma departure_step:
  assumes "eagle_ok D" and "conv64_ok C" and "ext_ok (en_ext E)"
    and "may_sign (en_ext E) c w approver" and "sg_public leaver \<in> set (w_members w)" and "sg_public leaver \<noteq> sg_public approver"
    and "signer_ok (en_ext E) leaver (known_bundle (en_ext E) (w_bundles w) (sg_public leaver)) m" and "covers m (w_floor w)"
    and "m = (case sg_bundle leaver of Some b \<Rightarrow> bundle_mask b | None \<Rightarrow> MASK_BASE (en_ext E))"
    and "\<forall>msg. wf_eggs (sg_eggs leaver msg m)"
    and "dr_consent_sig r = depart_consent (en_ext E) leaver (chain_handle_proof c) (dr_t r)"
    and "case dr_words_commit r of Some x \<Rightarrow> length x = 32 | None \<Rightarrow> True"
    and "frame_keeps (en_ext E) D leaver now (depart_req_section r)"
    and "depart_req_frame (en_ext E) D r leaver now = Inr doc"
    and "dr_t r \<noteq> 0" and "time_ok at" and "abs_diff_i64 at (dr_t r) \<le> CONSENT_WINDOW_OSC (en_ext E)"
  shows "\<exists>consent build p. parse_depart_req C D doc = Inr (r, sg_public leaver) \<and>
    eggs_from_bytes (en_ext E) (dr_consent_sig r) = Some consent \<and>
    consented_edit E approver (sg_public leaver) (dr_t r) consent c = Inr (Some build) \<and> build at = Some (c @ [p]) \<and>
    fleet_fold (en_ext E) (c @ [p]) = Inr (filter (\<lambda>x. x \<noteq> sg_public leaver) (w_members w))"
proof -
  let ?W = "en_ext E" and ?consent = "sg_eggs leaver (departreq_signing_bytes (chain_handle_proof c) (sg_public leaver) (dr_t r)) m"
  have p: "parse_depart_req C D doc = Inr (r, sg_public leaver)"
    by (rule depart_req_reads [OF assms(1,2,12,13,14)])
  have e: "eggs_from_bytes ?W (dr_consent_sig r) = Some ?consent"
    using assms(3,10) by (simp add: assms(11) depart_consent_def assms(9) ext_ok_def)
  have "fold_inner ?W c = Inr w" using assms(4) by (simp add: may_sign_def)
  then have "consented_edit E approver (sg_public leaver) (dr_t r) ?consent c
      = Inr (Some (\<lambda>at. Some (build_remove_consented ?W c approver (sg_public leaver) at (dr_t r) ?consent)))"
    using assms(5) by (simp add: consented_edit_def stored_fold_def fleet_fold_def)
  moreover obtain p where "build_remove_consented ?W c approver (sg_public leaver) at (dr_t r) ?consent = c @ [p]"
    "fold_inner ?W (c @ [p]) = Inr (ratchet ?W p (walk_without (sg_public leaver) p w))"
    using remove_consented_step [OF assms(4,16,5,6,15,7,8) refl assms(17)] by blast
  ultimately have "consented_edit E approver (sg_public leaver) (dr_t r) ?consent c
      = Inr (Some (\<lambda>at. Some (build_remove_consented ?W c approver (sg_public leaver) at (dr_t r) ?consent))) \<and>
      build_remove_consented ?W c approver (sg_public leaver) at (dr_t r) ?consent = c @ [p] \<and>
      fleet_fold ?W (c @ [p]) = Inr (filter (\<lambda>x. x \<noteq> sg_public leaver) (w_members w))"
    by (simp add: fleet_fold_def)
  then show ?thesis using p e by blast
qed

text \<open>Leaving, end to end: the departure request a member sends reads back whole, and its consent is what the
  approver's edit of the chain needs: the edit folds to the same members without the leaver.\<close>

theorem departure_accepted:
  assumes "eagle_ok D" and "conv64_ok C" and "ext_ok (en_ext E)"
    and "may_sign (en_ext E) c w approver" and "sg_public leaver \<in> set (w_members w)" and "sg_public leaver \<noteq> sg_public approver"
    and "signer_ok (en_ext E) leaver (known_bundle (en_ext E) (w_bundles w) (sg_public leaver)) m" and "covers m (w_floor w)"
    and "m = (case sg_bundle leaver of Some b \<Rightarrow> bundle_mask b | None \<Rightarrow> MASK_BASE (en_ext E))"
    and "\<forall>msg. wf_eggs (sg_eggs leaver msg m)"
    and "dr_consent_sig r = depart_consent (en_ext E) leaver (chain_handle_proof c) (dr_t r)"
    and "case dr_words_commit r of Some x \<Rightarrow> length x = 32 | None \<Rightarrow> True"
    and "frame_keeps (en_ext E) D leaver now (depart_req_section r)"
    and "depart_req_frame (en_ext E) D r leaver now = Inr doc"
    and "dr_t r \<noteq> 0" and "time_ok at" and "abs_diff_i64 at (dr_t r) \<le> CONSENT_WINDOW_OSC (en_ext E)"
  shows "\<exists>consent build ops. parse_depart_req C D doc = Inr (r, sg_public leaver) \<and>
    eggs_from_bytes (en_ext E) (dr_consent_sig r) = Some consent \<and>
    consented_edit E approver (sg_public leaver) (dr_t r) consent c = Inr (Some build) \<and> build at = Some ops \<and>
    fleet_fold (en_ext E) ops = Inr (filter (\<lambda>x. x \<noteq> sg_public leaver) (w_members w))"
  using departure_step [OF assms] by blast

section \<open>The approval words\<close>

lemma pad_three_words:
  assumes z: "capital_word (zero_word_of voc)"
  shows "list_all capital_word ws \<Longrightarrow> ws \<noteq> [] \<Longrightarrow> pad_three voc (concat ws) = Some (zero_padded voc 3 (concat ws))"
proof (induction "3 - length ws" arbitrary: ws)
  case 0
  then show ?case by (simp add: pad_three.simps [of voc "concat ws"] tokens_words(1) zero_padded_def)
next
  case (Suc k)
  let ?z = "zero_word_of voc"
  have c: "list_all capital_word (?z # ws)" using Suc.prems(1) z by simp
  have lt: "length ws < 3" using Suc.hyps(2) by linarith
  have "pad_three voc (concat ws) = pad_three voc (concat (?z # ws))"
    using tokens_words(1) [OF Suc.prems] lt by (simp add: pad_three.simps [of voc "concat ws"])
  also have "\<dots> = Some (zero_padded voc 3 (concat (?z # ws)))"
    using Suc.hyps c by (intro Suc.hyps(1)) simp_all
  also have "zero_padded voc 3 (concat (?z # ws)) = zero_padded voc 3 (concat ws)"
  proof -
    have "3 - length ws = Suc (3 - Suc (length ws))" using Suc.hyps(2) by simp
    then show ?thesis using tokens_words(1) [OF Suc.prems] tokens_words(1) [OF c]
      by (simp add: zero_padded_def replicate_append_same [symmetric] del: replicate_Suc) (simp add: replicate_append_same [symmetric])
  qed
  finally show ?case .
qed

text \<open>C40: the padding loop ends, for every nonce, with exactly three words, and they read as the nonce reduced to
  three words' worth. It ends because the zero word it puts in front, the first word of the list with its
  first letter capitalised, is one more word to the counter.\<close>

theorem depart_words_three:
  assumes "voca_ok encode decode voc"
  shows "\<exists>ws. depart_words encode voc nonce = Some ws \<and> pair_word_tokens ws = 3 \<and>
    decode (trim ws) = Inr (unat nonce mod 3177 ^ 3)"
proof -
  let ?n = "unat nonce mod 3177 ^ 3"
  have n: "length voc = 3177" using assms by (simp add: voca_ok_def)
  have lt: "?n < 3177 ^ Suc 2" by (simp add: numeral_3_eq_3)
  obtain ws where ws: "encode ?n = concat ws" "ws \<noteq> []" "list_all capital_word ws"
    using assms unfolding voca_ok_def by metis
  have "depart_words encode voc nonce = Some (zero_padded voc 3 (encode ?n))"
    using pad_three_words [OF zero_word_capital(1) [OF assms] ws(3,2)] ws(1) by (simp add: depart_words_def n)
  moreover have "pair_word_tokens (zero_padded voc 3 (encode ?n)) = 3"
    "decode (trim (zero_padded voc 3 (encode ?n))) = Inr ?n"
    using padded_words [OF assms lt] by (simp_all add: numeral_3_eq_3)
  ultimately show ?thesis by blast
qed

theorem depart_words_three_witness:
  "\<exists>ws. depart_words demo_encode demo_voc 5 = Some ws \<and> pair_word_tokens ws = 3"
  using depart_words_three [OF demo_voca, of 5] by blast

end
