(* ===== verification/Attest.thy ===== *)
theory Attest
  imports Fleet_Adopt
begin

text \<open>
  src/src/attest.rs: the verdict on a handle from every chain a device can see. The loop over the chains
  keeps three accumulators, the record \<open>seen\<close>; the reference verdict states the decision without a loop.
\<close>

datatype seed_answer = Seed_Chain blob | Seed_NotFound | Seed_Unreachable

datatype attest_verdict = Fresh | Member | JoinOurs | WrongFleet | Unreachable | Unverifiable fold_error

record seen =
  sn_ours :: "(nat \<times> bool) option"
  sn_wrong_slot :: bool
  sn_unverifiable :: "fold_error option"

text \<open>One iteration of the loop.\<close>

definition see_chain :: "ext \<Rightarrow> bytes \<Rightarrow> bytes \<Rightarrow> blob \<Rightarrow> seen \<Rightarrow> seen" where
  "see_chain W hp device chain s =
     (case fleet_fold W chain of
        Inr members \<Rightarrow>
          if genesis_handle_proof chain = Some hp
          then (if (case sn_ours s of None \<Rightarrow> True | Some (best, _) \<Rightarrow> best < length chain)
                then s\<lparr>sn_ours := Some (length chain, device \<in> set members)\<rparr> else s)
          else s\<lparr>sn_wrong_slot := True\<rparr>
      | Inl e \<Rightarrow>
          if e = EmptyChain then s
          else (case sn_unverifiable s of None \<Rightarrow> s\<lparr>sn_unverifiable := Some e\<rparr> | Some _ \<Rightarrow> s))"

fun see_chains :: "ext \<Rightarrow> bytes \<Rightarrow> bytes \<Rightarrow> blob list \<Rightarrow> seen \<Rightarrow> seen" where
  "see_chains W hp device [] s = s"
| "see_chains W hp device (c # cs) s = see_chains W hp device cs (see_chain W hp device c s)"

text \<open>The seed's chain first, so that a tie in length keeps it; then the held one; then the peers'.\<close>

definition attest_candidates :: "blob option \<Rightarrow> blob list \<Rightarrow> seed_answer \<Rightarrow> blob list" where
  "attest_candidates held peers seed =
     (case seed of Seed_Chain c \<Rightarrow> [c] | _ \<Rightarrow> []) @ (case held of Some c \<Rightarrow> [c] | None \<Rightarrow> []) @ peers"

definition attest_verdict ::
  "ext \<Rightarrow> bytes \<Rightarrow> bytes \<Rightarrow> blob option \<Rightarrow> blob list \<Rightarrow> seed_answer \<Rightarrow> attest_verdict" where
  "attest_verdict W hp device held peers seed =
     (let s = see_chains W hp device (attest_candidates held peers seed)
                \<lparr>sn_ours = None, sn_wrong_slot = False, sn_unverifiable = None\<rparr> in
      case sn_ours s of Some (_, member) \<Rightarrow> if member then Member else JoinOurs
      | None \<Rightarrow>
          if sn_wrong_slot s then WrongFleet
          else case sn_unverifiable s of Some e \<Rightarrow> Unverifiable e
            | None \<Rightarrow> (case seed of Seed_Unreachable \<Rightarrow> Unreachable | _ \<Rightarrow> Fresh))"

section \<open>The reference verdict\<close>

definition folds :: "ext \<Rightarrow> blob \<Rightarrow> bool" where
  "folds W c \<longleftrightarrow> (case fleet_fold W c of Inr _ \<Rightarrow> True | Inl _ \<Rightarrow> False)"

definition at_slot :: "ext \<Rightarrow> bytes \<Rightarrow> blob \<Rightarrow> bool" where
  "at_slot W hp c \<longleftrightarrow> folds W c \<and> genesis_handle_proof c = Some hp"

text \<open>The first of the longest lists.\<close>

definition first_longest :: "'a list list \<Rightarrow> 'a list option" where
  "first_longest cs = find (\<lambda>c. list_all (\<lambda>d. length d \<le> length c) cs) cs"

text \<open>The error of a chain that was seen but cannot be verified; an empty chain is no claim.\<close>

definition chain_error :: "ext \<Rightarrow> blob \<Rightarrow> fold_error option" where
  "chain_error W c = (case fleet_fold W c of Inl e \<Rightarrow> if e = EmptyChain then None else Some e | Inr _ \<Rightarrow> None)"

definition verdict_spec :: "ext \<Rightarrow> bytes \<Rightarrow> bytes \<Rightarrow> blob list \<Rightarrow> bool \<Rightarrow> attest_verdict" where
  "verdict_spec W hp device cs silent =
     (case first_longest (filter (at_slot W hp) cs) of
        Some c \<Rightarrow> if is_member W c device then Member else JoinOurs
      | None \<Rightarrow>
          if list_ex (folds W) cs then WrongFleet
          else case List.map_filter (chain_error W) cs of e # _ \<Rightarrow> Unverifiable e
            | [] \<Rightarrow> if silent then Unreachable else Fresh)"

section \<open>The loop computes it\<close>

lemma first_longest_None: "first_longest cs = None \<longleftrightarrow> cs = []"
proof (cases "cs = []")
  case False
  then obtain m where m: "m \<in> set cs" "\<forall>d \<in> set cs. length d \<le> length m"
    using Max_in [of "length ` set cs"] Max_ge [of "length ` set cs"] by fastforce
  then show ?thesis by (auto simp: first_longest_def find_None_iff list_all_iff)
qed (simp add: first_longest_def)

lemma first_longest_Some:
  "first_longest cs = Some c \<Longrightarrow> c \<in> set cs \<and> (\<forall>d \<in> set cs. length d \<le> length c)"
  by (auto simp: first_longest_def find_Some_iff list_all_iff)

lemma find_append: "find P (xs @ ys) = (case find P xs of None \<Rightarrow> find P ys | Some x \<Rightarrow> Some x)"
  by (induction xs) auto

lemma first_longest_snoc:
  "first_longest (cs @ [c]) =
     (case first_longest cs of None \<Rightarrow> Some c | Some b \<Rightarrow> if length b < length c then Some c else Some b)"
proof (cases "first_longest cs")
  case None
  then have "cs = []" by (simp add: first_longest_None)
  then show ?thesis by (simp add: first_longest_def)
next
  case (Some b)
  note b = first_longest_Some [OF Some]
  show ?thesis
  proof (cases "length b < length c")
    case True
    then have "find (\<lambda>x. list_all (\<lambda>d. length d \<le> length x) (cs @ [c])) cs = None"
      using b by (fastforce simp: find_None_iff)
    moreover have "list_all (\<lambda>d. length d \<le> length c) (cs @ [c])" using b True by (fastforce simp: list_all_iff)
    ultimately show ?thesis using Some True by (simp add: first_longest_def find_append)
  next
    case False
    have "find (\<lambda>x. list_all (\<lambda>d. length d \<le> length x) (cs @ [c])) cs =
        find (\<lambda>x. list_all (\<lambda>d. length d \<le> length x) cs) cs"
      using b False by (intro find_cong refl) (fastforce simp: list_all_iff)
    then show ?thesis using Some False by (simp add: first_longest_def find_append)
  qed
qed

lemma see_chains_snoc: "see_chains W hp d (cs @ [c]) s = see_chain W hp d c (see_chains W hp d cs s)"
  by (induction cs arbitrary: s) simp_all

lemma see_chains_seen:
  "see_chains W hp d cs \<lparr>sn_ours = None, sn_wrong_slot = False, sn_unverifiable = None\<rparr> =
     \<lparr>sn_ours = map_option (\<lambda>c. (length c, is_member W c d)) (first_longest (filter (at_slot W hp) cs)),
      sn_wrong_slot = list_ex (\<lambda>c. folds W c \<and> genesis_handle_proof c \<noteq> Some hp) cs,
      sn_unverifiable = (case List.map_filter (chain_error W) cs of e # _ \<Rightarrow> Some e | [] \<Rightarrow> None)\<rparr>"
proof (induction cs rule: rev_induct)
  case Nil
  then show ?case by (simp add: first_longest_def List.map_filter_simps)
next
  case (snoc c cs)
  show ?case
  proof (cases "fleet_fold W c")
    case (Inr ms)
    then have "is_member W c d \<longleftrightarrow> d \<in> set ms" "folds W c" "chain_error W c = None"
      by (simp_all add: is_member_def folds_def chain_error_def)
    with Inr show ?thesis
      by (auto simp: see_chains_snoc snoc.IH see_chain_def at_slot_def first_longest_snoc List.map_filter_def
          split: option.splits list.splits)
  next
    case (Inl e)
    then have "\<not> folds W c" "chain_error W c = (if e = EmptyChain then None else Some e)"
      by (simp_all add: folds_def chain_error_def)
    with Inl show ?thesis
      by (auto simp: see_chains_snoc snoc.IH see_chain_def at_slot_def List.map_filter_def append_eq_Cons_conv
          split: option.splits list.splits)
  qed
qed

lemma attest_verdict_is_spec:
  "attest_verdict W hp device held peers seed =
     verdict_spec W hp device (attest_candidates held peers seed) (seed = Seed_Unreachable)"
proof -
  let ?cs = "attest_candidates held peers seed"
  have wrong: "list_ex (\<lambda>c. folds W c \<and> genesis_handle_proof c \<noteq> Some hp) ?cs \<longleftrightarrow> list_ex (folds W) ?cs"
    if "first_longest (filter (at_slot W hp) ?cs) = None"
    using that unfolding first_longest_None by (auto simp: filter_empty_conv list_ex_iff at_slot_def)
  show ?thesis
    using wrong unfolding attest_verdict_def verdict_spec_def Let_def see_chains_seen
    by (cases "first_longest (filter (at_slot W hp) ?cs)")
       (auto split: list.splits seed_answer.splits)
qed

text \<open>C11: the verdict on a handle is decided by the chains seen and nothing else: the first of the longest chains
  that fold at the slot says member or join; without one, a chain that folds elsewhere says wrong fleet,
  then the first chain that fails says unverifiable, and only with none of these the seed's answer
  decides between fresh and unreachable.\<close>

theorem attest_verdict_spec:
  "attest_verdict W hp device held peers seed =
     verdict_spec W hp device (attest_candidates held peers seed) (seed = Seed_Unreachable)"
  by (rule attest_verdict_is_spec)

text \<open>A chain at the slot that is at least as long as every other chain seen decides.\<close>

lemma first_longest_hd: "list_all (\<lambda>d. length d \<le> length c) cs \<Longrightarrow> first_longest (c # cs) = Some c"
  by (simp add: first_longest_def)

lemma attest_newest:
  assumes "fleet_fold W c = Inr members" and "genesis_handle_proof c = Some hp"
    and "\<forall>d \<in> set (attest_candidates held peers (Seed_Chain c)). length d \<le> length c"
  shows "attest_verdict W hp device held peers (Seed_Chain c) = (if device \<in> set members then Member else JoinOurs)"
proof -
  obtain rest where r: "attest_candidates held peers (Seed_Chain c) = c # rest" by (simp add: attest_candidates_def)
  have "at_slot W hp c" using assms(1,2) by (simp add: at_slot_def folds_def)
  moreover have "list_all (\<lambda>d. length d \<le> length c) (filter (at_slot W hp) rest)" using assms(3) by (simp add: r list_all_iff)
  ultimately have "first_longest (filter (at_slot W hp) (attest_candidates held peers (Seed_Chain c))) = Some c"
    by (simp add: r first_longest_hd)
  then show ?thesis using assms(1) by (simp add: attest_verdict_is_spec verdict_spec_def is_member_def)
qed

section \<open>Minting\<close>

lemma check_not_empty: "check_shape h i p w \<noteq> Some EmptyChain" "check_authority W i p w \<noteq> Some EmptyChain"
  by (simp_all add: check_shape_def check_authority_def)

lemma apply_not_empty: "apply_kind W k i p w \<noteq> Inl EmptyChain"
proof (cases k)
  case Remove
  then show ?thesis by (simp add: apply_remove_def check_removal_def Let_def)
qed (simp_all add: apply_genesis_def apply_declare_def apply_add_def apply_lock_def apply_unlock_def apply_checkpoint_def
    Let_def split: option.splits)

lemma step_not_empty: "fleet_step W h i p w \<noteq> Inl EmptyChain"
  using check_not_empty apply_not_empty
  by (fastforce simp: fleet_step_def Let_def split: option.splits sum.splits)

lemma steps_not_empty: "fold_steps (fleet_step W h) i w ops \<noteq> Inl EmptyChain"
proof (induction ops arbitrary: i w)
  case (Cons p ops)
  then show ?case using step_not_empty [of W h i p w] by (auto split: sum.splits)
qed simp

lemma fold_empty_iff: "fleet_fold W c = Inl EmptyChain \<longleftrightarrow> c = []"
proof (cases c)
  case (Cons p ops)
  then show ?thesis using steps_not_empty [of W "op_handle_proof p" 0 "walk_init W" c]
    by (cases "fold_steps (fleet_step W (op_handle_proof p)) 0 (walk_init W) c") (simp_all add: fleet_fold_def fold_inner_def)
qed (simp add: fleet_fold_def fold_inner_def)

lemma seen_nothing: "\<not> folds W c \<and> chain_error W c = None \<longleftrightarrow> c = []"
  using fold_empty_iff [of W c] by (auto simp: folds_def chain_error_def split: sum.splits)

text \<open>C12: a device offers to mint a new identity only when nobody holds the handle as far as anyone answered:
  the verdict is fresh exactly when every chain seen is empty and the seed could be asked.\<close>

theorem attest_fresh_iff:
  "attest_verdict W hp device held peers seed = Fresh \<longleftrightarrow>
     list_all (\<lambda>c. c = []) (attest_candidates held peers seed) \<and> seed \<noteq> Seed_Unreachable"
proof -
  have spec: "verdict_spec W hp device cs silent = Fresh \<longleftrightarrow>
      (list_all (\<lambda>c. \<not> folds W c \<and> chain_error W c = None) cs) \<and> \<not> silent" for cs silent
  proof -
    have "first_longest (filter (at_slot W hp) cs) = None \<longleftrightarrow> list_all (\<lambda>c. \<not> at_slot W hp c) cs"
      by (auto simp: first_longest_None filter_empty_conv list_all_iff)
    moreover have "List.map_filter (chain_error W) cs = [] \<longleftrightarrow> list_all (\<lambda>c. chain_error W c = None) cs"
      by (induction cs) (auto simp: List.map_filter_simps split: option.splits)
    ultimately show ?thesis
      by (auto simp: verdict_spec_def list_all_iff list_ex_iff at_slot_def split: option.splits list.splits)
  qed
  show ?thesis by (simp add: attest_verdict_is_spec spec seen_nothing)
qed

end
