(* ===== verification/Journey.thy ===== *)
theory Journey
  imports Frames_Props Client_Key_Props Attest
begin

text \<open>
  The components together: a device that joins, from its request to the verdict it gets when it comes back,
  and a device that leaves, to the verdict it gets then. The frames are protocol.rs, the edits client.rs,
  the fold fleet.rs and the verdict attest.rs.
\<close>

lemma genesis_snoc: "c \<noteq> [] \<Longrightarrow> genesis_handle_proof (c @ [p]) = Some (chain_handle_proof c)"
  by (cases c) (simp_all add: chain_handle_proof_def genesis_handle_proof_def)

lemma may_sign_nonempty: "may_sign W c w key \<Longrightarrow> c \<noteq> []"
  by (auto simp: may_sign_def)

text \<open>Whoever sees the extended chain at the seed, and elsewhere only prefixes of it, decides by it.\<close>

lemma verdict_by_seed:
  assumes "fleet_fold W (c @ [p]) = Inr members" and "c \<noteq> []"
    and "\<forall>d \<in> set peers. prefix d (c @ [p])" and "\<forall>d. held = Some d \<longrightarrow> prefix d (c @ [p])"
  shows "attest_verdict W (chain_handle_proof c) device held peers (Seed_Chain (c @ [p]))
    = (if device \<in> set members then Member else JoinOurs)"
proof (rule attest_newest [OF assms(1) genesis_snoc [OF assms(2)]])
  show "\<forall>d \<in> set (attest_candidates held peers (Seed_Chain (c @ [p]))). length d \<le> length (c @ [p])"
    using assms(3,4) prefix_length_le by (fastforce simp: attest_candidates_def split: option.splits)
qed

text \<open>C17: a device joins and comes back: its framed request reads back at the sponsor as it was built, the
  sponsor's edit appends one op, and from then on, whatever older copies of the chain the device holds or
  its peers answer with, the device resumes as a member; before, it was told to join, and never to mint.\<close>

theorem joined_device_resumes:
  assumes "may_sign (en_ext E) c w sponsor" and "sg_public joiner \<notin> set (w_members w)"
    and "map_of (w_bundles w) (sg_public joiner) = None"
    and "ext_ok (en_ext E)" and "ext_sign_ok (en_ext E)" and "conv_ok C" and "eagle_ok D" and "length (chain_handle_proof c) = 32"
    and "signer_ok (en_ext E) joiner (join_subject (en_ext E) joiner) (bundle_mask (join_subject (en_ext E) joiner))"
    and "covers (bundle_mask (join_subject (en_ext E) joiner)) (w_floor w)"
    and "\<forall>msg m. wf_eggs (sg_eggs joiner msg m)" and "case plate of Some p \<Rightarrow> length p = 32 | None \<Rightarrow> True" and "plate_known plate_k"
    and "r = bind_request_plated (en_ext E) joiner identity_seed (chain_handle_proof c) t nfc_secret plate plate_k"
    and "frame_keeps (en_ext E) D joiner now (bind_req_section (en_ext E) r (chain_handle_proof c))"
    and "bind_req (en_ext E) D r (chain_handle_proof c) joiner now = Inr doc"
    and "time_ok at" and "abs_diff_i64 at t \<le> CONSENT_WINDOW_OSC (en_ext E)"
  shows "\<exists>build p. parse_bind_req (en_ext E) C D err doc = Inr (chain_handle_proof c, r, sg_public joiner) \<and>
    bind_edit E sponsor r c = Inr (Some build) \<and> build at = Some (c @ [p]) \<and>
    attest_verdict (en_ext E) (chain_handle_proof c) (sg_public joiner) None [] (Seed_Chain c) = JoinOurs \<and>
    (\<forall>held peers. (\<forall>d. held = Some d \<longrightarrow> prefix d (c @ [p])) \<and> (\<forall>d \<in> set peers. prefix d (c @ [p])) \<longrightarrow>
       attest_verdict (en_ext E) (chain_handle_proof c) (sg_public joiner) held peers (Seed_Chain (c @ [p])) = Member)"
proof -
  let ?W = "en_ext E" and ?hp = "chain_handle_proof c"
  have read: "parse_bind_req ?W C D err doc = Inr (?hp, r, sg_public joiner)" "bind_request_verify ?W r ?hp (ed_public ?W identity_seed)"
    using join_request_reads [OF assms(4-8,9,11,12,14-16), of err] by simp_all
  have r: "br_device r = sg_public joiner" "br_bundle r = sg_bundle joiner" "br_plate_kind r = plate_k" "br_t r = t"
    by (simp_all add: assms(14) bind_request_plated_def Let_def)
  have j: "join_subject ?W joiner = (case br_bundle r of Some b \<Rightarrow> b | None \<Rightarrow> ed25519_only ?W (br_device r))"
    by (cases "sg_bundle joiner") (simp_all add: join_subject_def r)
  have ne: "c \<noteq> []" by (rule may_sign_nonempty [OF assms(1)])
  obtain build p where b: "bind_edit E sponsor r c = Inr (Some build)" "build at = Some (c @ [p])"
    "fleet_fold ?W (c @ [p]) = Inr (w_members w @ [sg_public joiner])"
    using bound_request_step [OF assms(1) read(2) _ _ j _ _ assms(17)] assms(2,3,10,13,18) by (auto simp: r)
  have "fleet_fold ?W c = Inr (w_members w)" using assms(1) by (simp add: may_sign_def fleet_fold_def)
  moreover have "genesis_handle_proof c = Some ?hp" using ne by (cases c) (simp_all add: chain_handle_proof_def genesis_handle_proof_def)
  ultimately have "attest_verdict ?W ?hp (sg_public joiner) None [] (Seed_Chain c) = JoinOurs"
    using attest_newest [of ?W c "w_members w" ?hp None "[]"] assms(2) by (simp add: attest_candidates_def)
  moreover have "attest_verdict ?W ?hp (sg_public joiner) held peers (Seed_Chain (c @ [p])) = Member"
    if "(\<forall>d. held = Some d \<longrightarrow> prefix d (c @ [p])) \<and> (\<forall>d \<in> set peers. prefix d (c @ [p]))" for held peers
    using verdict_by_seed [OF b(3) ne] that by simp
  ultimately show ?thesis using read(1) b by blast
qed

text \<open>C18: a device leaves and comes back: its framed request carries a consent that makes the approver's edit
  fold, and from then on the device is told to join again, even from its own older copy of the chain, on
  which it still was a member.\<close>

theorem departed_device_is_out:
  assumes "eagle_ok D" and "conv64_ok C" and "ext_ok (en_ext E)"
    and "may_sign (en_ext E) c w approver" and "sg_public leaver \<in> set (w_members w)" and "sg_public leaver \<noteq> sg_public approver"
    and "signer_ok (en_ext E) leaver (known_bundle (en_ext E) (w_bundles w) (sg_public leaver)) m" and "covers m (w_floor w)"
    and "m = (case sg_bundle leaver of Some b \<Rightarrow> bundle_mask b | None \<Rightarrow> MASK_BASE (en_ext E))"
    and "\<forall>msg. wf_eggs (sg_eggs leaver msg m)"
    and "dr_consent_sig r = depart_consent (en_ext E) leaver (chain_handle_proof c) (dr_t r)"
    and "case dr_words_commit r of Some x \<Rightarrow> length x = 32 | None \<Rightarrow> True"
    and "frame_keeps (en_ext E) D leaver now (depart_req_section r)"
    and "depart_req_frame (en_ext E) D r leaver now = Inr doc"
    and "dr_t r \<noteq> 0" and "time_ok at" and "abs_diff_i64 at (dr_t r) \<le> CONSENT_WINDOW_OSC (en_ext E)"
  shows "\<exists>consent build p. parse_depart_req C D doc = Inr (r, sg_public leaver) \<and>
    eggs_from_bytes (en_ext E) (dr_consent_sig r) = Some consent \<and>
    consented_edit E approver (sg_public leaver) (dr_t r) consent c = Inr (Some build) \<and> build at = Some (c @ [p]) \<and>
    attest_verdict (en_ext E) (chain_handle_proof c) (sg_public leaver) (Some c) [] (Seed_Chain c) = Member \<and>
    attest_verdict (en_ext E) (chain_handle_proof c) (sg_public leaver) (Some c) [] (Seed_Chain (c @ [p])) = JoinOurs \<and>
    (\<forall>d \<in> set (w_members w) - {sg_public leaver}.
       attest_verdict (en_ext E) (chain_handle_proof c) d (Some c) [] (Seed_Chain (c @ [p])) = Member)"
proof -
  let ?W = "en_ext E" and ?hp = "chain_handle_proof c"
  obtain consent build p where b: "parse_depart_req C D doc = Inr (r, sg_public leaver)"
    "eggs_from_bytes ?W (dr_consent_sig r) = Some consent"
    "consented_edit E approver (sg_public leaver) (dr_t r) consent c = Inr (Some build)" "build at = Some (c @ [p])"
    "fleet_fold ?W (c @ [p]) = Inr (filter (\<lambda>x. x \<noteq> sg_public leaver) (w_members w))"
    using departure_step [OF assms] by blast
  have ne: "c \<noteq> []" by (rule may_sign_nonempty [OF assms(4)])
  have "fleet_fold ?W c = Inr (w_members w)" using assms(4) by (simp add: may_sign_def fleet_fold_def)
  moreover have "genesis_handle_proof c = Some ?hp" using ne by (cases c) (simp_all add: chain_handle_proof_def genesis_handle_proof_def)
  ultimately have before: "attest_verdict ?W ?hp (sg_public leaver) (Some c) [] (Seed_Chain c) = Member"
    using attest_newest [of ?W c "w_members w" ?hp "Some c" "[]"] assms(5) by (simp add: attest_candidates_def)
  have after: "attest_verdict ?W ?hp d (Some c) [] (Seed_Chain (c @ [p]))
      = (if d \<in> set (filter (\<lambda>x. x \<noteq> sg_public leaver) (w_members w)) then Member else JoinOurs)" for d
    by (rule verdict_by_seed [OF b(5) ne]) simp_all
  show ?thesis using b before after [of "sg_public leaver"] after by (intro exI [of _ consent] exI [of _ build] exI [of _ p]) simp
qed

end
