(* ===== verification/Chain_Typed.thy ===== *)
theory Chain_Typed
  imports Chain_Doc
begin

text \<open>
  What parsing gives whatever the bytes: the array lengths that the Rust types promise of an op, and every
  optional group only where the parser's gates let it through.
\<close>

definition op_sized :: "ext \<Rightarrow> fleet_op \<Rightarrow> bool" where
  "op_sized W p \<longleftrightarrow>
     list_all (\<lambda>b. length b = 32)
       [op_handle_proof p, op_prev_hash p, op_device p, op_signer p, op_identity_pubkey p, op_ckpt_commit p] \<and>
     pred_option (wf_bundle W) (op_bundle p) \<and> pred_option (\<lambda>q. length q = 32) (op_plate p)"

text \<open>The gates. Identity, consent, checkpoint and bundle are gated by the kind alone; the plate and the plate
  kind by kind and version. So a v1 Add or Declare may carry a bundle, although the bytes a v1 op signs
  leave it out.\<close>

definition op_gated :: "ext \<Rightarrow> fleet_op \<Rightarrow> bool" where
  "op_gated W p \<longleftrightarrow>
     (op_kind p = Genesis \<or> op_identity_pubkey p = zero32 \<and> op_identity_sig p = []) \<and>
     (op_kind p = Add \<or> op_kind p = Remove \<or> op_consent_t p = 0 \<and> op_consent p = []) \<and>
     (op_kind p = Checkpoint \<or> op_ckpt_k p = 0 \<and> op_ckpt_commit p = zero32 \<and> op_ckpt_fanout_epoch p = 0) \<and>
     (op_kind p = Add \<or> op_kind p = Declare \<or> op_bundle p = None) \<and>
     (plate_kind_op (op_kind p) \<and> plated (op_version p) \<or> op_plate p = None) \<and>
     (plate_kind_op (op_kind p) \<and> op_version p = V4 \<or> op_plate_kind p = UNSTATED) \<and>
     (framed (op_version p) \<or> op_consent p = [] \<or> (\<exists>s. op_consent p = [\<lparr>egg_scheme = ED25519 W, egg_sig = s\<rparr>]))"

fun_cases take_hp32_InrE: "take_hp32 v w = Inr b"
fun_cases take_hb32_InrE: "take_hb32 v w = Inr b"
fun_cases take_ke32_InrE: "take_ke32 v w = Inr b"

lemma take_32 [dest]:
  "take_hp32 v w = Inr b \<Longrightarrow> length b = 32" "take_hb32 v w = Inr b \<Longrightarrow> length b = 32" "take_ke32 v w = Inr b \<Longrightarrow> length b = 32"
  by (auto elim!: take_hp32_InrE take_hb32_InrE take_ke32_InrE split: if_splits)

lemma consent_from_wire_typed:
  "consent_from_wire W v bs = Inr es \<Longrightarrow> framed v \<or> es = [\<lparr>egg_scheme = ED25519 W, egg_sig = bs\<rparr>]"
  by (auto simp: consent_from_wire_def split: if_splits)

lemma parse_consent_typed:
  assumes "parse_consent W kind ver t values = Inr g"
  shows "\<exists>es. g = no_groups\<lparr>gr_i := 8, gr_consent_t := t, gr_consent := es\<rparr> \<and>
    (framed ver \<or> (\<exists>s. es = [\<lparr>egg_scheme = ED25519 W, egg_sig = s\<rparr>]))"
proof -
  obtain s where "vget values 7 = Some (V_ge s)"
    using assms by (auto simp: parse_consent_def split: option.splits vsf.splits)
  then obtain es where "consent_from_wire W ver s = Inr es" "g = no_groups\<lparr>gr_i := 8, gr_consent_t := t, gr_consent := es\<rparr>"
    using assms by (auto simp: parse_consent_def split: sum.splits)
  then show ?thesis using consent_from_wire_typed by blast
qed

lemma no_groups_sel [simp]:
  "gr_identity_pubkey no_groups = zero32" "gr_identity_sig no_groups = []" "gr_consent_t no_groups = 0" "gr_consent no_groups = []"
  "gr_ckpt_k no_groups = 0" "gr_ckpt_commit no_groups = zero32" "gr_ckpt_fanout_epoch no_groups = 0"
  by (simp_all add: no_groups_def)

definition groups_typed :: "ext \<Rightarrow> op_version \<Rightarrow> op_kind \<Rightarrow> op_groups \<Rightarrow> bool" where
  "groups_typed W ver kind g \<longleftrightarrow>
     length (gr_identity_pubkey g) = 32 \<and> length (gr_ckpt_commit g) = 32 \<and>
     (kind = Genesis \<or> gr_identity_pubkey g = zero32 \<and> gr_identity_sig g = []) \<and>
     (kind = Add \<or> kind = Remove \<or> gr_consent_t g = 0 \<and> gr_consent g = []) \<and>
     (kind = Checkpoint \<or> gr_ckpt_k g = 0 \<and> gr_ckpt_commit g = zero32 \<and> gr_ckpt_fanout_epoch g = 0) \<and>
     (framed ver \<or> gr_consent g = [] \<or> (\<exists>s. gr_consent g = [\<lparr>egg_scheme = ED25519 W, egg_sig = s\<rparr>]))"

lemma parse_checkpoint_typed:
  assumes "parse_checkpoint C values = Inr g"
  shows "\<exists>k c ep. length c = 32 \<and> g = no_groups\<lparr>gr_i := 9, gr_ckpt_k := k, gr_ckpt_commit := c, gr_ckpt_fanout_epoch := ep\<rparr>"
proof -
  obtain v6 v7 v8 where v: "vget values 6 = Some v6" "vget values 7 = Some v7" "vget values 8 = Some v8"
    using assms by (auto simp: parse_checkpoint_def split: option.splits sum.splits)
  obtain k c ep where "take_u64 C v6 ''k'' = Inr k" "take_hb32 v7 ''commit'' = Inr c" "take_u64 C v8 ''fanout epoch'' = Inr ep"
    using assms v by (auto simp: parse_checkpoint_def split: sum.splits)
  then show ?thesis using assms v by (auto simp: parse_checkpoint_def)
qed

lemma parse_genesis_typed:
  assumes "parse_groups W C ver Genesis values = Inr g"
  shows "groups_typed W ver Genesis g"
proof -
  obtain v where v: "vget values 6 = Some v" using assms by (auto simp: parse_groups_def split: option.splits)
  then obtain ip where ip: "take_ke32 v ''identity'' = Inr ip" using assms by (auto simp: parse_groups_def split: sum.splits)
  then have "length ip = 32" by blast
  moreover have "\<exists>i s. g = no_groups\<lparr>gr_i := i, gr_identity_pubkey := ip, gr_identity_sig := s\<rparr>"
  proof (cases "\<exists>s. vget values 7 = Some (V_ge s)")
    case True
    then obtain s where "vget values 7 = Some (V_ge s)" by blast
    then have "g = no_groups\<lparr>gr_i := 8, gr_identity_pubkey := ip, gr_identity_sig := s\<rparr>"
      using assms v ip by (simp add: parse_groups_def)
    then show ?thesis by blast
  next
    case False
    then have "g = no_groups\<lparr>gr_i := 7, gr_identity_pubkey := ip\<rparr>"
      using assms v ip by (auto simp: parse_groups_def split: option.splits vsf.splits)
    then have "g = no_groups\<lparr>gr_i := 7, gr_identity_pubkey := ip, gr_identity_sig := []\<rparr>" by (simp add: no_groups_def)
    then show ?thesis by blast
  qed
  ultimately show ?thesis by (auto simp: groups_typed_def)
qed

lemma groups_typed_none: "groups_typed W ver kind no_groups"
  by (simp add: groups_typed_def)

lemma groups_typed_consent:
  "kind = Add \<or> kind = Remove \<Longrightarrow> parse_consent W kind ver t values = Inr g \<Longrightarrow> groups_typed W ver kind g"
  by (drule parse_consent_typed) (auto simp: groups_typed_def)

lemma parse_timed_typed:
  assumes "kind = Add \<or> kind = Remove" and "parse_groups W C ver kind values = Inr g"
  shows "groups_typed W ver kind g"
proof (cases "\<exists>et. vget values 6 = Some (V_e et)")
  case True
  then obtain et where "parse_consent W kind ver (et_to_osc et) values = Inr g"
    using assms by (auto simp: parse_groups_def)
  then show ?thesis by (rule groups_typed_consent [OF assms(1)])
next
  case False
  then have "g = no_groups" using assms by (auto simp: parse_groups_def split: option.splits vsf.splits)
  then show ?thesis by (simp add: groups_typed_none)
qed

lemma parse_groups_typed:
  assumes "parse_groups W C ver kind values = Inr g"
  shows "groups_typed W ver kind g"
proof (cases kind)
  case Checkpoint
  then have "parse_checkpoint C values = Inr g" using assms by (simp add: parse_groups_def)
  then show ?thesis using Checkpoint parse_checkpoint_typed by (fastforce simp: groups_typed_def)
qed (use assms parse_genesis_typed parse_timed_typed groups_typed_none in \<open>auto simp: parse_groups_def\<close>)

lemma parse_bundle_typed:
  "parse_bundle W kind values i = Inr (b, j) \<Longrightarrow> pred_option (wf_bundle W) b \<and> (kind = Add \<or> kind = Declare \<or> b = None)"
  by (auto simp: parse_bundle_def dest: bundle_from_bytes_wf split: if_splits option.splits vsf.splits sum.splits)

lemma parse_plate_kind_typed:
  "parse_plate_kind C ver kind values i = Inr (k, j) \<Longrightarrow> plate_kind_op kind \<and> ver = V4 \<or> k = UNSTATED"
  by (auto simp: parse_plate_kind_def split: if_splits)

lemma parse_plate_typed:
  "parse_plate ver kind values i = Inr (q, j) \<Longrightarrow> pred_option (\<lambda>q. length q = 32) q \<and> (plate_kind_op kind \<and> plated ver \<or> q = None)"
  by (auto simp: parse_plate_def split: if_splits option.splits vsf.splits)

lemma parse_tail_typed:
  assumes "parse_tail W C ver kind g values = Inr (b, k, q, es)"
  shows "pred_option (wf_bundle W) b \<and> (kind = Add \<or> kind = Declare \<or> b = None) \<and>
    (plate_kind_op kind \<and> ver = V4 \<or> k = UNSTATED) \<and>
    pred_option (\<lambda>q. length q = 32) q \<and> (plate_kind_op kind \<and> plated ver \<or> q = None)"
proof -
  obtain i where i: "parse_bundle W kind values (gr_i g) = Inr (b, i)"
    using assms by (auto simp: parse_tail_def split: sum.splits)
  then obtain i' where i': "parse_plate_kind C ver kind values i = Inr (k, i')"
    using assms by (auto simp: parse_tail_def split: sum.splits)
  then obtain i'' where "parse_plate ver kind values i' = Inr (q, i'')"
    using assms i by (auto simp: parse_tail_def split: sum.splits)
  then show ?thesis using parse_bundle_typed [OF i] parse_plate_kind_typed [OF i'] parse_plate_typed by blast
qed

lemma parse_op_typed:
  assumes "parse_op W C vs = Inr p"
  shows "op_sized W p \<and> op_gated W p"
proof -
  obtain v0 rest where vs: "vs = v0 # rest" using assms by (cases vs) (auto simp: parse_op_def)
  obtain ver base where v: "parse_version C v0 = Inr (ver, base)"
    using assms vs by (auto simp: parse_op_def split: sum.splits)
  let ?v = "drop base vs"
  have l: "\<not> length ?v < 6" using assms vs v by (auto simp: parse_op_def Let_def split: if_splits)
  obtain hp where hp: "take_hp32 (?v ! 0) ''hp'' = Inr hp"
    using assms l by (cases "take_hp32 (?v ! 0) ''hp''") (simp_all add: parse_op_def Let_def vs v)
  obtain prev where prev: "take_hb32 (?v ! 1) ''prev'' = Inr prev"
    using assms l hp by (cases "take_hb32 (?v ! 1) ''prev''") (simp_all add: parse_op_def Let_def vs v)
  obtain kind where kind: "parse_kind C (?v ! 2) = Inr kind"
    using assms l hp prev by (cases "parse_kind C (?v ! 2)") (simp_all add: parse_op_def Let_def vs v)
  obtain dev where dev: "take_ke32 (?v ! 3) ''device'' = Inr dev"
    using assms l hp prev kind by (cases "take_ke32 (?v ! 3) ''device''") (simp_all add: parse_op_def Let_def vs v)
  obtain et where et: "?v ! 4 = V_e et"
    using assms l hp prev kind dev by (cases "?v ! 4") (simp_all add: parse_op_def Let_def vs v)
  obtain sg where sg: "take_ke32 (?v ! 5) ''signer'' = Inr sg"
    using assms l hp prev kind dev et by (cases "take_ke32 (?v ! 5) ''signer''") (simp_all add: parse_op_def Let_def vs v)
  obtain g where g: "parse_groups W C ver kind ?v = Inr g"
    using assms l hp prev kind dev et sg by (cases "parse_groups W C ver kind ?v") (simp_all add: parse_op_def Let_def vs v)
  obtain tl where tl: "parse_tail W C ver kind g ?v = Inr tl"
    using assms l hp prev kind dev et sg g by (cases "parse_tail W C ver kind g ?v") (simp_all add: parse_op_def Let_def vs v)
  obtain b k q es where b: "tl = (b, k, q, es)" by (cases tl)
  note t = tl [unfolded b]
  have p: "p = \<lparr>op_handle_proof = hp, op_prev_hash = prev, op_kind = kind, op_device = dev,
      op_time = et_to_osc et, op_signer = sg, op_identity_pubkey = gr_identity_pubkey g,
      op_identity_sig = gr_identity_sig g, op_consent_t = gr_consent_t g, op_consent = gr_consent g,
      op_ckpt_k = gr_ckpt_k g, op_ckpt_commit = gr_ckpt_commit g,
      op_ckpt_fanout_epoch = gr_ckpt_fanout_epoch g, op_sigs = es, op_version = ver,
      op_bundle = b, op_plate = q, op_plate_kind = k\<rparr>"
    using assms l hp prev kind dev et sg g t by (simp add: parse_op_def Let_def vs v)
  have "length hp = 32" "length prev = 32" "length dev = 32" "length sg = 32" using hp prev dev sg by blast+
  then show ?thesis using parse_groups_typed [OF g] parse_tail_typed [OF t]
    unfolding p by (simp add: op_sized_def op_gated_def groups_typed_def)
qed

text \<open>C20: whatever document the network hands over, an op that comes out of the parser has the lengths its Rust
  type promises, a well-formed bundle or none, and every optional group behind its gate: an identity only
  in a genesis, a consent only in an Add or a Remove, checkpoint fields only in a Checkpoint, a bundle only
  in an Add or a Declare, whatever the version; a plate only in a kind that names a device and a version
  that signs plates, a stated plate kind only in such a kind at v4; and the consent of a v1 op is one Ed25519
  signature. The bundle's gate does not look at the version, so nothing here says that the signed bytes
  of a v1 op cover its bundle: they do not.\<close>

theorem parsed_chain_typed:
  assumes "chain_from_vsf W C D err bs = Inr c" and "p \<in> set c"
  shows "op_sized W p \<and> op_gated W p"
proof -
  obtain rows where "parse_ops W C err rows = Inr c"
    using assms(1) by (auto simp: chain_from_vsf_def try_elims)
  then have "\<exists>vs. parse_op W C vs = Inr p"
    using assms(2) by (induction rows arbitrary: c) (auto simp: parse_ops_def try_elims)
  then show ?thesis using parse_op_typed by blast
qed

end
