(* ===== verification/Demo_Frames.thy ===== *)
theory Demo_Frames
  imports Frames_Props Demo_Client Chain_Typed
begin

text \<open>
  Concrete frames at which the properties of the frames are applied: a container that holds one section,
  its integers narrowed
  (and, for the punch message, one header).
\<close>

definition plain_eagle :: "vsection \<Rightarrow> string \<Rightarrow> i64 option" where
  "plain_eagle sec n = (case first_value sec n of Some (V_e (E6 t)) \<Rightarrow> Some t | _ \<Rightarrow> None)"

definition frame_of :: "signer \<Rightarrow> vsection \<Rightarrow> frame_doc" where
  "frame_of key sec = \<lparr>fd_doc = two_docs\<lparr>vd_primary := (\<lambda>d. Inr (narrowed sec))\<rparr>, fd_decode = (\<lambda>d. Inl []),
     fd_signer = (\<lambda>d. Inr (sg_public key)), fd_build_anchored = (\<lambda>t p k s sec. Inl []),
     fd_build_provenance = (\<lambda>t p sec. Inl []), fd_eagle = plain_eagle\<rparr>"

lemma frame_of_laws: "eagle_ok (frame_of key sec)" "frame_keeps W (frame_of key sec) key now sec"
  by (simp_all add: eagle_ok_def frame_of_def plain_eagle_def frame_keeps_def two_docs_def)

lemma frame_of_signs: "signed_frame W (frame_of key sec) sec' key now = Inr []"
  by (simp add: signed_frame_def frame_of_def two_docs_def sign_envelope_def)

lemma demo_eggs_wf: "wf_eggs (sg_eggs (demo_device b) msg m)"
  by (simp add: wf_eggs_def demo_device_def keypair_signer_def) (simp add: demo_ext_def)

lemma demo_no_bundle: "sg_bundle (demo_device b) = None"
  by (simp add: demo_device_def keypair_signer_def)

section \<open>A served chain\<close>

lemma demo_served: "chain_from_vsf demo_ext demo_conv (en_doc demo_client) [] [] = Inr demo_g"
proof -
  obtain w where "fold_inner demo_ext demo_g = Inr w" using demo_g_fold by blast
  from parse_ops_values [OF demo_ext_ok demo_conv_ok accepted_wire_ok [OF this demo_g_typed]]
  have "parse_ops demo_ext demo_conv [] (map (op_field_values demo_ext) demo_g) = Inr demo_g" .
  then show ?thesis by (simp add: chain_from_vsf_def)
qed

theorem parsed_chain_typed_witness:
  "\<exists>p. demo_g = [p] \<and> op_sized demo_ext p \<and> op_gated demo_ext p"
  using parsed_chain_typed [OF demo_served] by (simp add: demo_g_def build_genesis_v2_plated_def)

section \<open>Transport\<close>

definition demo_ack :: punch_message where
  "demo_ack = ProbeAck 5 (demo_seed 1) (demo_seed 2) (demo_seed 3 @ demo_seed 3) (addr_new (V4 [10, 0, 0, 1]) 4383)"

definition wire_doc :: frame_doc where
  "wire_doc = \<lparr>fd_doc = two_docs\<lparr>vd_primary := (\<lambda>d. Inr (if d = [] then relay_section (demo_seed 2) None [7] else punch_section demo_ack)),
       vd_header_eggs := (\<lambda>d. Inr (demo_seed 1, sg_eggs (demo_device 1) [] (envelope_mask demo_ext (demo_device 1)), []))\<rparr>,
     fd_decode = (\<lambda>d. Inr \<lparr>fh_time = Some (V_e (E6 5)), fh_provenance = V_hp (demo_seed 2),
       fh_signer = Some (V_ke (demo_seed 1)), fh_signature = Some (V_ge (demo_seed 3 @ demo_seed 3))\<rparr>),
     fd_signer = (\<lambda>d. Inr []), fd_build_anchored = (\<lambda>t p k s sec. Inr VSF_MAGIC),
     fd_build_provenance = (\<lambda>t p sec. Inl []), fd_eagle = plain_eagle\<rparr>"

theorem transport_frames_roundtrip_witness:
  "punch_from_vsf wire_doc VSF_MAGIC = Inr (Some demo_ack) \<and> peel_relay_envelope wire_doc [] = Some (demo_seed 1, [7])"
proof -
  have ok: "punch_ok demo_ack" by (simp add: punch_ok_def demo_ack_def addr_ok_def addr_new_def)
  have pk: "punch_keeps wire_doc demo_ack" by (simp add: punch_keeps_def punch_to_vsf_def wire_doc_def VSF_MAGIC_def demo_ack_def)
  have b: "punch_to_vsf wire_doc demo_ack = Inr VSF_MAGIC" by (simp add: punch_to_vsf_def wire_doc_def)
  have rk: "relay_keeps demo_ext wire_doc (demo_device 1) 0 (relay_section (demo_seed 2) None [7])"
    by (auto simp: relay_keeps_def wire_doc_def two_docs_def sign_envelope_def)
  have r: "build_relay_envelope demo_ext (fd_doc wire_doc) (demo_device 1) (demo_seed 2) None [7] 0 = Inr []"
    by (simp add: build_relay_envelope_def wire_doc_def two_docs_def sign_envelope_def)
  have "unscoped demo_ack = demo_ack" by (simp add: unscoped_def demo_ack_def addr_new_def)
  then show ?thesis using transport_frames_roundtrip [OF ok pk b rk r] by simp
qed

section \<open>Joining and leaving\<close>

definition demo_bind :: bind_request where
  "demo_bind = bind_request_plated demo_ext (demo_device 2) (demo_seed 8) demo_hp 6 zero32 None UNSTATED"

theorem join_request_accepted_witness:
  "parse_bind_req demo_ext demo_conv (frame_of (demo_device 2) (bind_req_section demo_ext demo_bind demo_hp)) [] []
     = Inr (demo_hp, demo_bind, demo_seed 2)
   \<and> bind_request_verify demo_ext demo_bind demo_hp (demo_seed 8)"
proof -
  have j: "join_subject demo_ext (demo_device 2) = ed25519_only demo_ext (demo_seed 2)"
    by (simp add: join_subject_def demo_no_bundle)
  have s: "signer_ok demo_ext (demo_device 2) (join_subject demo_ext (demo_device 2)) (bundle_mask (join_subject demo_ext (demo_device 2)))"
    unfolding j using demo_device_ok [of 2] by simp
  have d: "bind_req demo_ext (frame_of (demo_device 2) (bind_req_section demo_ext demo_bind demo_hp)) demo_bind demo_hp (demo_device 2) 0 = Inr []"
    by (simp add: bind_req_def frame_of_signs)
  have "ed_public demo_ext (demo_seed 8) = demo_seed 8" by (simp add: demo_ext_def pad32_id)
  then show ?thesis
    using join_request_accepted [OF demo_ext_ok demo_ext_sign_ok demo_conv_ok frame_of_laws(1) _ s _ _ demo_bind_def frame_of_laws(2) d]
      demo_eggs_wf by simp
qed

definition demo_leave :: depart_req where
  "demo_leave = \<lparr>dr_t = 8, dr_consent_sig = depart_consent demo_ext (demo_device 2) demo_hp 8, dr_intent = 1,
     dr_words_commit = Some (demo_seed 4)\<rparr>"

theorem departure_accepted_witness:
  "parse_depart_req demo_conv (frame_of (demo_device 2) (depart_req_section demo_leave)) [] = Inr (demo_leave, demo_seed 2) \<and>
   (\<exists>consent build ops. consented_edit demo_client (demo_device 1) (demo_seed 2) 8 consent demo_ga = Inr (Some build) \<and>
      build 9 = Some ops \<and> fleet_fold demo_ext ops = Inr [demo_seed 1])"
proof -
  obtain q w where q: "demo_ga = demo_g @ [q]" and w: "fold_inner demo_ext demo_ga = Inr w"
    "w_members w = [demo_seed 1, demo_seed 2]" "w_locked w = []" "base_walk w" using demo_ga_fold by blast
  have E: "en_ext demo_client = demo_ext" by simp
  have ms: "may_sign (en_ext demo_client) demo_ga w (demo_device 1)" using demo_may_sign [OF w(1,4)] w by simp
  have j: "signer_ok (en_ext demo_client) (demo_device 2) (known_bundle (en_ext demo_client) (w_bundles w) (sg_public (demo_device 2)))
      (MASK_BASE (en_ext demo_client))"
    using demo_device_ok [of 2] base_known [OF w(4)] by simp
  have ch: "chain_handle_proof demo_ga = demo_hp" unfolding q by (rule demo_chain_hp)
  have d: "depart_req_frame (en_ext demo_client) (frame_of (demo_device 2) (depart_req_section demo_leave)) demo_leave (demo_device 2) 0 = Inr []"
    by (simp add: depart_req_frame_def frame_of_signs)
  have k: "frame_keeps (en_ext demo_client) (frame_of (demo_device 2) (depart_req_section demo_leave)) (demo_device 2) 0
      (depart_req_section demo_leave)" by (rule frame_of_laws(2))
  have mem: "sg_public (demo_device 2) \<in> set (w_members w)" "sg_public (demo_device 2) \<noteq> sg_public (demo_device 1)" using w(2) by simp_all
  have cov: "covers (MASK_BASE (en_ext demo_client)) (w_floor w)" using w(4) by (simp add: base_walk_def)
  have r: "dr_consent_sig demo_leave = depart_consent (en_ext demo_client) (demo_device 2) (chain_handle_proof demo_ga) (dr_t demo_leave)"
    "dr_t demo_leave = 8" "dr_words_commit demo_leave = Some (demo_seed 4)" by (simp_all add: demo_leave_def ch)
  have "ext_ok (en_ext demo_client)" by (simp add: demo_ext_ok)
  from departure_accepted [OF frame_of_laws(1) demo_conv64 this ms mem j cov _ _ r(1) _ k d, where at = 9]
  show ?thesis using w(2) r demo_eggs_wf demo_window(2) by (auto simp: demo_no_bundle)
qed

end
