(* ===== verification/Demo_Journey.thy ===== *)
theory Demo_Journey
  imports Journey Demo_Frames
begin

text \<open>
  The journeys of a concrete second device: into the fleet of one, and out of the fleet of two.
\<close>

theorem joined_device_resumes_witness:
  "\<exists>p. parse_bind_req demo_ext demo_conv (frame_of (demo_device 2) (bind_req_section demo_ext demo_bind demo_hp)) [] []
       = Inr (demo_hp, demo_bind, demo_seed 2) \<and>
     attest_verdict demo_ext demo_hp (demo_seed 2) None [] (Seed_Chain demo_g) = JoinOurs \<and>
     attest_verdict demo_ext demo_hp (demo_seed 2) (Some demo_g) [demo_g] (Seed_Chain (demo_g @ [p])) = Member"
proof -
  obtain w where w: "fold_inner demo_ext demo_g = Inr w" "w_members w = [demo_seed 1]" "w_locked w = []"
    "w_bundles w = []" "base_walk w" using demo_g_fold by blast
  have ms: "may_sign (en_ext demo_client) demo_g w (demo_device 1)" using demo_may_sign [OF w(1,5)] w by simp
  have cp: "chain_handle_proof demo_g = demo_hp" using demo_chain_hp [of "[]"] by simp
  have j: "join_subject demo_ext (demo_device 2) = ed25519_only demo_ext (demo_seed 2)"
    by (simp add: join_subject_def demo_no_bundle)
  have s: "signer_ok (en_ext demo_client) (demo_device 2) (join_subject (en_ext demo_client) (demo_device 2))
      (bundle_mask (join_subject (en_ext demo_client) (demo_device 2)))"
    using demo_device_ok [of 2] by (simp add: j)
  have cov: "covers (bundle_mask (join_subject (en_ext demo_client) (demo_device 2))) (w_floor w)"
    using w(5) by (simp add: j base_walk_def)
  have ext: "ext_ok (en_ext demo_client)" "ext_sign_ok (en_ext demo_client)"
    by (simp_all add: demo_ext_ok demo_ext_sign_ok)
  have r: "demo_bind = bind_request_plated (en_ext demo_client) (demo_device 2) (demo_seed 8) (chain_handle_proof demo_g) 6 zero32 None UNSTATED"
    by (simp add: demo_bind_def cp)
  have k: "frame_keeps (en_ext demo_client) (frame_of (demo_device 2) (bind_req_section demo_ext demo_bind demo_hp)) (demo_device 2) 0
      (bind_req_section (en_ext demo_client) demo_bind (chain_handle_proof demo_g))"
    using frame_of_laws(2) by (simp add: cp)
  have d: "bind_req (en_ext demo_client) (frame_of (demo_device 2) (bind_req_section demo_ext demo_bind demo_hp)) demo_bind
      (chain_handle_proof demo_g) (demo_device 2) 0 = Inr []"
    by (simp add: bind_req_def frame_of_signs)
  have fresh: "sg_public (demo_device 2) \<notin> set (w_members w)" "map_of (w_bundles w) (sg_public (demo_device 2)) = None"
    using w by simp_all
  have hp: "length (chain_handle_proof demo_g) = 32" by (simp add: cp)
  have rest: "\<forall>msg m. wf_eggs (sg_eggs (demo_device 2) msg m)" "case None :: bytes option of Some p \<Rightarrow> length p = 32 | None \<Rightarrow> True"
    "plate_known UNSTATED" "time_ok (7 :: i64)" "abs_diff_i64 7 6 \<le> CONSENT_WINDOW_OSC (en_ext demo_client)"
    using demo_window(1) demo_eggs_wf by simp_all
  obtain p where p: "parse_bind_req demo_ext demo_conv (frame_of (demo_device 2) (bind_req_section demo_ext demo_bind demo_hp)) [] []
       = Inr (demo_hp, demo_bind, demo_seed 2)"
    "attest_verdict demo_ext demo_hp (demo_seed 2) None [] (Seed_Chain demo_g) = JoinOurs"
    "\<forall>held peers. (\<forall>d. held = Some d \<longrightarrow> prefix d (demo_g @ [p])) \<and> (\<forall>d \<in> set peers. prefix d (demo_g @ [p])) \<longrightarrow>
       attest_verdict demo_ext demo_hp (demo_seed 2) held peers (Seed_Chain (demo_g @ [p])) = Member"
    using joined_device_resumes [OF ms fresh ext demo_conv_ok frame_of_laws(1) hp s cov rest(1,2,3) r k d rest(4,5), of "[]"]
    unfolding cp by auto
  have "attest_verdict demo_ext demo_hp (demo_seed 2) (Some demo_g) [demo_g] (Seed_Chain (demo_g @ [p])) = Member"
    using p(3) [rule_format, of "Some demo_g" "[demo_g]"] by simp
  then show ?thesis using p(1,2) by blast
qed

theorem departed_device_is_out_witness:
  "\<exists>p. attest_verdict demo_ext demo_hp (demo_seed 2) (Some demo_ga) [] (Seed_Chain demo_ga) = Member \<and>
     attest_verdict demo_ext demo_hp (demo_seed 2) (Some demo_ga) [] (Seed_Chain (demo_ga @ [p])) = JoinOurs \<and>
     attest_verdict demo_ext demo_hp (demo_seed 1) (Some demo_ga) [] (Seed_Chain (demo_ga @ [p])) = Member"
proof -
  obtain q w where q: "demo_ga = demo_g @ [q]" and w: "fold_inner demo_ext demo_ga = Inr w"
    "w_members w = [demo_seed 1, demo_seed 2]" "w_locked w = []" "base_walk w" using demo_ga_fold by blast
  have ms: "may_sign (en_ext demo_client) demo_ga w (demo_device 1)" using demo_may_sign [OF w(1,4)] w by simp
  have j: "signer_ok (en_ext demo_client) (demo_device 2) (known_bundle (en_ext demo_client) (w_bundles w) (sg_public (demo_device 2)))
      (MASK_BASE (en_ext demo_client))"
    using demo_device_ok [of 2] base_known [OF w(4)] by simp
  have ch: "chain_handle_proof demo_ga = demo_hp" unfolding q by (rule demo_chain_hp)
  have d: "depart_req_frame (en_ext demo_client) (frame_of (demo_device 2) (depart_req_section demo_leave)) demo_leave (demo_device 2) 0 = Inr []"
    by (simp add: depart_req_frame_def frame_of_signs)
  have k: "frame_keeps (en_ext demo_client) (frame_of (demo_device 2) (depart_req_section demo_leave)) (demo_device 2) 0
      (depart_req_section demo_leave)" by (rule frame_of_laws(2))
  have mem: "sg_public (demo_device 2) \<in> set (w_members w)" "sg_public (demo_device 2) \<noteq> sg_public (demo_device 1)" using w(2) by simp_all
  have cov: "covers (MASK_BASE (en_ext demo_client)) (w_floor w)" using w(4) by (simp add: base_walk_def)
  have r: "dr_consent_sig demo_leave = depart_consent (en_ext demo_client) (demo_device 2) (chain_handle_proof demo_ga) (dr_t demo_leave)"
    "dr_t demo_leave = 8" "dr_words_commit demo_leave = Some (demo_seed 4)" by (simp_all add: demo_leave_def ch)
  have "ext_ok (en_ext demo_client)" by (simp add: demo_ext_ok)
  from departed_device_is_out [OF frame_of_laws(1) demo_conv64 this ms mem j cov _ _ r(1) _ k d, where at = 9]
  show ?thesis using w(2) r demo_eggs_wf demo_window(2) by (auto simp: demo_no_bundle ch)
qed

end
