(* ===== verification/Spec2Isabelle.thy ===== *)
theory Spec2Isabelle
  imports Demo_Fleet Demo_Wire Slice_Props Registry_Props Fstate_Codec Fanout_Props Demo_Key Scoped_Props Phonebook_Doc
    Demo_Journey
begin

text \<open>
  fgtw is the client substrate of an identity that lives on several devices: one handle, one fleet of
  devices, one append-only chain of signed ops that says who belongs to it, and the services around that
  chain. This development models the crate under src/src and proves what its parts promise. The crate
  calls other crates for signatures, hashes, AEADs, the curve, the \<open>vsf\<close> document container, the \<open>voca\<close>
  word list, transport, clock and entropy: these are parameters of the definitions (records \<open>ext\<close>,
  \<open>fan_ext\<close>, \<open>aead\<close>, \<open>vsf_conv\<close>, \<open>vsf_doc\<close>, \<open>frame_doc\<close>, \<open>scoped_doc\<close>, \<open>addr_doc\<close>, \<open>slice_doc\<close>,
  \<open>doc_codec\<close>, \<open>client_env\<close>), and what the crate relies on of them is a named law (\<open>ext_ok\<close>,
  \<open>ext_sign_ok\<close>, \<open>fan_ok\<close>, \<open>aead_ok\<close>, \<open>conv_ok\<close>, \<open>doc_keeps\<close>, \<open>frame_keeps\<close>, \<open>voca_ok\<close> and so on),
  shown satisfiable by the concrete values of the \<open>Demo_\<close> theories and of the witnesses. The laws of the
  containers hold of a container that narrows: an unsigned integer may come back at another width than it
  was written at (\<open>same_value\<close>, \<open>same_section\<close>), as the comments of fleet.rs and phonebook.rs say it does.

  The parts, the theories that model them, and what their lemmas show:

  \<^item> Ground. \<open>Fgtw_Prelude\<close>: bytes, fixed-width integers and their encodings, frames, run lemmas, and the
    locales \<open>step_invariant\<close>, \<open>step_monotone\<close> and \<open>codec\<close> that the components interpret. \<open>Effects\<close>:
    results (\<open>try_r\<close> is the question mark of Rust) and state (\<open>try_s\<close>, \<open>bind_s\<close>).
  \<^item> Keys and signatures, pq.rs and keys.rs. \<open>Pq\<close>: key bundles with their wire form, the strict and the
    declared verification rule, envelope slots, signers.
  \<^item> The membership chain, fleet.rs. \<open>Fleet_Op\<close>: the op record and the bytes that are signed and hashed,
    with their injectivity. \<open>Fleet_Fold\<close>: the walk of \<open>fold_inner\<close>, check by check and kind by kind, and the
    accessors. \<open>Fleet_Safety\<close>: its invariants and its security. \<open>Fleet_Spec\<close>: the membership
    automaton without bytes or signatures, in which a device is known by what it declared last; the fold
    refines it on chains in which a device that comes back brings the schemes it had (\<open>steady_rejoins\<close>:
    without that the fold goes on judging it by its old bundle). \<open>Fleet_Build\<close>: the builders; each is
    shown to extend an accepted chain to an accepted one. \<open>Fleet_Adopt\<close>: extension, adoption and
    succession. \<open>Fleet_Wire\<close> and \<open>Chain_Doc\<close>: the op codec and the documents, with round trips;
    \<open>Chain_Typed\<close>: what any parsed op is.
  \<^item> The verdict on a handle, attest.rs. \<open>Attest\<close>: the loop and its loop-free specification.
  \<^item> The phonebook, phonebook.rs. \<open>Phonebook_Record\<close>: the 256-byte records. \<open>Probe\<close>: gapped sorted arrays
    in the abstract (locale \<open>probing\<close>). \<open>Slice\<close>, \<open>Slice_Write\<close>, \<open>Slice_Laws\<close>, \<open>Slice_Props\<close>: the slice as
    a map from keys to records, its writes, and the epoch guard (locale \<open>epoch_store\<close>). \<open>Registry\<close>,
    \<open>Registry_Props\<close>: the plan that projects a fold onto the registry, over a storage that refuses a record
    not newer than the one its key holds, as the comments describe it. \<open>Phonebook_Doc\<close>: address sets and
    the transport of a slice.
  \<^item> The fleet's shared state, fstate.rs. \<open>Fstate_Merge\<close>: the merge as a join by rank (locale \<open>ranked_merge\<close>),
    so that replicas agree, whatever tree of merges (\<open>merges\<close>) they came by. \<open>Fstate_Codec\<close>: the sections and documents.
  \<^item> The fleet key, fanout.rs. \<open>Fanout\<close>, \<open>Fanout_Props\<close>: sealing to every member, opening, the blob codec.
  \<^item> Scoped blobs, scoped_blob.rs. \<open>Scoped\<close>, \<open>Scoped_Props\<close>.
  \<^item> Pairing, pair.rs. \<open>Pair\<close>: word codec, spell check, commitments, for ASCII text.
  \<^item> Traversal, traverse. \<open>Traverse\<close>, \<open>Traverse_Props\<close>, \<open>Reflexive_Props\<close>: candidates, gathering and the
    reflexive address, the last as a step relation over histories of reports.
  \<^item> Frames, protocol.rs, pipe.rs and traverse/wire.rs. \<open>Frames\<close>, \<open>Frames_Props\<close>.
  \<^item> The client, client.rs. \<open>Client_Core\<close>, \<open>Client_Chain\<close>, \<open>Client_Key\<close>: every function over a record of the
    surroundings whose transport may answer anything. \<open>Client_Sessions\<close>: the exchanges of an edit as a
    step relation, and the contract of an edit (locale \<open>chain_edit\<close>), interpreted for the five edits.
    \<open>Client_Chain_Props\<close>, \<open>Client_Key_Props\<close>: what a call publishes, how often, and what its Ok means.
  \<^item> All together. \<open>Journey\<close>: a join and a departure from the request to the verdict afterwards.
  \<^item> \<open>Demo_World\<close>, \<open>Demo_Fleet\<close>, \<open>Demo_Wire\<close>, \<open>Demo_Client\<close>, \<open>Demo_Key\<close>, \<open>Demo_Frames\<close>, \<open>Demo_Journey\<close>:
    concrete inputs.

  How the code is written down. A struct is a record and an enum a datatype, with the source's names
  where Isabelle has them free; \<open>[u8; n]\<close> and \<open>Vec<u8>\<close> are byte lists, and the array lengths are
  hypotheses or, after a parse, theorems; u8 to u64 are words, i64 is a 64-bit word read with \<open>sint\<close>;
  a Result is a sum with the error left, and where client.rs inspects an error it is the text of the source; a
  panic is None or a named error text. Loops are structural recursions over what they walk, or \<open>function\<close>s
  with a measure (the slots left, for the shifts of a slice). No fuel is invented: the only counter is the four
  attempts of the client's edits, which is the source's own. The one loop without a
  measure, the padding of \<open>depart_words\<close>, is a \<open>partial_function\<close> over the word list, and
  \<open>depart_words_three\<close> shows that it ends, because the zero word it prepends is capitalised. Arithmetic wraps as in a release build (the revision of a fan-out, the checkpoint
  index).

  Not modelled: the clock and entropy statics of lib.rs and its module declarations (platform state, an
  argument here); constants and flags nobody reads (the beacon groups, ports, stream flags); \<open>Debug\<close>
  impressions; schema declarations of the \<open>vsf\<close> builders (fstate.rs), which only name the fields; the
  unit tests. Text is ASCII in \<open>Pair\<close> and \<open>Frames\<close>, as the word list is.
\<close>

end
